(* ===== verification/Prelude.thy ===== *)
theory Prelude
  imports Main "HOL-Library.Char_ord" "HOL-Library.List_Lexorder"
begin

text \<open>
  Shared vocabulary of the development.

  \<^item> JavaScript values as the client meets them in JSON bodies (\<open>jsval\<close>), with member access,
    truthiness, nullishness and conversion to a string, including the members that throw.
  \<^item> Strings: JavaScript strings are \<open>string\<close> (lists of one-byte code units); the operations the
    client uses are length, equality, concatenation, \<open>slice\<close>, \<open>trim\<close> and the code-unit order, which
    is the lexicographic order of \<open>List_Lexorder\<close> over \<open>Char_ord\<close>.
  \<^item> Decimal printing and reading (\<open>show_nat\<close>, \<open>parse_digits\<close>), ISO dates and their order.
  \<^item> Rendered output: a tree of elements with attributes (\<open>jsx\<close>), and the events an element offers.
  \<^item> Transition systems: reachability and the invariant rule, as a locale that the stateful
    components interpret.
\<close>

named_theorems handler_defs \<open>definitions of event handlers and callbacks\<close>
named_theorems render_defs \<open>definitions of render functions\<close>

subsection \<open>JavaScript values\<close>

datatype jsval =
    Undefined
  | JNull
  | JBool bool
  | JNum int
  | JStr string
  | JArr "jsval list"
  | JObj "(string \<times> jsval) list"

text \<open>
  What can be thrown: the client's own error class, another instance of \<open>Error\<close> (by its name and
  message; an aborted fetch has the name AbortError), or a value that is no \<open>Error\<close>.
\<close>

datatype js_error =
    ApiClientError (ace_message: string) (ace_status: nat) (ace_code: jsval) (ace_details: jsval)
  | OtherError (oe_name: string) (oe_message: string)
  | NonError jsval

fun err_instanceof_Error :: "js_error \<Rightarrow> bool" where
  "err_instanceof_Error (NonError _) = False"
| "err_instanceof_Error _ = True"

fun err_name :: "js_error \<Rightarrow> string" where
  "err_name (ApiClientError _ _ _ _) = ''ApiClientError''"
| "err_name (OtherError n _) = n"
| "err_name (NonError _) = ''''"

fun err_message :: "js_error \<Rightarrow> string" where
  "err_message (ApiClientError m _ _ _) = m"
| "err_message (OtherError _ m) = m"
| "err_message (NonError _) = ''''"

definition message_or :: "js_error \<Rightarrow> string \<Rightarrow> string" where
  \<comment> \<open>\<open>err instanceof Error ? err.message : fallback\<close>\<close>
  "message_or err fallback = (if err_instanceof_Error err then err_message err else fallback)"

definition is_AbortError :: "js_error \<Rightarrow> bool" where
  "is_AbortError err \<longleftrightarrow> err_instanceof_Error err \<and> err_name err = ''AbortError''"

abbreviation "type_error \<equiv> OtherError ''TypeError'' ''Cannot read properties''"

fun js_get :: "jsval \<Rightarrow> string \<Rightarrow> js_error + jsval" where
  "js_get Undefined k = Inl type_error"
| "js_get JNull k = Inl type_error"
| "js_get (JObj fs) k = Inr (case map_of fs k of None \<Rightarrow> Undefined | Some v \<Rightarrow> v)"
| "js_get _ k = Inr Undefined"

fun nullish :: "jsval \<Rightarrow> bool" where
  "nullish Undefined = True"
| "nullish JNull = True"
| "nullish _ = False"

fun js_truthy :: "jsval \<Rightarrow> bool" where
  "js_truthy Undefined = False"
| "js_truthy JNull = False"
| "js_truthy (JBool b) = b"
| "js_truthy (JNum n) = (n \<noteq> 0)"
| "js_truthy (JStr s) = (s \<noteq> [])"
| "js_truthy _ = True"

definition truthy_opt :: "string option \<Rightarrow> bool" where
  \<comment> \<open>truthiness of a \<open>string | null | undefined\<close>\<close>
  "truthy_opt s \<longleftrightarrow> (case s of None \<Rightarrow> False | Some t \<Rightarrow> t \<noteq> [])"

lemma truthy_opt_simps [simp]:
  "\<not> truthy_opt None" "truthy_opt (Some t) \<longleftrightarrow> t \<noteq> []"
  by (simp_all add: truthy_opt_def)

subsection \<open>Decimal numerals\<close>

definition digit_char :: "nat \<Rightarrow> char" where
  "digit_char d = char_of (48 + d mod 10)"

fun show_nat :: "nat \<Rightarrow> string" where
  "show_nat n = (if n < 10 then [digit_char n] else show_nat (n div 10) @ [digit_char (n mod 10)])"

declare show_nat.simps [simp del]

definition show_int :: "int \<Rightarrow> string" where
  "show_int i = (if i < 0 then CHR ''-'' # show_nat (nat (- i)) else show_nat (nat i))"

definition is_digit :: "char \<Rightarrow> bool" where
  "is_digit c \<longleftrightarrow> 48 \<le> (of_char c :: nat) \<and> (of_char c :: nat) \<le> 57"

definition digit_val :: "char \<Rightarrow> nat" where
  "digit_val c = of_char c - 48"

definition parse_digits :: "string \<Rightarrow> nat" where
  "parse_digits s = foldl (\<lambda>a c. 10 * a + digit_val c) 0 s"

lemma of_char_digit_char [simp]: "(of_char (digit_char d) :: nat) = 48 + d mod 10"
proof -
  have "48 + d mod 10 < 256" by (rule le_less_trans [of _ "48 + 9"]) auto
  then show ?thesis by (simp add: digit_char_def)
qed

lemma is_digit_digit_char [simp]: "is_digit (digit_char d)"
proof -
  have "d mod 10 < 10" by simp
  then have "d mod 10 \<le> 9" by linarith
  then show ?thesis by (simp add: is_digit_def)
qed

lemma digit_val_digit_char [simp]: "digit_val (digit_char d) = d mod 10"
  by (simp add: digit_val_def)

lemma parse_digits_snoc: "parse_digits (s @ [c]) = 10 * parse_digits s + digit_val c"
  by (simp add: parse_digits_def)

lemma show_nat_digits: "list_all is_digit (show_nat n)"
proof (induction n rule: show_nat.induct)
  case (1 n)
  then show ?case by (subst show_nat.simps) (simp add: list_all_iff)
qed

lemma show_nat_nonempty [simp]: "show_nat n \<noteq> []"
  by (subst show_nat.simps) simp

lemma parse_show_nat [simp]: "parse_digits (show_nat n) = n"
proof (induction n rule: show_nat.induct)
  case (1 n)
  then show ?case
    by (subst show_nat.simps) (auto simp: parse_digits_snoc, simp add: parse_digits_def)
qed

lemma show_nat_inject [simp]: "show_nat m = show_nat n \<longleftrightarrow> m = n"
  by (metis parse_show_nat)

fun js_to_string :: "jsval \<Rightarrow> string" where
  "js_to_string Undefined = ''undefined''"
| "js_to_string JNull = ''null''"
| "js_to_string (JBool b) = (if b then ''true'' else ''false'')"
| "js_to_string (JNum n) = show_int n"
| "js_to_string (JStr s) = s"
| "js_to_string (JArr []) = ''''"
| "js_to_string (JArr [v]) = (if nullish v then '''' else js_to_string v)"
| "js_to_string (JArr (v # w # vs)) =
     (if nullish v then '''' else js_to_string v) @ '','' @ js_to_string (JArr (w # vs))"
| "js_to_string (JObj _) = ''[object Object]''"

subsection \<open>Strings\<close>

definition slice10 :: "string \<Rightarrow> string" where
  \<comment> \<open>\<open>s.slice(0, 10)\<close>\<close>
  "slice10 s = take 10 s"

definition js_ws :: "char \<Rightarrow> bool" where
  \<comment> \<open>the one-byte code units that \<open>trim\<close> removes: TAB LF VT FF CR SP and NBSP\<close>
  "js_ws c \<longleftrightarrow> (of_char c :: nat) \<in> {9, 10, 11, 12, 13, 32, 160}"

definition js_trim :: "string \<Rightarrow> string" where
  "js_trim s = rev (dropWhile js_ws (rev (dropWhile js_ws s)))"

lemma js_trim_eq_Nil: "js_trim s = [] \<longleftrightarrow> (\<forall>c \<in> set s. js_ws c)"
proof
  assume "js_trim s = []"
  then have all: "\<forall>c \<in> set (dropWhile js_ws s). js_ws c"
    by (simp add: js_trim_def)
  have "dropWhile js_ws s = []"
  proof (rule ccontr)
    assume ne: "dropWhile js_ws s \<noteq> []"
    then have "js_ws (hd (dropWhile js_ws s))" using all by simp
    with ne show False by (simp add: hd_dropWhile)
  qed
  then show "\<forall>c \<in> set s. js_ws c" by simp
qed (auto simp: js_trim_def dest: set_dropWhileD)

subsection \<open>Calendar dates and their ISO form\<close>

text \<open>
  The forms compare ISO dates (YYYY-MM-DD) as strings. The reference order is the lexicographic
  order on year, month and day.
\<close>

datatype civil_date = Civil (cd_year: nat) (cd_month: nat) (cd_day: nat)

instantiation civil_date :: linorder
begin

definition less_eq_civil_date :: "civil_date \<Rightarrow> civil_date \<Rightarrow> bool" where
  "less_eq_civil_date a b \<longleftrightarrow> cd_year a < cd_year b \<or> cd_year a = cd_year b \<and>
     (cd_month a < cd_month b \<or> cd_month a = cd_month b \<and> cd_day a \<le> cd_day b)"

definition less_civil_date :: "civil_date \<Rightarrow> civil_date \<Rightarrow> bool" where
  "less_civil_date a b \<longleftrightarrow> a \<le> b \<and> \<not> b \<le> (a :: civil_date)"

instance
  by standard (auto simp: less_eq_civil_date_def less_civil_date_def civil_date.expand)

end

definition pad2 :: "nat \<Rightarrow> string" where
  "pad2 n = [digit_char (n div 10), digit_char n]"

definition pad4 :: "nat \<Rightarrow> string" where
  "pad4 n = [digit_char (n div 1000), digit_char (n div 100), digit_char (n div 10), digit_char n]"

fun iso_date :: "civil_date \<Rightarrow> string" where
  "iso_date (Civil y m d) = pad4 y @ ''-'' @ pad2 m @ ''-'' @ pad2 d"

fun printable_date :: "civil_date \<Rightarrow> bool" where
  "printable_date (Civil y m d) \<longleftrightarrow> y < 10000 \<and> m < 100 \<and> d < 100"

lemma length_iso_date [simp]: "length (iso_date a) = 10"
  by (cases a) (simp add: pad2_def pad4_def)

lemma digit_char_less [simp]: "digit_char a < digit_char b \<longleftrightarrow> a mod 10 < b mod 10"
  by (simp add: less_char_def)

lemma digit_char_eq [simp]: "digit_char a = digit_char b \<longleftrightarrow> a mod 10 = b mod 10"
  by (metis digit_char_def digit_val_digit_char)

lemma div_mod_lex:
  fixes m n k :: nat
  assumes "0 < k"
  shows "m div k < n div k \<or> m div k = n div k \<and> (m mod k < n mod k \<or> m mod k = n mod k \<and> P)
    \<longleftrightarrow> m < n \<or> m = n \<and> P"
proof -
  have m: "m = k * (m div k) + m mod k" and n: "n = k * (n div k) + n mod k" by simp_all
  have lt: "m < n" if "m div k < n div k"
    using that by (metis div_le_mono linorder_not_le)
  have eq: "(m < n \<longleftrightarrow> m mod k < n mod k) \<and> (m = n \<longleftrightarrow> m mod k = n mod k)" if "m div k = n div k"
    using that m n by (metis add_left_cancel nat_add_left_cancel_less)
  have gt: "\<not> (m < n \<or> m = n)" if "n div k < m div k"
    using that by (metis div_le_mono linorder_not_le order.strict_implies_order order_less_irrefl)
  show ?thesis
    using lt eq gt by (cases "m div k" "n div k" rule: linorder_cases) auto
qed

lemma pad2_order:
  assumes "m < 100" "n < 100"
  shows "pad2 m @ r < pad2 n @ s \<longleftrightarrow> m < n \<or> m = n \<and> r < s"
  using assms div_mod_lex [of 10 m n] by (simp add: pad2_def)

lemma pad4_order:
  assumes "m < 10000" "n < 10000"
  shows "pad4 m @ r < pad4 n @ s \<longleftrightarrow> m < n \<or> m = n \<and> r < s"
proof -
  have d: "x div 100 = x div 10 div 10" "x div 1000 = x div 100 div 10" for x :: nat
    by (simp_all add: div_mult2_eq [symmetric])
  have "pad4 m @ r < pad4 n @ s \<longleftrightarrow>
      m div 100 < n div 100 \<or> m div 100 = n div 100 \<and> (m div 10 mod 10 < n div 10 mod 10 \<or>
        m div 10 mod 10 = n div 10 mod 10 \<and> (m mod 10 < n mod 10 \<or> m mod 10 = n mod 10 \<and> r < s))"
    using assms div_mod_lex [of 10 "m div 100" "n div 100"] by (simp add: pad4_def d(2))
  also have "\<dots> \<longleftrightarrow> m div 10 < n div 10 \<or> m div 10 = n div 10 \<and>
      (m mod 10 < n mod 10 \<or> m mod 10 = n mod 10 \<and> r < s)"
    using div_mod_lex [of 10 "m div 10" "n div 10"] by (simp add: d(1))
  also have "\<dots> \<longleftrightarrow> m < n \<or> m = n \<and> r < s"
    using div_mod_lex [of 10 m n] by simp
  finally show ?thesis .
qed

lemma iso_date_less_iff:
  assumes "printable_date a" "printable_date b"
  shows "iso_date a < iso_date b \<longleftrightarrow> a < b"
proof (cases a; cases b)
  fix y m d y' m' d' assume a: "a = Civil y m d" and b: "b = Civil y' m' d'"
  have "pad2 d < pad2 d' \<longleftrightarrow> d < d'"
    using pad2_order [of d d' "[]" "[]"] assms a b by simp
  then show ?thesis
    using assms a b
    by (auto simp: pad4_order pad2_order less_civil_date_def less_eq_civil_date_def)
qed

subsection \<open>Rendered output\<close>

text \<open>
  A render function yields a tree of elements. Elements of the component libraries (Button, Box,
  Typography, ...) appear by their tag with the attributes the code passes; styling attributes
  (\<open>sx\<close>, \<open>style\<close>, layout) are left out. A callback attribute carries the event it stands for. The
  Japanese literals of the source appear as ASCII glosses, one gloss per literal.
\<close>

datatype 'e attr = AStr string | ABool bool | ANum nat | AEv 'e | AUndef

datatype 'e jsx = El string "(string \<times> 'e attr) list" "'e jsx list" | Txt string | NullJsx

definition when_jsx :: "bool \<Rightarrow> 'e jsx \<Rightarrow> 'e jsx" where
  \<comment> \<open>\<open>{cond && element}\<close>\<close>
  "when_jsx b x = (if b then x else NullJsx)"

definition ev_attr :: "'e option \<Rightarrow> 'e attr" where
  "ev_attr e = (case e of None \<Rightarrow> AUndef | Some v \<Rightarrow> AEv v)"

definition own_events :: "string \<Rightarrow> (string \<times> 'e attr) list \<Rightarrow> 'e list" where
  \<comment> \<open>the events an element offers for one callback attribute; a disabled element offers none\<close>
  "own_events k as =
     (case map_of as ''disabled'' of
        Some (ABool True) \<Rightarrow> []
      | _ \<Rightarrow> (case map_of as k of Some (AEv e) \<Rightarrow> [e] | _ \<Rightarrow> []))"

fun offered :: "string \<Rightarrow> 'e jsx \<Rightarrow> 'e list" where
  "offered k (El t as cs) = own_events k as @ concat (map (offered k) cs)"
| "offered k (Txt s) = []"
| "offered k NullJsx = []"

abbreviation clickable :: "'e jsx \<Rightarrow> 'e list" where
  "clickable \<equiv> offered ''onClick''"

fun texts_of :: "'e jsx \<Rightarrow> string list" where
  "texts_of (El t as cs) = concat (map texts_of cs)"
| "texts_of (Txt s) = [s]"
| "texts_of NullJsx = []"

lemma when_jsx_simps [simp]: "when_jsx True x = x" "when_jsx False x = NullJsx"
  by (simp_all add: when_jsx_def)

lemma offered_when [simp]: "offered k (when_jsx b x) = (if b then offered k x else [])"
  by simp

lemma own_events_subset: "set (own_events k as) \<subseteq> {e. map_of as k = Some (AEv e)}"
  by (auto simp: own_events_def split: option.splits attr.splits bool.splits)

subsection \<open>Transition systems\<close>

inductive reach :: "('s \<Rightarrow> bool) \<Rightarrow> ('s \<Rightarrow> 's \<Rightarrow> bool) \<Rightarrow> 's \<Rightarrow> bool"
  for init :: "'s \<Rightarrow> bool" and step :: "'s \<Rightarrow> 's \<Rightarrow> bool" where
  reach_init: "init s \<Longrightarrow> reach init step s"
| reach_step: "reach init step s \<Longrightarrow> step s t \<Longrightarrow> reach init step t"

locale invariant_system =
  fixes init :: "'s \<Rightarrow> bool" and step :: "'s \<Rightarrow> 's \<Rightarrow> bool" and inv :: "'s \<Rightarrow> bool"
  assumes inv_init: "init s \<Longrightarrow> inv s"
    and inv_step: "inv s \<Longrightarrow> step s t \<Longrightarrow> inv t"
begin

lemma invariant: "reach init step s \<Longrightarrow> inv s"
  by (induction rule: reach.induct) (auto intro: inv_init inv_step)

lemma steps_invariant: "step\<^sup>*\<^sup>* s t \<Longrightarrow> inv s \<Longrightarrow> inv t"
  by (induction rule: rtranclp_induct) (auto intro: inv_step)

end

end
