(* ===== verification/Api_Types.thy ===== *)
theory Api_Types
  imports Prelude
begin

text \<open>
  The data model of the API (frontend/src/api/types.ts): roles, report states, reports with their
  items and attachments, pagination and the request types. Optional members are \<open>option\<close>s; amounts
  and counts are integers; identifiers and timestamps are strings.
\<close>

datatype role = Admin | Approver | Member | Accounting

fun role_name :: "role \<Rightarrow> string" where
  "role_name Admin = ''admin''"
| "role_name Approver = ''approver''"
| "role_name Member = ''member''"
| "role_name Accounting = ''accounting''"

datatype report_status = Draft | Submitted | Approved | Rejected | Paid

fun status_name :: "report_status \<Rightarrow> string" where
  "status_name Draft = ''draft''"
| "status_name Submitted = ''submitted''"
| "status_name Approved = ''approved''"
| "status_name Rejected = ''rejected''"
| "status_name Paid = ''paid''"

record user_summary =
  us_id :: string
  us_name :: string

record auth_user =
  au_id :: string
  au_name :: string
  au_email :: string
  au_role :: role
  au_tenant_id :: string
  au_tenant_name :: string

record category =
  cat_id :: string
  cat_code :: string
  cat_name_ja :: string
  cat_sort_order :: int

record pagination =
  current_page :: int
  per_page :: int
  total_count :: int
  total_pages :: int

record attachment =
  at_id :: string
  at_item_id :: string
  at_file_name :: string
  at_file_size :: nat
  at_mime_type :: string
  at_created_at :: string

record attachment_access =
  aa_url :: string
  aa_file_name :: string
  aa_mime_type :: string
  aa_file_size :: nat
  aa_expires_at :: string

record expense_item =
  it_id :: string
  it_report_id :: string
  it_expense_date :: string
  it_amount :: int
  it_category :: category
  it_description :: string
  it_created_at :: string
  it_updated_at :: string
  it_attachments :: "attachment list"

record report_summary =
  rs_id :: string
  rs_title :: string
  rs_period_start :: string
  rs_period_end :: string
  rs_status :: report_status
  rs_total_amount :: int
  rs_submitted_at :: "string option"
  rs_created_at :: string
  rs_updated_at :: string
  rs_submitter :: "user_summary option"

record report_detail =
  rd_id :: string
  rd_title :: string
  rd_period_start :: string
  rd_period_end :: string
  rd_status :: report_status
  rd_total_amount :: int
  rd_submitter :: user_summary
  rd_reference_report_id :: "string option"
  rd_submitted_at :: "string option"
  rd_submitted_by :: "user_summary option"
  rd_approved_at :: "string option"
  rd_approved_by :: "user_summary option"
  rd_approval_comment :: "string option"
  rd_rejected_at :: "string option"
  rd_rejected_by :: "user_summary option"
  rd_rejection_reason :: "string option"
  rd_paid_at :: "string option"
  rd_paid_by :: "user_summary option"
  rd_items :: "expense_item list"
  rd_created_at :: string
  rd_updated_at :: string

text \<open>
  The rows of the workflow lists; the submitter is an option because the pages read it with \<open>?.\<close>.
\<close>

record workflow_row =
  wr_id :: string
  wr_title :: string
  wr_total_amount :: int
  wr_submitter :: "user_summary option"

record pending_report = workflow_row +
  pr_submitted_at :: string
  pr_is_own_report :: bool

record payable_report = workflow_row +
  pb_approved_at :: string
  pb_is_own_report :: bool

datatype report_decision = DecidedApproved | DecidedRejected

record processed_report = workflow_row +
  pc_decision :: report_decision
  pc_decided_at :: string
  pc_current_status :: report_status

record all_report_row =
  ar_id :: string
  ar_title :: string
  ar_submitter :: user_summary
  ar_total_amount :: int
  ar_status :: report_status
  ar_submitted_at :: "string option"
  ar_created_at :: string

record monthly_summary =
  ms_year_month :: string
  ms_total_amount :: int

record recent_report =
  rr_id :: string
  rr_title :: string
  rr_period_start :: string
  rr_period_end :: string
  rr_total_amount :: int
  rr_status :: report_status
  rr_updated_at :: string

record dashboard =
  db_my_draft_count :: "int option"
  db_my_submitted_count :: "int option"
  db_my_rejected_count :: "int option"
  db_recent_reports :: "recent_report list option"
  db_pending_approval_count :: "int option"
  db_pending_payment_count :: "int option"
  db_monthly_summary :: "monthly_summary list option"
  db_tenant_draft_count :: "int option"
  db_tenant_submitted_count :: "int option"
  db_tenant_approved_count :: "int option"
  db_tenant_rejected_count :: "int option"
  db_tenant_paid_count :: "int option"
  db_tenant_member_count :: "int option"

record tenant_info =
  ti_id :: string
  ti_name :: string
  ti_created_at :: string

text \<open>Browser files: the identity of the \<open>File\<close> object and the members the client reads.\<close>

record upload_file =
  f_ident :: nat
  f_name :: string
  f_type :: string
  f_size :: nat

text \<open>Members of JSON objects read as in \<open>body.a.b\<close>.\<close>

fun js_path :: "jsval \<Rightarrow> string list \<Rightarrow> js_error + jsval" where
  "js_path v [] = Inr v"
| "js_path v (k # ks) = (case js_get v k of Inl e \<Rightarrow> Inl e | Inr w \<Rightarrow> js_path w ks)"

lemma role_name_inject [simp]: "role_name a = role_name b \<longleftrightarrow> a = b"
  by (cases a; cases b) simp_all

lemma status_name_inject [simp]: "status_name a = status_name b \<longleftrightarrow> a = b"
  by (cases a; cases b) simp_all

end
