(* ===== verification/Error_Messages.thy ===== *)
theory Error_Messages
  imports Prelude
begin

text \<open>
  The message table of the API errors (frontend/src/lib/error-messages.ts), the list of error codes
  (frontend/src/lib/constants.ts) and the code inferred from an HTTP status when the body is not
  JSON. The table is an association list in the order of the source, read as an object with no
  members but its own.
\<close>

definition SERVER_ERROR_MESSAGES :: "(string \<times> string) list" where
  "SERVER_ERROR_MESSAGES =
    [(''BAD_REQUEST'', ''The request is malformed.''),
     (''VALIDATION_ERROR'', ''The input has errors. Check each field.''),
     (''UNAUTHORIZED'', ''Authentication is required. Log in again.''),
     (''INVALID_CREDENTIALS'', ''The e-mail address or the password is wrong''),
     (''INVALID_TOKEN'', ''The credentials are invalid. Log in again.''),
     (''TOKEN_EXPIRED'', ''The credentials have expired. Log in again.''),
     (''FORBIDDEN'', ''You may not perform this operation.''),
     (''SELF_APPROVAL_NOT_ALLOWED'', ''You cannot approve your own report''),
     (''SELF_PAYMENT_NOT_ALLOWED'', ''You cannot record the payment of a report you created''),
     (''RESOURCE_NOT_FOUND'', ''The requested data was not found.''),
     (''CONFLICT'', ''Another user has updated this report. Reload the page.''),
     (''FILE_TOO_LARGE'', ''Files may have at most 5MB''),
     (''INVALID_STATE_TRANSITION'', ''This state transition is not allowed.''),
     (''REPORT_NOT_EDITABLE'', ''A submitted report cannot be edited''),
     (''REPORT_NOT_DELETABLE'', ''A submitted report cannot be deleted''),
     (''EMPTY_REPORT_SUBMISSION'', ''Add at least one item before submitting''),
     (''NO_APPROVER_IN_TENANT'', ''No approver is registered, so the report cannot be submitted''),
     (''INVALID_PERIOD'', ''The start date must not be after the end date''),
     (''INVALID_AMOUNT'', ''The amount must be a positive integer''),
     (''INVALID_FILE_TYPE'', ''Only JPEG, PNG and PDF can be uploaded''),
     (''MISSING_REJECTION_REASON'', ''Enter the reason of the rejection''),
     (''RATE_LIMIT_EXCEEDED'', ''Wait a while and try again''),
     (''INTERNAL_ERROR'', ''Communication with the server failed. Try again later.'')]"

definition ERROR_CODES :: "string list" where
  "ERROR_CODES =
    [''BAD_REQUEST'', ''VALIDATION_ERROR'', ''UNAUTHORIZED'', ''INVALID_CREDENTIALS'',
     ''INVALID_TOKEN'', ''TOKEN_EXPIRED'', ''FORBIDDEN'', ''SELF_APPROVAL_NOT_ALLOWED'',
     ''SELF_PAYMENT_NOT_ALLOWED'', ''RESOURCE_NOT_FOUND'', ''CONFLICT'', ''FILE_TOO_LARGE'',
     ''INVALID_STATE_TRANSITION'', ''REPORT_NOT_EDITABLE'', ''REPORT_NOT_DELETABLE'',
     ''EMPTY_REPORT_SUBMISSION'', ''NO_APPROVER_IN_TENANT'', ''INVALID_PERIOD'',
     ''INVALID_AMOUNT'', ''INVALID_FILE_TYPE'', ''MISSING_REJECTION_REASON'',
     ''RATE_LIMIT_EXCEEDED'', ''INTERNAL_ERROR'']"

definition server_message :: "string \<Rightarrow> string option" where
  "server_message code = map_of SERVER_ERROR_MESSAGES code"

abbreviation "msg_internal_error \<equiv> ''Communication with the server failed. Try again later.''"
abbreviation "msg_validation_error \<equiv> ''The input has errors. Check each field.''"
abbreviation "msg_conflict \<equiv> ''Another user has updated this report. Reload the page.''"

definition inferCodeFromStatus :: "nat \<Rightarrow> string" where
  "inferCodeFromStatus status =
     (if status \<in> {500, 502, 503, 504} then ''INTERNAL_ERROR''
      else if status = 429 then ''RATE_LIMIT_EXCEEDED''
      else if status = 404 then ''RESOURCE_NOT_FOUND''
      else if status = 403 then ''FORBIDDEN''
      else if status = 409 then ''CONFLICT''
      else if status = 422 then ''VALIDATION_ERROR''
      else ''INTERNAL_ERROR'')"

lemma server_message_constants [simp]:
  "server_message ''INTERNAL_ERROR'' = Some msg_internal_error"
  "server_message ''VALIDATION_ERROR'' = Some msg_validation_error"
  "server_message ''CONFLICT'' = Some msg_conflict"
  by (simp_all add: server_message_def SERVER_ERROR_MESSAGES_def)

lemma server_message_Some_iff: "(\<exists>m. server_message c = Some m) \<longleftrightarrow> c \<in> set ERROR_CODES"
  by (simp add: server_message_def SERVER_ERROR_MESSAGES_def ERROR_CODES_def disj_assoc)

lemma inferred_code_known: "inferCodeFromStatus status \<in> set ERROR_CODES"
  by (simp add: inferCodeFromStatus_def ERROR_CODES_def)

lemma server_message_nonempty: "server_message c = Some m \<Longrightarrow> m \<noteq> []"
  by (auto simp: server_message_def SERVER_ERROR_MESSAGES_def split: if_splits)

end
