(* ===== verification/Auth_Store.thy ===== *)
theory Auth_Store
  imports Prelude
begin

text \<open>
  The token store (frontend/src/stores/auth.ts): two tokens cached in memory and written through to
  \<open>sessionStorage\<close>. The storage may refuse any of its operations (private mode, quota); the
  \<open>safe\<close> wrappers swallow the exception. A token is a \<open>jsval\<close>, since the refresh response is only
  cast, not checked: \<open>null\<close> is no token, and \<open>setItem\<close> stores the string form of its argument.
  Reloading the page evaluates the module again on the storage of the tab.
\<close>

record session_storage =
  st_items :: "string \<rightharpoonup> string"
  st_get_ok :: bool
  st_set_ok :: bool
  st_remove_ok :: bool

abbreviation "security_error \<equiv> OtherError ''SecurityError'' ''The operation is insecure''"

definition storage_getItem :: "session_storage \<Rightarrow> string \<Rightarrow> js_error + jsval" where
  "storage_getItem st k =
     (if st_get_ok st
      then Inr (case st_items st k of None \<Rightarrow> JNull | Some v \<Rightarrow> JStr v)
      else Inl security_error)"

definition storage_setItem :: "session_storage \<Rightarrow> string \<Rightarrow> jsval \<Rightarrow> js_error + session_storage" where
  "storage_setItem st k v =
     (if st_set_ok st then Inr (st\<lparr>st_items := (st_items st)(k \<mapsto> js_to_string v)\<rparr>)
      else Inl security_error)"

definition storage_removeItem :: "session_storage \<Rightarrow> string \<Rightarrow> js_error + session_storage" where
  "storage_removeItem st k =
     (if st_remove_ok st then Inr (st\<lparr>st_items := (st_items st)(k := None)\<rparr>)
      else Inl security_error)"

record auth_store =
  accessToken :: jsval
  refreshToken :: jsval
  storage :: session_storage

definition KEY_ACCESS_TOKEN :: string where "KEY_ACCESS_TOKEN = ''auth.access_token''"
definition KEY_REFRESH_TOKEN :: string where "KEY_REFRESH_TOKEN = ''auth.refresh_token''"

definition safeGetItem :: "session_storage \<Rightarrow> string \<Rightarrow> jsval" where
  "safeGetItem st k = (case storage_getItem st k of Inl _ \<Rightarrow> JNull | Inr v \<Rightarrow> v)"

definition safeSetItem :: "session_storage \<Rightarrow> string \<Rightarrow> jsval \<Rightarrow> session_storage" where
  "safeSetItem st k v = (case storage_setItem st k v of Inl _ \<Rightarrow> st | Inr st' \<Rightarrow> st')"

definition safeRemoveItem :: "session_storage \<Rightarrow> string \<Rightarrow> session_storage" where
  "safeRemoveItem st k = (case storage_removeItem st k of Inl _ \<Rightarrow> st | Inr st' \<Rightarrow> st')"

definition load_auth :: "session_storage \<Rightarrow> auth_store" where
  \<comment> \<open>evaluation of the module: both tokens are restored from the storage\<close>
  "load_auth st =
     \<lparr>accessToken = safeGetItem st KEY_ACCESS_TOKEN,
      refreshToken = safeGetItem st KEY_REFRESH_TOKEN,
      storage = st\<rparr>"

definition getAccessToken :: "auth_store \<Rightarrow> jsval" where
  "getAccessToken a = accessToken a"

definition getRefreshToken :: "auth_store \<Rightarrow> jsval" where
  "getRefreshToken a = refreshToken a"

definition setTokens :: "jsval \<Rightarrow> jsval \<Rightarrow> auth_store \<Rightarrow> auth_store" where
  "setTokens acc ref a =
     (let a1 = a\<lparr>accessToken := acc, refreshToken := ref\<rparr>;
          st1 = safeSetItem (storage a1) KEY_ACCESS_TOKEN acc;
          st2 = safeSetItem st1 KEY_REFRESH_TOKEN ref
      in a1\<lparr>storage := st2\<rparr>)"

definition clearTokens :: "auth_store \<Rightarrow> auth_store" where
  "clearTokens a =
     (let a1 = a\<lparr>accessToken := JNull, refreshToken := JNull\<rparr>;
          st1 = safeRemoveItem (storage a1) KEY_ACCESS_TOKEN;
          st2 = safeRemoveItem st1 KEY_REFRESH_TOKEN
      in a1\<lparr>storage := st2\<rparr>)"

definition useAuth :: "auth_store \<Rightarrow> bool" where
  \<comment> \<open>\<open>isAuthenticated\<close> of frontend/src/hooks/useAuth.ts\<close>
  "useAuth a \<longleftrightarrow> getAccessToken a \<noteq> JNull"

subsection \<open>The contract of a token store\<close>

locale token_store =
  fixes get_access :: "'s \<Rightarrow> jsval" and get_refresh :: "'s \<Rightarrow> jsval"
    and set_both :: "jsval \<Rightarrow> jsval \<Rightarrow> 's \<Rightarrow> 's" and clear :: "'s \<Rightarrow> 's"
  assumes access_set: "get_access (set_both x y s) = x"
    and refresh_set: "get_refresh (set_both x y s) = y"
    and access_clear: "get_access (clear s) = JNull"
    and refresh_clear: "get_refresh (clear s) = JNull"
begin

lemma last_write_wins:
  "get_access (set_both x y (set_both x' y' s)) = x"
  "get_refresh (set_both x y (set_both x' y' s)) = y"
  "get_refresh (set_both x y (clear s)) = y"
  by (simp_all add: access_set refresh_set)

lemma clear_not_truthy: "\<not> js_truthy (get_access (clear s))" "\<not> js_truthy (get_refresh (clear s))"
  by (simp_all add: access_clear refresh_clear)

end

text \<open>A store that survives a reload while its backing storage works.\<close>

locale reloadable_store = token_store get_access get_refresh set_both clear
  for get_access :: "'s \<Rightarrow> jsval" and get_refresh :: "'s \<Rightarrow> jsval"
    and set_both :: "jsval \<Rightarrow> jsval \<Rightarrow> 's \<Rightarrow> 's" and clear :: "'s \<Rightarrow> 's" +
  fixes reload :: "'s \<Rightarrow> 's" and working :: "'s \<Rightarrow> bool"
  assumes working_set: "working s \<Longrightarrow> working (set_both v w s)"
    and working_clear: "working s \<Longrightarrow> working (clear s)"
    and reload_set: "working s \<Longrightarrow> reload (set_both (JStr x) (JStr y) s) = set_both (JStr x) (JStr y) s"
    and reload_clear: "working s \<Longrightarrow> reload (clear s) = clear s"
begin

lemma reload_access_set:
  "working s \<Longrightarrow> get_access (reload (set_both (JStr x) (JStr y) s)) = JStr x"
  "working s \<Longrightarrow> get_refresh (reload (set_both (JStr x) (JStr y) s)) = JStr y"
  by (simp_all add: reload_set access_set refresh_set)

lemma reload_access_clear: "working s \<Longrightarrow> get_access (reload (clear s)) = JNull"
  by (simp add: reload_clear access_clear)

end

definition reload_auth :: "auth_store \<Rightarrow> auth_store" where
  "reload_auth a = load_auth (storage a)"

definition storage_works :: "auth_store \<Rightarrow> bool" where
  "storage_works a \<longleftrightarrow> st_get_ok (storage a) \<and> st_set_ok (storage a) \<and> st_remove_ok (storage a)"

lemmas store_defs = getAccessToken_def getRefreshToken_def setTokens_def clearTokens_def Let_def
  safeSetItem_def safeRemoveItem_def safeGetItem_def storage_getItem_def storage_setItem_def
  storage_removeItem_def reload_auth_def load_auth_def storage_works_def
  KEY_ACCESS_TOKEN_def KEY_REFRESH_TOKEN_def

interpretation ts: token_store getAccessToken getRefreshToken setTokens clearTokens
  by unfold_locales (simp_all add: store_defs)

interpretation rs: reloadable_store getAccessToken getRefreshToken setTokens clearTokens
  reload_auth storage_works
  by unfold_locales (simp_all add: store_defs)

lemmas store_laws [simp] = ts.access_set ts.refresh_set ts.access_clear ts.refresh_clear

subsection \<open>Memory mirrors the storage\<close>

text \<open>What a run of the client does to the store: log in or refresh (set) and log out (clear).\<close>

datatype auth_op = SetOp string string | ClearOp

fun apply_auth_op :: "auth_store \<Rightarrow> auth_op \<Rightarrow> auth_store" where
  "apply_auth_op a (SetOp x y) = setTokens (JStr x) (JStr y) a"
| "apply_auth_op a ClearOp = clearTokens a"

definition mirrors :: "auth_store \<Rightarrow> bool" where
  "mirrors a \<longleftrightarrow> storage_works a \<and> reload_auth a = a"

lemma mirrors_load: "st_get_ok st \<and> st_set_ok st \<and> st_remove_ok st \<Longrightarrow> mirrors (load_auth st)"
  by (simp add: mirrors_def store_defs)

lemma mirrors_op: "mirrors a \<Longrightarrow> mirrors (apply_auth_op a opn)"
  by (cases opn)
    (auto simp: mirrors_def rs.reload_set rs.reload_clear rs.working_set rs.working_clear)

lemma mirrors_ops: "mirrors a \<Longrightarrow> mirrors (foldl apply_auth_op a ops)"
  by (induction ops arbitrary: a) (auto intro: mirrors_op)

text \<open>
  C40. However the session logged in, refreshed and logged out on a working storage, reloading the
  page (evaluating the module again on the tab's storage) gives back exactly the store it had, so
  the login state is the same after F5.
\<close>

theorem reload_preserves_session:
  assumes "st_get_ok st" "st_set_ok st" "st_remove_ok st"
    and "a = foldl apply_auth_op (load_auth st) ops"
  shows "reload_auth a = a \<and> useAuth (reload_auth a) = useAuth a"
proof -
  have "mirrors a" using assms by (auto intro: mirrors_ops mirrors_load)
  then show ?thesis by (simp add: mirrors_def)
qed

theorem reload_preserves_session_witness:
  "\<exists>a st. st_get_ok st \<and> a = foldl apply_auth_op (load_auth st)
      [SetOp ''a'' ''r'', ClearOp, SetOp ''a2'' ''r2''] \<and> reload_auth a = a \<and> useAuth a"
proof -
  let ?st = "\<lparr>st_items = Map.empty, st_get_ok = True, st_set_ok = True, st_remove_ok = True\<rparr>"
  let ?ops = "[SetOp ''a'' ''r'', ClearOp, SetOp ''a2'' ''r2'']"
  let ?a = "foldl apply_auth_op (load_auth ?st) ?ops"
  have "reload_auth ?a = ?a \<and> useAuth (reload_auth ?a) = useAuth ?a"
    by (rule reload_preserves_session [of ?st ?a ?ops]) simp_all
  moreover have "useAuth (foldl apply_auth_op (load_auth ?st) ?ops)"
    by (simp add: useAuth_def)
  ultimately show ?thesis by (intro exI [of _ ?a] exI [of _ ?st]) simp
qed

text \<open>
  The store never depends on the storage while the page lives: whatever operations the storage
  refuses, a logout leaves no token in memory and the user unauthenticated, a login leaves exactly
  the new pair in memory, and neither changes which operations the storage allows.
\<close>

theorem memory_tokens_independent_of_storage:
  "getAccessToken (clearTokens a) = JNull \<and> getRefreshToken (clearTokens a) = JNull \<and>
   \<not> useAuth (clearTokens a) \<and>
   getAccessToken (setTokens x y a) = x \<and> getRefreshToken (setTokens x y a) = y \<and>
   (storage_works (setTokens x y a) \<longleftrightarrow> storage_works a) \<and>
   (\<not> st_set_ok (storage a) \<longrightarrow> storage (setTokens x y a) = storage a) \<and>
   (\<not> st_remove_ok (storage a) \<longrightarrow> storage (clearTokens a) = storage a)"
  by (simp add: useAuth_def) (simp add: store_defs)

theorem memory_tokens_independent_of_storage_witness:
  "storage (setTokens (JStr ''a'') (JStr ''r'')
     (load_auth \<lparr>st_items = Map.empty, st_get_ok = False, st_set_ok = False, st_remove_ok = False\<rparr>))
   = \<lparr>st_items = Map.empty, st_get_ok = False, st_set_ok = False, st_remove_ok = False\<rparr>"
  using memory_tokens_independent_of_storage
    [of "load_auth \<lparr>st_items = Map.empty, st_get_ok = False, st_set_ok = False, st_remove_ok = False\<rparr>"
        "JStr ''a''" "JStr ''r''"]
  by (simp add: load_auth_def)

end
