(* ===== verification/Api_Client.thy ===== *)
theory Api_Client
  imports Api_Types Error_Messages Auth_Store "HOL-Library.AList"
begin

text \<open>
  The HTTP client (frontend/src/api/client.ts) for one call that runs alone: the request it builds,
  the treatment of a 401 (refresh once, then retry once), and the mapping of error responses to
  \<open>ApiClientError\<close>. The browser's \<open>fetch\<close> is a parameter: a function from the request and a
  state of the network to an outcome and the next state. Every request sent is logged. The theory
  \<open>Refresh_Flight\<close> runs several calls concurrently over the same segments.
\<close>

subsection \<open>Requests and responses\<close>

datatype body = JsonBody jsval | FormBody "(string \<times> upload_file) list"

record request =
  rq_path :: string
  rq_method :: string
  rq_headers :: "(string \<times> string) list"
  rq_body :: "body option"
  rq_signal :: "nat option"

record response =
  rs_code :: nat
  rs_json :: "js_error + jsval"
  rs_content_length :: "string option"

datatype fetch_outcome = Resp response | Failed js_error

type_synonym 'n fetch = "request \<Rightarrow> 'n \<Rightarrow> fetch_outcome \<times> 'n"

definition rs_ok :: "response \<Rightarrow> bool" where
  "rs_ok r \<longleftrightarrow> 200 \<le> rs_code r \<and> rs_code r \<le> 299"

record init =
  in_method :: string
  in_headers :: "(string \<times> string) list"
  in_body :: "body option"
  in_signal :: "nat option"

record 'n client =
  auth :: auth_store
  href :: "string list"
  net :: 'n
  sent :: "request list"

definition redirect_login :: "'n client \<Rightarrow> 'n client" where
  \<comment> \<open>\<open>window.location.href = '/login'\<close>\<close>
  "redirect_login w = w\<lparr>href := href w @ [''/login'']\<rparr>"

definition send :: "'n fetch \<Rightarrow> request \<Rightarrow> 'n client \<Rightarrow> fetch_outcome \<times> 'n client" where
  "send fetch rq w =
     (case fetch rq (net w) of (o', n') \<Rightarrow> (o', w\<lparr>net := n', sent := sent w @ [rq]\<rparr>))"

subsection \<open>Refreshing the tokens\<close>

definition refresh_request :: "jsval \<Rightarrow> request" where
  "refresh_request rt =
     \<lparr>rq_path = ''/api/auth/refresh'', rq_method = ''POST'',
      rq_headers = [(''Content-Type'', ''application/json'')],
      rq_body = Some (JsonBody (JObj [(''refresh_token'', rt)])), rq_signal = None\<rparr>"

definition give_up :: "auth_store \<times> string list \<Rightarrow> auth_store \<times> string list" where
  \<comment> \<open>\<open>clearTokens(); window.location.href = '/login'\<close>\<close>
  "give_up x = (clearTokens (fst x), snd x @ [''/login''])"

definition refreshed_tokens :: "response \<Rightarrow> js_error + jsval \<times> jsval" where
  \<comment> \<open>\<open>body = await res.json()\<close>, then the two members of \<open>body.data\<close>\<close>
  "refreshed_tokens r =
     (case rs_json r of Inl e \<Rightarrow> Inl e
      | Inr b \<Rightarrow>
        (case js_path b [''data'', ''access_token''] of Inl e \<Rightarrow> Inl e
         | Inr x \<Rightarrow>
           (case js_path b [''data'', ''refresh_token''] of Inl e \<Rightarrow> Inl e
            | Inr y \<Rightarrow> Inr (x, y))))"

definition doRefresh_finish ::
  "fetch_outcome \<Rightarrow> auth_store \<times> string list \<Rightarrow> bool \<times> auth_store \<times> string list" where
  \<comment> \<open>\<open>doRefresh\<close> from the settled fetch on\<close>
  "doRefresh_finish out x =
     (case out of
        Failed e \<Rightarrow> (False, give_up x)
      | Resp r \<Rightarrow>
        if \<not> rs_ok r then (False, give_up x)
        else (case refreshed_tokens r of
                Inl e \<Rightarrow> (False, give_up x)
              | Inr (acc, ref) \<Rightarrow> (True, setTokens acc ref (fst x), snd x)))"

definition doRefresh :: "'n fetch \<Rightarrow> 'n client \<Rightarrow> bool \<times> 'n client" where
  "doRefresh fetch w =
     (let rt = getRefreshToken (auth w) in
      if \<not> js_truthy rt then
        (case give_up (auth w, href w) of (a, h) \<Rightarrow> (False, w\<lparr>auth := a, href := h\<rparr>))
      else
        (case send fetch (refresh_request rt) w of (out, w1) \<Rightarrow>
           (case doRefresh_finish out (auth w1, href w1) of (ok, a, h) \<Rightarrow>
              (ok, w1\<lparr>auth := a, href := h\<rparr>))))"

subsection \<open>Error responses\<close>

definition error_fields :: "response \<Rightarrow> js_error + jsval \<times> jsval \<times> jsval" where
  \<comment> \<open>\<open>body.error.code\<close>, \<open>body.error.message\<close>, \<open>body.error.details\<close>\<close>
  "error_fields r =
     (case rs_json r of Inl e \<Rightarrow> Inl e
      | Inr b \<Rightarrow>
        (case js_path b [''error'', ''code''] of Inl e \<Rightarrow> Inl e
         | Inr c \<Rightarrow>
           (case js_path b [''error'', ''message''] of Inl e \<Rightarrow> Inl e
            | Inr m \<Rightarrow>
              (case js_path b [''error'', ''details''] of Inl e \<Rightarrow> Inl e
               | Inr d \<Rightarrow> Inr (c, m, d)))))"

definition error_text :: "jsval \<Rightarrow> jsval \<Rightarrow> string" where
  \<comment> \<open>the wording rule: the server's message for VALIDATION_ERROR, the table for the rest\<close>
  "error_text code serverMessage =
     (if code = JStr ''VALIDATION_ERROR''
      then (if nullish serverMessage then msg_validation_error else js_to_string serverMessage)
      else (case server_message (js_to_string code) of
              Some m \<Rightarrow> m | None \<Rightarrow> msg_internal_error))"

definition handleErrorResponse :: "response \<Rightarrow> js_error" where
  \<comment> \<open>the error it throws\<close>
  "handleErrorResponse r =
     (case error_fields r of
        Inr (c, m, d) \<Rightarrow> ApiClientError (error_text c m) (rs_code r) c d
      | Inl _ \<Rightarrow>
          (let c = JStr (inferCodeFromStatus (rs_code r))
           in ApiClientError (error_text c Undefined) (rs_code r) c Undefined))"

abbreviation "unauthorized_error \<equiv>
  ApiClientError ''Unauthorized'' 401 (JStr ''UNAUTHORIZED'') Undefined"

subsection \<open>A call\<close>

definition base_headers :: "init \<Rightarrow> (string \<times> string) list" where
  "base_headers i =
     (case in_body i of Some (FormBody _) \<Rightarrow> []
      | _ \<Rightarrow> [(''Content-Type'', ''application/json'')])"

definition bearer :: "jsval \<Rightarrow> (string \<times> string) list \<Rightarrow> (string \<times> string) list" where
  "bearer tok hs =
     (if js_truthy tok then AList.update ''Authorization'' (''Bearer '' @ js_to_string tok) hs else hs)"

definition mk_request :: "string \<Rightarrow> init \<Rightarrow> (string \<times> string) list \<Rightarrow> request" where
  \<comment> \<open>\<open>{...init, headers: {...headers, ...init.headers}}\<close>\<close>
  "mk_request path i hs =
     \<lparr>rq_path = path, rq_method = in_method i, rq_headers = AList.updates
        (map fst (in_headers i)) (map snd (in_headers i)) hs,
      rq_body = in_body i, rq_signal = in_signal i\<rparr>"

definition isAuthEndpoint :: "string \<Rightarrow> bool" where
  "isAuthEndpoint path \<longleftrightarrow> path = ''/api/auth/login'' \<or> path = ''/api/auth/refresh''"

definition finish :: "response \<Rightarrow> js_error + jsval" where
  \<comment> \<open>the common end of both attempts\<close>
  "finish r =
     (if \<not> rs_ok r then Inl (handleErrorResponse r)
      else if rs_code r = 204 \<or> rs_content_length r = Some ''0'' then Inr Undefined
      else rs_json r)"

datatype first_result = Finished "js_error + jsval" | NeedsRefresh

definition after_first :: "string \<Rightarrow> fetch_outcome \<Rightarrow> first_result" where
  \<comment> \<open>the call from the first settled fetch to its end or to the refresh\<close>
  "after_first path out =
     (case out of
        Failed e \<Rightarrow> Finished (Inl e)
      | Resp r \<Rightarrow>
        if rs_code r = 401 then
          (if isAuthEndpoint path then Finished (Inl (handleErrorResponse r)) else NeedsRefresh)
        else Finished (finish r))"

definition after_retry :: "fetch_outcome \<Rightarrow> js_error + jsval" where
  "after_retry out = (case out of Failed e \<Rightarrow> Inl e | Resp r \<Rightarrow> finish r)"

definition first_request :: "string \<Rightarrow> init \<Rightarrow> auth_store \<Rightarrow> request" where
  "first_request path i a = mk_request path i (bearer (getAccessToken a) (base_headers i))"

definition retry_request :: "string \<Rightarrow> init \<Rightarrow> (string \<times> string) list \<Rightarrow> auth_store \<Rightarrow> request" where
  "retry_request path i hs a = mk_request path i (bearer (getAccessToken a) hs)"

definition apiClient ::
  "'n fetch \<Rightarrow> string \<Rightarrow> init \<Rightarrow> 'n client \<Rightarrow> (js_error + jsval) \<times> 'n client" where
  "apiClient fetch path i w =
     (let hs = bearer (getAccessToken (auth w)) (base_headers i) in
      case send fetch (mk_request path i hs) w of (out, w1) \<Rightarrow>
        (case after_first path out of
           Finished res \<Rightarrow> (res, w1)
         | NeedsRefresh \<Rightarrow>
             (case doRefresh fetch w1 of (refreshed, w2) \<Rightarrow>
                if \<not> refreshed then (Inl unauthorized_error, w2)
                else (case send fetch (retry_request path i hs (auth w2)) w2 of (out2, w3) \<Rightarrow>
                        (after_retry out2, w3)))))"

definition json_body :: "jsval \<Rightarrow> body option" where
  \<comment> \<open>\<open>body ? JSON.stringify(body) : undefined\<close>\<close>
  "json_body v = (if js_truthy v then Some (JsonBody v) else None)"

datatype payload = PlainPayload jsval | FormPayload "(string \<times> upload_file) list"

definition payload_body :: "payload \<Rightarrow> body option" where
  "payload_body p = (case p of FormPayload fs \<Rightarrow> Some (FormBody fs) | PlainPayload v \<Rightarrow> json_body v)"

definition api_get_init :: "nat option \<Rightarrow> init" where
  "api_get_init sig = \<lparr>in_method = ''GET'', in_headers = [], in_body = None, in_signal = sig\<rparr>"

definition api_post_init :: "payload \<Rightarrow> nat option \<Rightarrow> init" where
  "api_post_init p sig =
     \<lparr>in_method = ''POST'', in_headers = [], in_body = payload_body p, in_signal = sig\<rparr>"

definition api_put_init :: "payload \<Rightarrow> nat option \<Rightarrow> init" where
  "api_put_init p sig =
     \<lparr>in_method = ''PUT'', in_headers = [], in_body = payload_body p, in_signal = sig\<rparr>"

definition api_delete_init :: "nat option \<Rightarrow> init" where
  "api_delete_init sig = \<lparr>in_method = ''DELETE'', in_headers = [], in_body = None, in_signal = sig\<rparr>"

subsection \<open>Headers\<close>

lemma map_of_bearer:
  "js_truthy tok \<Longrightarrow> map_of (bearer tok hs) ''Authorization'' = Some (''Bearer '' @ js_to_string tok)"
  by (simp add: bearer_def update_conv)

lemma bearer_other: "k \<noteq> ''Authorization'' \<Longrightarrow> map_of (bearer tok hs) k = map_of hs k"
  by (simp add: bearer_def update_conv)

lemma bearer_none: "\<not> js_truthy tok \<Longrightarrow> bearer tok hs = hs"
  by (simp add: bearer_def)

context token_store
begin

lemma bearer_after_set:
  "x \<noteq> [] \<Longrightarrow>
   map_of (bearer (get_access (set_both (JStr x) y s)) hs) ''Authorization'' = Some (''Bearer '' @ x)"
  by (simp add: access_set map_of_bearer)

lemma bearer_after_clear: "bearer (get_access (clear s)) hs = hs"
  by (simp add: access_clear bearer_none)

end

subsection \<open>Refresh\<close>

lemma send_simps [simp]:
  "auth (snd (send fetch rq w)) = auth w"
  "href (snd (send fetch rq w)) = href w"
  "sent (snd (send fetch rq w)) = sent w @ [rq]"
  by (simp_all add: send_def split: prod.split)

lemma give_up_simps [simp]:
  "fst (give_up x) = clearTokens (fst x)" "snd (give_up x) = snd x @ [''/login'']"
  by (simp_all add: give_up_def)

lemma doRefresh_finish_False:
  "doRefresh_finish out x = (False, y) \<Longrightarrow> y = give_up x"
  by (auto simp: doRefresh_finish_def split: fetch_outcome.splits sum.splits if_splits)

lemma doRefresh_finish_True:
  "doRefresh_finish out x = (True, y) \<Longrightarrow>
   \<exists>r acc ref. out = Resp r \<and> rs_ok r \<and> refreshed_tokens r = Inr (acc, ref) \<and>
     y = (setTokens acc ref (fst x), snd x)"
  by (auto simp: doRefresh_finish_def split: fetch_outcome.splits sum.splits if_splits)

lemma doRefresh_sent:
  "\<exists>rs. sent (snd (doRefresh fetch w)) = sent w @ rs \<and> set rs \<subseteq> {refresh_request (getRefreshToken (auth w))}
    \<and> length rs \<le> 1"
  by (auto simp: doRefresh_def Let_def send_def split: prod.splits)

lemma doRefresh_False:
  assumes "doRefresh fetch w = (False, w')"
  shows "auth w' = clearTokens (auth w) \<and> href w' = href w @ [''/login'']"
  using assms
  by (auto simp: doRefresh_def Let_def send_def give_up_def split: prod.splits if_splits
      dest!: doRefresh_finish_False)

lemma doRefresh_True:
  assumes "doRefresh fetch w = (True, w')"
  shows "\<exists>acc ref. auth w' = setTokens acc ref (auth w) \<and> href w' = href w
    \<and> sent w' = sent w @ [refresh_request (getRefreshToken (auth w))]
    \<and> js_truthy (getRefreshToken (auth w))"
  using assms
  by (fastforce simp: doRefresh_def Let_def send_def give_up_def split: prod.splits if_splits
      dest!: doRefresh_finish_True)

text \<open>A network that plays back a list of outcomes, and a logged-in client on it.\<close>

definition playback :: "fetch_outcome list fetch" where
  "playback rq n = (hd n, tl n)"

abbreviation "answer c v \<equiv> Resp \<lparr>rs_code = c, rs_json = Inr v, rs_content_length = None\<rparr>"

definition logged_in :: "fetch_outcome list \<Rightarrow> fetch_outcome list client" where
  "logged_in os = \<lparr>auth = setTokens (JStr ''old'') (JStr ''r0'') (load_auth
      \<lparr>st_items = Map.empty, st_get_ok = True, st_set_ok = True, st_remove_ok = True\<rparr>),
     href = [], net = os, sent = []\<rparr>"

abbreviation "new_tokens \<equiv> JObj [(''data'', JObj [(''access_token'', JStr ''new''),
    (''refresh_token'', JStr ''r1'')])]"

lemmas call_eval = apiClient_def playback_def logged_in_def send_def after_first_def doRefresh_def
  doRefresh_finish_def refreshed_tokens_def rs_ok_def isAuthEndpoint_def give_up_def
  after_retry_def finish_def first_request_def retry_request_def Let_def

subsection \<open>Properties of a call\<close>

lemma send_split: "send fetch rq w = (out, w1) \<Longrightarrow>
    auth w1 = auth w \<and> href w1 = href w \<and> sent w1 = sent w @ [rq]"
  by (metis send_simps snd_conv)

lemma refresh_request_path [simp]: "rq_path (refresh_request rt) = ''/api/auth/refresh''"
  by (simp add: refresh_request_def)

lemma mk_request_path [simp]: "rq_path (mk_request path i hs) = path"
  by (simp add: mk_request_def)

lemma retry_request_path [simp]: "rq_path (retry_request path i hs a) = path"
  by (simp add: retry_request_def)

text \<open>
  The three ways a call can go: it ends with the first response, it ends because the refresh
  failed, or it is retried once with the store the refresh left.
\<close>

lemma apiClient_cases:
  assumes "apiClient fetch path i w = (res, w')"
  obtains
    (direct) out w1 where "send fetch (first_request path i (auth w)) w = (out, w1)"
      "after_first path out = Finished res" "w' = w1"
  | (refresh_failed) out w1 where "send fetch (first_request path i (auth w)) w = (out, w1)"
      "after_first path out = NeedsRefresh" "doRefresh fetch w1 = (False, w')"
      "res = Inl unauthorized_error"
  | (retried) out w1 w2 out2 where "send fetch (first_request path i (auth w)) w = (out, w1)"
      "after_first path out = NeedsRefresh" "doRefresh fetch w1 = (True, w2)"
      "send fetch (retry_request path i (bearer (getAccessToken (auth w)) (base_headers i)) (auth w2)) w2
        = (out2, w')" "res = after_retry out2"
proof -
  obtain out w1 where s: "send fetch (first_request path i (auth w)) w = (out, w1)"
    by fastforce
  show ?thesis
  proof (cases "after_first path out")
    case (Finished r)
    with assms s direct show ?thesis
      by (simp add: apiClient_def Let_def first_request_def)
  next
    case NeedsRefresh
    obtain ok w2 where r: "doRefresh fetch w1 = (ok, w2)" by fastforce
    show ?thesis
    proof (cases ok)
      case True
      with assms s NeedsRefresh r retried show ?thesis
        by (auto simp: apiClient_def Let_def first_request_def split: prod.splits)
    next
      case False
      with assms s NeedsRefresh r refresh_failed show ?thesis
        by (auto simp: apiClient_def Let_def first_request_def split: prod.splits)
    qed
  qed
qed

lemma needs_refresh_iff:
  "after_first path out = NeedsRefresh \<longleftrightarrow>
     (\<exists>r. out = Resp r \<and> rs_code r = 401) \<and> \<not> isAuthEndpoint path"
  by (auto simp: after_first_def split: fetch_outcome.splits)

lemma call_requests:
  assumes "apiClient fetch path i w = (res, w')"
  shows "\<exists>rs. sent w' = sent w @ rs \<and> map rq_path rs \<in>
     {[path], [path, ''/api/auth/refresh''], [path, ''/api/auth/refresh'', path]}"
  using assms
proof (cases rule: apiClient_cases)
  case (direct out w1)
  then show ?thesis using send_split [OF direct(1)] by (auto simp: first_request_def)
next
  case (refresh_failed out w1)
  obtain rs where "sent w' = sent w1 @ rs" "set rs \<subseteq> {refresh_request (getRefreshToken (auth w1))}"
    "length rs \<le> 1"
    using doRefresh_sent [of fetch w1] refresh_failed(3) by auto
  then show ?thesis using send_split [OF refresh_failed(1)]
    by (cases rs) (auto simp: first_request_def)
next
  case (retried out w1 w2 out2)
  then show ?thesis
    using send_split [OF retried(1)] send_split [OF retried(4)] doRefresh_True [OF retried(3)]
    by (auto simp: first_request_def)
qed

text \<open>
  A call never loops on 401: besides the first request it sends at most the refresh and one
  retry, in this order, and the two requests for the path of the call are the only ones of it.
\<close>

theorem apiClient_at_most_one_retry:
  assumes "apiClient fetch path i w = (res, w')"
  shows "\<exists>rs. sent w' = sent w @ rs \<and> map rq_path rs \<in>
     {[path], [path, ''/api/auth/refresh''], [path, ''/api/auth/refresh'', path]}"
  by (rule call_requests [OF assms])

theorem apiClient_at_most_one_retry_witness:
  "case apiClient playback ''/api/reports'' (api_get_init None)
     (logged_in [answer 401 Undefined, answer 200 new_tokens, answer 200 (JNum 7)]) of
   (res, w') \<Rightarrow> res = Inr (JNum 7) \<and> (\<exists>rs. sent w' = [] @ rs \<and> map rq_path rs \<in>
     {[''/api/reports''], [''/api/reports'', ''/api/auth/refresh''],
      [''/api/reports'', ''/api/auth/refresh'', ''/api/reports'']})"
proof -
  let ?w = "logged_in [answer 401 Undefined, answer 200 new_tokens, answer 200 (JNum 7)]"
  obtain res w' where c: "apiClient playback ''/api/reports'' (api_get_init None) ?w = (res, w')"
    by fastforce
  from c have "res = Inr (JNum 7)" by (simp add: call_eval)
  moreover have "sent ?w = []" by (simp add: logged_in_def)
  ultimately show ?thesis using apiClient_at_most_one_retry [OF c] c by simp
qed

text \<open>
  The login and refresh endpoints never trigger a refresh: one request goes out, the stored
  tokens and the location stay as they are, and a 401 is reported to the caller as the mapped
  error.
\<close>

theorem apiClient_auth_endpoints_no_refresh:
  assumes "isAuthEndpoint path" and "apiClient fetch path i w = (res, w')"
  shows "sent w' = sent w @ [first_request path i (auth w)] \<and> auth w' = auth w \<and> href w' = href w \<and>
    (\<forall>r n. fetch (first_request path i (auth w)) (net w) = (Resp r, n) \<longrightarrow> rs_code r = 401 \<longrightarrow>
       res = Inl (handleErrorResponse r))"
  using assms(2)
proof (cases rule: apiClient_cases)
  case (direct out w1)
  then show ?thesis using assms(1) send_split [OF direct(1)]
    by (auto simp: after_first_def send_def split: prod.splits)
qed (simp_all add: needs_refresh_iff assms(1))

theorem apiClient_auth_endpoints_no_refresh_witness:
  "fst (apiClient playback ''/api/auth/login'' (api_post_init (PlainPayload (JObj [])) None)
     (logged_in [answer 401 Undefined])) =
   Inl (handleErrorResponse \<lparr>rs_code = 401, rs_json = Inr Undefined, rs_content_length = None\<rparr>)"
proof -
  let ?i = "api_post_init (PlainPayload (JObj [])) None" and ?w = "logged_in [answer 401 Undefined]"
  obtain res w' where c: "apiClient playback ''/api/auth/login'' ?i ?w = (res, w')" by fastforce
  have "isAuthEndpoint ''/api/auth/login''" by (simp add: isAuthEndpoint_def)
  from apiClient_auth_endpoints_no_refresh [OF this c] c show ?thesis
    by (simp add: playback_def logged_in_def)
qed

definition refresh_denied :: "jsval \<Rightarrow> fetch_outcome \<Rightarrow> bool" where
  \<comment> \<open>there is no refresh token, or its request failed, was refused, or brought no pair of tokens\<close>
  "refresh_denied rt out \<longleftrightarrow> \<not> js_truthy rt \<or>
     (case out of Failed e \<Rightarrow> True | Resp r \<Rightarrow> \<not> rs_ok r \<or> (\<exists>e. refreshed_tokens r = Inl e))"

lemma doRefresh_eq:
  "doRefresh fetch w =
     (let rt = getRefreshToken (auth w); (out, w1) = send fetch (refresh_request rt) w;
          w0 = if js_truthy rt then w1 else w
      in if refresh_denied rt out
         then (False, w0\<lparr>auth := clearTokens (auth w), href := href w @ [''/login'']\<rparr>)
         else (case refreshed_tokens (case out of Resp r \<Rightarrow> r) of
                 Inr (acc, ref) \<Rightarrow> (True, w1\<lparr>auth := setTokens acc ref (auth w)\<rparr>)))"
  by (auto simp: doRefresh_def refresh_denied_def doRefresh_finish_def give_up_def send_def Let_def
      split: prod.splits fetch_outcome.splits sum.splits)

text \<open>
  C18. The session ends exactly with a failed refresh. Only a 401 for a path other than the login and the
  refresh itself makes a call ask for new tokens; every other outcome of its request ends it with the
  tokens and the location as they were. Asking fails exactly when there is no refresh token (and then
  nothing is sent), or the refresh request fails, is answered by an error, or by a body without a pair
  of tokens. Then, and only then, the tokens are cleared, the browser is sent to /login, the caller gets
  the UNAUTHORIZED error and the request is not repeated. Otherwise the new pair is stored, the request is repeated
  once with the new access token, the answer to it is the result, and the browser stays where it is.
\<close>

theorem apiClient_session_end:
  assumes "apiClient fetch path i w = (res, w')"
    and "send fetch (first_request path i (auth w)) w = (out, w1)"
    and "send fetch (refresh_request (getRefreshToken (auth w))) w1 = (out', w2)"
  shows "if (\<exists>r. out = Resp r \<and> rs_code r = 401) \<and> \<not> isAuthEndpoint path
    then (if refresh_denied (getRefreshToken (auth w)) out'
      then res = Inl unauthorized_error \<and> href w' = href w @ [''/login''] \<and>
        auth w' = clearTokens (auth w) \<and> \<not> useAuth (auth w') \<and>
        sent w' = sent (if js_truthy (getRefreshToken (auth w)) then w2 else w1)
      else \<exists>r acc ref. out' = Resp r \<and> refreshed_tokens r = Inr (acc, ref) \<and>
        auth w' = setTokens acc ref (auth w) \<and> href w' = href w \<and>
        (let rq = retry_request path i (bearer (getAccessToken (auth w)) (base_headers i)) (auth w')
         in sent w' = sent w2 @ [rq] \<and> res = after_retry (fst (send fetch rq w2))))
    else w' = w1 \<and> after_first path out = Finished res \<and> href w' = href w \<and> auth w' = auth w"
proof -
  let ?hs = "bearer (getAccessToken (auth w)) (base_headers i)"
  note s1 = send_split [OF assms(2)] and s2 = send_split [OF assms(3)]
  have first: "send fetch (mk_request path i ?hs) w = (out, w1)"
    using assms(2) by (simp add: first_request_def)
  have call: "(res, w') = (case after_first path out of
      Finished res \<Rightarrow> (res, w1)
    | NeedsRefresh \<Rightarrow> (case doRefresh fetch w1 of (ok, v) \<Rightarrow>
        if \<not> ok then (Inl unauthorized_error, v)
        else (case send fetch (retry_request path i ?hs (auth v)) v of (out2, u) \<Rightarrow> (after_retry out2, u))))"
    using assms(1) by (simp add: apiClient_def Let_def first)
  show ?thesis
  proof (cases "after_first path out")
    case (Finished r)
    then have "\<not> ((\<exists>r. out = Resp r \<and> rs_code r = 401) \<and> \<not> isAuthEndpoint path)"
      using needs_refresh_iff [of path out] by auto
    then show ?thesis using call Finished s1 by auto
  next
    case NeedsRefresh
    note needs = NeedsRefresh [unfolded needs_refresh_iff]
    show ?thesis
    proof (cases "refresh_denied (getRefreshToken (auth w)) out'")
      case True
      then show ?thesis using call NeedsRefresh needs s1 s2 assms(3)
        by (simp add: doRefresh_eq Let_def useAuth_def split: if_splits)
    next
      case False
      then obtain r acc ref where r: "out' = Resp r" "refreshed_tokens r = Inr (acc, ref)"
        by (auto simp: refresh_denied_def split: fetch_outcome.splits) (metis sum.exhaust surj_pair)
      then have "doRefresh fetch w1 = (True, w2\<lparr>auth := setTokens acc ref (auth w)\<rparr>)"
        using False s1 assms(3) by (simp add: doRefresh_eq Let_def)
      then show ?thesis using call NeedsRefresh needs False r s1 s2
        by (auto simp: send_def Let_def split: prod.splits)
    qed
  qed
qed

theorem apiClient_session_end_witness:
  "case apiClient playback ''/api/reports'' (api_get_init None)
     (logged_in [answer 401 Undefined, answer 401 Undefined]) of
   (res, w') \<Rightarrow> href w' = [''/login''] \<and> \<not> useAuth (auth w') \<and> res = Inl unauthorized_error"
proof -
  let ?w = "logged_in [answer 401 Undefined, answer 401 Undefined]"
  let ?i = "api_get_init None"
  obtain res w' where c: "apiClient playback ''/api/reports'' ?i ?w = (res, w')"
    by fastforce
  obtain out w1 where s1: "send playback (first_request ''/api/reports'' ?i (auth ?w)) ?w = (out, w1)" by fastforce
  obtain out' w2 where s2: "send playback (refresh_request (getRefreshToken (auth ?w))) w1 = (out', w2)" by fastforce
  have "out = answer 401 Undefined" "out' = answer 401 Undefined" "\<not> isAuthEndpoint ''/api/reports''" "href ?w = []"
    using s1 s2 by (auto simp: send_def playback_def logged_in_def isAuthEndpoint_def)
  then show ?thesis unfolding c prod.case using apiClient_session_end [OF c s1 s2]
    by (simp add: refresh_denied_def rs_ok_def useAuth_def)
qed

end
