(* ===== verification/Refresh_Flight.thy ===== *)
theory Refresh_Flight
  imports Api_Client
begin

text \<open>
  Concurrent calls of the HTTP client (frontend/src/api/client.ts, with login and logout from
  frontend/src/hooks/useLogin.ts and useLogout.ts). JavaScript runs one segment between two awaits
  at a time, so a step is one such segment: a call starts, its response arrives, the pending
  refresh settles, \<open>refreshAccessToken\<close> returns to its caller, the caller goes on. The module
  variable \<open>refreshPromise\<close> is an index into the promises \<open>doRefresh\<close> made so far. Reading the
  refresh response (fetch and \<open>json\<close>) is one step, as nothing shared changes in between.
\<close>

subsection \<open>State\<close>

datatype call_pc =
    NotStarted
  | Fetching "(string \<times> string) list"
  | InRefresh nat bool "(string \<times> string) list"
  | AfterRefresh bool "(string \<times> string) list"
  | Retrying
  | Done "js_error + jsval"

datatype refresh_promise = Pending jsval | Settled bool

datatype origin = OfCall nat | OfRefresh nat

record flight =
  fl_store :: auth_store
  fl_href :: "string list"
  refreshPromise :: "nat option"
  promises :: "refresh_promise list"
  fl_pc :: "nat \<Rightarrow> call_pc"
  fl_log :: "(origin \<times> request) list"

type_synonym calls = "nat \<Rightarrow> string \<times> init"

datatype flight_label =
    Start nat
  | Respond nat fetch_outcome
  | RefreshSettles nat fetch_outcome
  | RefreshReturns nat
  | Continue nat
  | RetryResponds nat fetch_outcome
  | StoreLogin jsval jsval
  | StoreLogout

definition set_pc :: "nat \<Rightarrow> call_pc \<Rightarrow> flight \<Rightarrow> flight" where
  "set_pc c p s = s\<lparr>fl_pc := (fl_pc s)(c := p)\<rparr>"

definition log_request :: "origin \<Rightarrow> request \<Rightarrow> flight \<Rightarrow> flight" where
  "log_request org rq s = s\<lparr>fl_log := fl_log s @ [(org, rq)]\<rparr>"

subsection \<open>Segments\<close>

definition begin_refresh :: "flight \<Rightarrow> flight" where
  \<comment> \<open>\<open>refreshPromise = doRefresh()\<close>, up to its first await\<close>
  "begin_refresh s =
     (let rt = getRefreshToken (fl_store s); p = length (promises s) in
      if js_truthy rt
      then log_request (OfRefresh p) (refresh_request rt)
             (s\<lparr>refreshPromise := Some p, promises := promises s @ [Pending rt]\<rparr>)
      else (case give_up (fl_store s, fl_href s) of (a, h) \<Rightarrow>
             s\<lparr>fl_store := a, fl_href := h, refreshPromise := Some p,
               promises := promises s @ [Settled False]\<rparr>))"

definition refreshAccessToken :: "nat \<Rightarrow> (string \<times> string) list \<Rightarrow> flight \<Rightarrow> flight" where
  "refreshAccessToken c hs s =
     (case refreshPromise s of
        Some p \<Rightarrow> set_pc c (InRefresh p False hs) s
      | None \<Rightarrow> set_pc c (InRefresh (length (promises s)) True hs) (begin_refresh s))"

definition start_call :: "calls \<Rightarrow> nat \<Rightarrow> flight \<Rightarrow> flight" where
  "start_call calls c s =
     (case calls c of (path, i) \<Rightarrow>
        let hs = bearer (getAccessToken (fl_store s)) (base_headers i) in
        set_pc c (Fetching hs) (log_request (OfCall c) (mk_request path i hs) s))"

definition respond :: "calls \<Rightarrow> nat \<Rightarrow> (string \<times> string) list \<Rightarrow> fetch_outcome \<Rightarrow> flight \<Rightarrow> flight" where
  "respond calls c hs out s =
     (case after_first (fst (calls c)) out of
        Finished r \<Rightarrow> set_pc c (Done r) s
      | NeedsRefresh \<Rightarrow> refreshAccessToken c hs s)"

definition settle_refresh :: "nat \<Rightarrow> fetch_outcome \<Rightarrow> flight \<Rightarrow> flight" where
  "settle_refresh p out s =
     (case doRefresh_finish out (fl_store s, fl_href s) of (ok, a, h) \<Rightarrow>
        s\<lparr>fl_store := a, fl_href := h, promises := (promises s)[p := Settled ok]\<rparr>)"

definition refresh_returns ::
  "nat \<Rightarrow> bool \<Rightarrow> bool \<Rightarrow> (string \<times> string) list \<Rightarrow> flight \<Rightarrow> flight" where
  \<comment> \<open>the promise is settled with \<open>ok\<close>; the call that made it also runs the \<open>finally\<close> block\<close>
  "refresh_returns c ok owner hs s =
     (if owner then (set_pc c (AfterRefresh ok hs) s)\<lparr>refreshPromise := None\<rparr>
      else set_pc c (AfterRefresh ok hs) s)"

definition continue_call :: "calls \<Rightarrow> nat \<Rightarrow> bool \<Rightarrow> (string \<times> string) list \<Rightarrow> flight \<Rightarrow> flight" where
  "continue_call calls c ok hs s =
     (if \<not> ok then set_pc c (Done (Inl unauthorized_error)) s
      else (case calls c of (path, i) \<Rightarrow>
        set_pc c Retrying
          (log_request (OfCall c) (retry_request path i hs (fl_store s)) s)))"

subsection \<open>Steps\<close>

fun flight_next :: "calls \<Rightarrow> flight_label \<Rightarrow> flight \<Rightarrow> flight option" where
  "flight_next calls (Start c) s =
     (case fl_pc s c of NotStarted \<Rightarrow> Some (start_call calls c s) | _ \<Rightarrow> None)"
| "flight_next calls (Respond c out) s =
     (case fl_pc s c of Fetching hs \<Rightarrow> Some (respond calls c hs out s) | _ \<Rightarrow> None)"
| "flight_next calls (RefreshSettles p out) s =
     (if p < length (promises s)
      then (case promises s ! p of Pending _ \<Rightarrow> Some (settle_refresh p out s) | _ \<Rightarrow> None)
      else None)"
| "flight_next calls (RefreshReturns c) s =
     (case fl_pc s c of
        InRefresh p owner hs \<Rightarrow>
          (if p < length (promises s)
           then (case promises s ! p of
                   Settled ok \<Rightarrow> Some (refresh_returns c ok owner hs s) | _ \<Rightarrow> None)
           else None)
      | _ \<Rightarrow> None)"
| "flight_next calls (Continue c) s =
     (case fl_pc s c of AfterRefresh ok hs \<Rightarrow> Some (continue_call calls c ok hs s) | _ \<Rightarrow> None)"
| "flight_next calls (RetryResponds c out) s =
     (case fl_pc s c of Retrying \<Rightarrow> Some (set_pc c (Done (after_retry out)) s) | _ \<Rightarrow> None)"
| "flight_next calls (StoreLogin x y) s = Some (s\<lparr>fl_store := setTokens x y (fl_store s)\<rparr>)"
| "flight_next calls StoreLogout s = Some (s\<lparr>fl_store := clearTokens (fl_store s)\<rparr>)"

inductive flight_step :: "calls \<Rightarrow> (flight_label \<Rightarrow> flight \<Rightarrow> bool) \<Rightarrow> flight \<Rightarrow> flight \<Rightarrow> bool"
  for calls :: calls and allowed :: "flight_label \<Rightarrow> flight \<Rightarrow> bool" where
  flight_stepI:
    "allowed lab s \<Longrightarrow> flight_next calls lab s = Some t \<Longrightarrow> flight_step calls allowed s t"

inductive_cases flight_stepE: "flight_step calls allowed s t"

definition flight_init :: "flight \<Rightarrow> bool" where
  "flight_init s \<longleftrightarrow> refreshPromise s = None \<and> promises s = [] \<and> (\<forall>c. fl_pc s c = NotStarted) \<and>
     fl_log s = [] \<and> fl_href s = []"

fun flight_run :: "calls \<Rightarrow> flight_label list \<Rightarrow> flight \<Rightarrow> flight option" where
  "flight_run calls [] s = Some s"
| "flight_run calls (l # ls) s =
     (case flight_next calls l s of None \<Rightarrow> None | Some t \<Rightarrow> flight_run calls ls t)"

abbreviation any_step :: "flight_label \<Rightarrow> flight \<Rightarrow> bool" where
  "any_step \<equiv> \<lambda>_ _. True"

lemma flight_run_append:
  "flight_run calls (xs @ ys) s =
     (case flight_run calls xs s of None \<Rightarrow> None | Some t \<Rightarrow> flight_run calls ys t)"
  by (induction xs arbitrary: s) (auto split: option.splits)

lemma flight_run_reach:
  "reach flight_init (flight_step calls any_step) s \<Longrightarrow> flight_run calls ls s = Some t \<Longrightarrow>
   reach flight_init (flight_step calls any_step) t"
proof (induction ls arbitrary: s)
  case (Cons l ls)
  then obtain u where u: "flight_next calls l s = Some u" "flight_run calls ls u = Some t"
    by (auto split: option.splits)
  then have "flight_step calls any_step s u" by (auto intro: flight_stepI)
  then show ?case using Cons u by (blast intro: reach_step)
qed simp

lemma flight_next_cases:
  assumes "flight_next calls lab s = Some t"
  obtains
    (start) c where "lab = Start c" "fl_pc s c = NotStarted" "t = start_call calls c s"
  | (finished) c hs out r where "lab = Respond c out" "fl_pc s c = Fetching hs"
      "after_first (fst (calls c)) out = Finished r" "t = set_pc c (Done r) s"
  | (joins) c hs out p where "lab = Respond c out" "fl_pc s c = Fetching hs"
      "after_first (fst (calls c)) out = NeedsRefresh" "refreshPromise s = Some p"
      "t = set_pc c (InRefresh p False hs) s"
  | (owns) c hs out where "lab = Respond c out" "fl_pc s c = Fetching hs"
      "after_first (fst (calls c)) out = NeedsRefresh" "refreshPromise s = None"
      "t = set_pc c (InRefresh (length (promises s)) True hs) (begin_refresh s)"
  | (settles) p out rt where "lab = RefreshSettles p out" "p < length (promises s)"
      "promises s ! p = Pending rt" "t = settle_refresh p out s"
  | (returns) c p owner hs ok where "lab = RefreshReturns c" "fl_pc s c = InRefresh p owner hs"
      "p < length (promises s)" "promises s ! p = Settled ok" "t = refresh_returns c ok owner hs s"
  | (continue) c ok hs where "lab = Continue c" "fl_pc s c = AfterRefresh ok hs"
      "t = continue_call calls c ok hs s"
  | (retried) c out where "lab = RetryResponds c out" "fl_pc s c = Retrying"
      "t = set_pc c (Done (after_retry out)) s"
  | (login) x y where "lab = StoreLogin x y" "t = s\<lparr>fl_store := setTokens x y (fl_store s)\<rparr>"
  | (logout) "lab = StoreLogout" "t = s\<lparr>fl_store := clearTokens (fl_store s)\<rparr>"
  using assms
  by (cases lab)
    (auto split: call_pc.splits if_splits refresh_promise.splits first_result.splits option.splits
      simp: respond_def refreshAccessToken_def)

subsection \<open>What the segments change\<close>

lemma set_pc_simps [simp]:
  "fl_pc (set_pc c p s) = (fl_pc s)(c := p)" "fl_store (set_pc c p s) = fl_store s"
  "fl_href (set_pc c p s) = fl_href s" "refreshPromise (set_pc c p s) = refreshPromise s"
  "promises (set_pc c p s) = promises s" "fl_log (set_pc c p s) = fl_log s"
  by (simp_all add: set_pc_def)

lemma log_request_simps [simp]:
  "fl_pc (log_request org rq s) = fl_pc s" "fl_store (log_request org rq s) = fl_store s"
  "fl_href (log_request org rq s) = fl_href s"
  "refreshPromise (log_request org rq s) = refreshPromise s"
  "promises (log_request org rq s) = promises s"
  "fl_log (log_request org rq s) = fl_log s @ [(org, rq)]"
  by (simp_all add: log_request_def)

definition fresh_promise :: "flight \<Rightarrow> refresh_promise" where
  "fresh_promise s = (if js_truthy (getRefreshToken (fl_store s))
     then Pending (getRefreshToken (fl_store s)) else Settled False)"

lemma begin_refresh_simps [simp]:
  "fl_pc (begin_refresh s) = fl_pc s"
  "refreshPromise (begin_refresh s) = Some (length (promises s))"
  "promises (begin_refresh s) = promises s @ [fresh_promise s]"
  "fl_log (begin_refresh s) = fl_log s @
     (if js_truthy (getRefreshToken (fl_store s))
      then [(OfRefresh (length (promises s)), refresh_request (getRefreshToken (fl_store s)))] else [])"
  "fl_href (begin_refresh s) = fl_href s @ (if fresh_promise s = Settled False then [''/login''] else [])"
  "fl_store (begin_refresh s) = (if fresh_promise s = Settled False
     then clearTokens (fl_store s) else fl_store s)"
  by (simp_all add: begin_refresh_def Let_def give_up_def fresh_promise_def)

lemma start_call_simps [simp]:
  "fl_pc (start_call calls c s) = (fl_pc s)(c := Fetching
     (bearer (getAccessToken (fl_store s)) (base_headers (snd (calls c)))))"
  "refreshPromise (start_call calls c s) = refreshPromise s"
  "promises (start_call calls c s) = promises s"
  "fl_store (start_call calls c s) = fl_store s" "fl_href (start_call calls c s) = fl_href s"
  "fl_log (start_call calls c s) = fl_log s @
     [(OfCall c, first_request (fst (calls c)) (snd (calls c)) (fl_store s))]"
  by (simp_all add: start_call_def Let_def first_request_def split: prod.split)

definition settled_ok :: "fetch_outcome \<Rightarrow> flight \<Rightarrow> bool" where
  "settled_ok out s = fst (doRefresh_finish out (fl_store s, fl_href s))"

lemma settle_refresh_simps [simp]:
  "fl_pc (settle_refresh p out s) = fl_pc s"
  "refreshPromise (settle_refresh p out s) = refreshPromise s"
  "promises (settle_refresh p out s) = (promises s)[p := Settled (settled_ok out s)]"
  "fl_log (settle_refresh p out s) = fl_log s"
  "fl_store (settle_refresh p out s) =
     fst (snd (doRefresh_finish out (fl_store s, fl_href s)))"
  "fl_href (settle_refresh p out s) = fl_href s @ (if settled_ok out s then [] else [''/login''])"
  by (auto simp: settle_refresh_def settled_ok_def split: prod.splits
      dest!: doRefresh_finish_False doRefresh_finish_True) (metis give_up_simps(2) snd_conv)

lemma refresh_returns_simps [simp]:
  "fl_pc (refresh_returns c ok ow hs s) = (fl_pc s)(c := AfterRefresh ok hs)"
  "refreshPromise (refresh_returns c ok ow hs s) = (if ow then None else refreshPromise s)"
  "promises (refresh_returns c ok ow hs s) = promises s"
  "fl_store (refresh_returns c ok ow hs s) = fl_store s"
  "fl_href (refresh_returns c ok ow hs s) = fl_href s"
  "fl_log (refresh_returns c ok ow hs s) = fl_log s"
  by (simp_all add: refresh_returns_def)

lemma continue_call_simps [simp]:
  "fl_pc (continue_call calls c ok hs s) =
     (fl_pc s)(c := if ok then Retrying else Done (Inl unauthorized_error))"
  "refreshPromise (continue_call calls c ok hs s) = refreshPromise s"
  "promises (continue_call calls c ok hs s) = promises s"
  "fl_store (continue_call calls c ok hs s) = fl_store s"
  "fl_href (continue_call calls c ok hs s) = fl_href s"
  "fl_log (continue_call calls c ok hs s) = fl_log s @
     (if ok then [(OfCall c, retry_request (fst (calls c)) (snd (calls c)) hs (fl_store s))] else [])"
  by (simp_all add: continue_call_def split: prod.split)

subsection \<open>Invariants\<close>

text \<open>
  \<open>refreshPromise\<close> is set exactly while its owner waits in \<open>refreshAccessToken\<close>, and no other
  refresh is pending.
\<close>

definition owner_of :: "flight \<Rightarrow> nat \<Rightarrow> nat \<Rightarrow> bool" where
  "owner_of s c p \<longleftrightarrow> (\<exists>hs. fl_pc s c = InRefresh p True hs)"

definition single_flight :: "flight \<Rightarrow> bool" where
  "single_flight s \<longleftrightarrow>
     (\<forall>c p. owner_of s c p \<longrightarrow> refreshPromise s = Some p) \<and>
     (\<forall>p rt. p < length (promises s) \<longrightarrow> promises s ! p = Pending rt \<longrightarrow> refreshPromise s = Some p) \<and>
     (\<forall>p. refreshPromise s = Some p \<longrightarrow> (\<exists>c. owner_of s c p)) \<and>
     (\<forall>c d p. owner_of s c p \<longrightarrow> owner_of s d p \<longrightarrow> c = d) \<and>
     (\<forall>c p ow hs. fl_pc s c = InRefresh p ow hs \<longrightarrow> p < length (promises s))"

lemma single_flightD:
  assumes "single_flight s"
  shows "owner_of s c p \<Longrightarrow> refreshPromise s = Some p"
    "p < length (promises s) \<Longrightarrow> promises s ! p = Pending rt \<Longrightarrow> refreshPromise s = Some p"
    "refreshPromise s = Some p \<Longrightarrow> \<exists>c. owner_of s c p"
    "owner_of s c p \<Longrightarrow> owner_of s d p \<Longrightarrow> c = d"
    "fl_pc s c = InRefresh p ow hs \<Longrightarrow> p < length (promises s)"
  using assms unfolding single_flight_def by blast+

lemma single_flightI:
  assumes "\<And>c p. owner_of s c p \<Longrightarrow> refreshPromise s = Some p"
    "\<And>p rt. p < length (promises s) \<Longrightarrow> promises s ! p = Pending rt \<Longrightarrow> refreshPromise s = Some p"
    "\<And>p. refreshPromise s = Some p \<Longrightarrow> \<exists>c. owner_of s c p"
    "\<And>c d p. owner_of s c p \<Longrightarrow> owner_of s d p \<Longrightarrow> c = d"
    "\<And>c p ow hs. fl_pc s c = InRefresh p ow hs \<Longrightarrow> p < length (promises s)"
  shows "single_flight s"
  unfolding single_flight_def using assms by blast

lemma current_in_range:
  "single_flight s \<Longrightarrow> refreshPromise s = Some p \<Longrightarrow> p < length (promises s)"
  by (metis single_flightD(3,5) owner_of_def)

lemma owner_of_upd [simp]:
  "owner_of (set_pc c q s) c' p \<longleftrightarrow>
     (if c' = c then (\<exists>hs. q = InRefresh p True hs) else owner_of s c' p)"
  by (auto simp: owner_of_def)

lemma owner_of_cong: "fl_pc s = fl_pc t \<Longrightarrow> owner_of s = owner_of t"
  by (simp add: owner_of_def fun_eq_iff)

lemma single_flight_init: "flight_init s \<Longrightarrow> single_flight s"
  by (simp add: flight_init_def single_flight_def owner_of_def)

lemma single_flight_quiet:
  assumes inv: "single_flight s" and own: "owner_of t = owner_of s"
    and cur: "refreshPromise t = refreshPromise s"
    and len: "length (promises t) = length (promises s)"
    and pend: "\<And>p rt. promises t ! p = Pending rt \<Longrightarrow> p < length (promises s) \<Longrightarrow>
       promises s ! p = Pending rt"
    and range: "\<And>c p ow hs. fl_pc t c = InRefresh p ow hs \<Longrightarrow> p < length (promises s)"
  shows "single_flight t"
proof (rule single_flightI, unfold own cur len)
  fix p rt assume "p < length (promises s)" "promises t ! p = Pending rt"
  then show "refreshPromise s = Some p" using pend by (blast intro: single_flightD(2) [OF inv])
qed (use range in \<open>blast intro: single_flightD [OF inv]\<close>)+

lemma no_owner_when_idle: "single_flight s \<Longrightarrow> refreshPromise s = None \<Longrightarrow> \<not> owner_of s c p"
  using single_flightD(1) by fastforce

lemma none_pending_when_idle:
  "single_flight s \<Longrightarrow> refreshPromise s = None \<Longrightarrow> p < length (promises s) \<Longrightarrow>
   promises s ! p \<noteq> Pending rt"
  using single_flightD(2) by fastforce

lemma single_flight_owns:
  assumes inv: "single_flight s" and idle: "refreshPromise s = None"
  shows "single_flight (set_pc c (InRefresh (length (promises s)) True hs) (begin_refresh s))"
proof (rule single_flightI, goal_cases)
  case (2 p rt)
  then show ?case using none_pending_when_idle [OF inv idle, of p rt]
    by (simp add: nth_append less_Suc_eq split: if_splits)
next
  case (5 c' p ow hs')
  then show ?case using single_flightD(5) [OF inv, of c' p ow hs']
    by (auto split: if_splits)
qed (use no_owner_when_idle [OF inv idle] in \<open>auto simp: owner_of_def split: if_splits\<close>)

lemma single_flight_returns:
  assumes inv: "single_flight s" and pc: "fl_pc s c = InRefresh p True hs"
    and p: "promises s ! p = Settled ok"
  shows "single_flight (refresh_returns c ok True hs s)"
proof -
  have own: "owner_of s c p" using pc by (simp add: owner_of_def)
  then have cur: "refreshPromise s = Some p" by (rule single_flightD(1) [OF inv])
  have no_owner: "\<not> owner_of (refresh_returns c ok True hs s) c' q" for c' q
  proof
    assume "owner_of (refresh_returns c ok True hs s) c' q"
    then have *: "c' \<noteq> c" "owner_of s c' q" by (auto simp: owner_of_def split: if_splits)
    then have "q = p" using single_flightD(1) [OF inv *(2)] cur by simp
    with * own show False using single_flightD(4) [OF inv] by blast
  qed
  show ?thesis
  proof (rule single_flightI, goal_cases)
    case (2 q rt)
    then show ?case using single_flightD(2) [OF inv, of q rt] cur p by simp
  next
    case (5 c' q ow hs')
    then show ?case using single_flightD(5) [OF inv, of c' q ow hs'] by (simp split: if_splits)
  qed (simp_all add: no_owner)
qed

lemma single_flight_step:
  assumes inv: "single_flight s" and next_state: "flight_next calls lab s = Some t"
  shows "single_flight t"
  using next_state
proof (cases rule: flight_next_cases)
  case (owns c hs out)
  then show ?thesis using single_flight_owns [OF inv] by simp
next
  case (returns c p owner hs ok)
  show ?thesis
  proof (cases owner)
    case True
    then show ?thesis using single_flight_returns [OF inv] returns by simp
  next
    case False
    show ?thesis
      by (rule single_flight_quiet [OF inv])
        (use returns False single_flightD(5) [OF inv] in
          \<open>auto simp: owner_of_def fun_eq_iff split: if_splits\<close>)
  qed
next
  case (joins c hs out p)
  then have "p < length (promises s)" using current_in_range [OF inv] by simp
  then show ?thesis
    by (intro single_flight_quiet [OF inv])
      (use joins single_flightD(5) [OF inv] in \<open>auto simp: owner_of_def fun_eq_iff split: if_splits\<close>)
next
  case (settles p out rt)
  show ?thesis
    by (rule single_flight_quiet [OF inv])
      (use settles single_flightD(5) [OF inv] in
        \<open>auto simp: owner_of_def fun_eq_iff nth_list_update split: if_splits\<close>)
qed (rule single_flight_quiet [OF inv];
    use single_flightD(5) [OF inv] in \<open>auto simp: owner_of_def fun_eq_iff split: if_splits\<close>)+

interpretation sf: invariant_system flight_init "flight_step calls allowed" single_flight
  for calls allowed
  by unfold_locales (auto intro: single_flight_init single_flight_step elim!: flight_stepE)

subsection \<open>Refresh tokens\<close>

definition token_in :: "request \<Rightarrow> jsval" where
  "token_in rq = (case rq_body rq of Some (JsonBody (JObj [(_, rt)])) \<Rightarrow> rt | _ \<Rightarrow> Undefined)"

definition tokens_sent :: "flight \<Rightarrow> jsval list" where
  "tokens_sent s = [token_in rq. (OfRefresh p, rq) \<leftarrow> fl_log s]"

definition rotates :: "flight_label \<Rightarrow> flight \<Rightarrow> bool" where
  \<comment> \<open>the server hands out a refresh token that was not used yet\<close>
  "rotates lab s =
     (case lab of
        RefreshSettles p out \<Rightarrow>
          (case out of
             Resp r \<Rightarrow> (case refreshed_tokens r of
                Inr (acc, ref) \<Rightarrow> ref \<notin> set (tokens_sent s) | Inl _ \<Rightarrow> True)
           | Failed _ \<Rightarrow> True)
      | StoreLogin acc ref \<Rightarrow> ref \<notin> set (tokens_sent s)
      | _ \<Rightarrow> True)"

definition refresh_pending :: "flight \<Rightarrow> bool" where
  "refresh_pending s \<longleftrightarrow> (\<exists>rt. Pending rt \<in> set (promises s))"

lemma refresh_pending_iff:
  "refresh_pending s \<longleftrightarrow> (\<exists>p rt. p < length (promises s) \<and> promises s ! p = Pending rt)"
  by (metis refresh_pending_def in_set_conv_nth)

lemma token_in_refresh [simp]: "token_in (refresh_request rt) = rt"
  by (simp add: token_in_def refresh_request_def)

lemma tokens_sent_log:
  "fl_log t = fl_log s @ xs \<Longrightarrow>
   tokens_sent t = tokens_sent s @ [token_in rq. (OfRefresh p, rq) \<leftarrow> xs]"
  by (simp add: tokens_sent_def)

lemma tokens_sent_same: "fl_log t = fl_log s \<Longrightarrow> tokens_sent t = tokens_sent s"
  by (simp add: tokens_sent_def)

lemma tokens_sent_simps [simp]:
  "tokens_sent (set_pc c q s) = tokens_sent s"
  "tokens_sent (start_call calls c s) = tokens_sent s"
  "tokens_sent (settle_refresh p out s) = tokens_sent s"
  "tokens_sent (refresh_returns c ok ow hs s) = tokens_sent s"
  "tokens_sent (continue_call calls c ok hs s) = tokens_sent s"
  "tokens_sent (s\<lparr>fl_store := a\<rparr>) = tokens_sent s"
  "tokens_sent (begin_refresh s) = tokens_sent s @
     (if js_truthy (getRefreshToken (fl_store s)) then [getRefreshToken (fl_store s)] else [])"
  by (simp_all add: tokens_sent_def)

definition tokens_once :: "flight \<Rightarrow> bool" where
  "tokens_once s \<longleftrightarrow> distinct (tokens_sent s) \<and> (\<forall>rt \<in> set (tokens_sent s). js_truthy rt) \<and>
     (getRefreshToken (fl_store s) \<in> set (tokens_sent s) \<longrightarrow> refresh_pending s)"

lemma tokens_once_same:
  "tokens_once s \<Longrightarrow> tokens_sent t = tokens_sent s \<Longrightarrow> fl_store t = fl_store s \<Longrightarrow>
   promises t = promises s \<Longrightarrow> tokens_once t"
  by (simp add: tokens_once_def refresh_pending_def)

lemma JNull_not_sent: "tokens_once s \<Longrightarrow> JNull \<notin> set (tokens_sent s)"
  by (force simp: tokens_once_def)

lemma settle_store_token:
  assumes "rotates (RefreshSettles p out) s" "tokens_once s"
  shows "getRefreshToken (fst (snd (doRefresh_finish out (fl_store s, fl_href s)))) \<notin> set (tokens_sent s)"
  using assms JNull_not_sent [OF assms(2)]
  by (auto simp: rotates_def doRefresh_finish_def split: fetch_outcome.splits sum.splits)

lemma tokens_once_step:
  assumes inv: "single_flight s" "tokens_once s" and lab: "rotates lab s"
    and next_state: "flight_next calls lab s = Some t"
  shows "tokens_once t"
  using next_state
proof (cases rule: flight_next_cases)
  case (owns c hs out)
  have "\<not> refresh_pending s"
    using none_pending_when_idle [OF inv(1)] owns by (auto simp: refresh_pending_iff)
  then have "getRefreshToken (fl_store s) \<notin> set (tokens_sent s)"
    using inv(2) by (auto simp: tokens_once_def)
  then show ?thesis using inv(2) owns JNull_not_sent [OF inv(2)]
    by (auto simp: tokens_once_def refresh_pending_def fresh_promise_def)
next
  case (settles p out rt)
  then show ?thesis using inv(2) settle_store_token [of p out s] lab
    by (simp add: tokens_once_def)
next
  case (login x y)
  then show ?thesis using inv(2) lab by (simp add: tokens_once_def rotates_def)
next
  case logout
  then show ?thesis using inv(2) JNull_not_sent [OF inv(2)] by (simp add: tokens_once_def)
qed (rule tokens_once_same [OF inv(2)]; simp)+

lemma tokens_once_init: "flight_init s \<Longrightarrow> tokens_once s"
  by (simp add: flight_init_def tokens_once_def tokens_sent_def)

interpretation tk: invariant_system flight_init "flight_step calls rotates"
  "\<lambda>s. single_flight s \<and> tokens_once s" for calls
  by unfold_locales
    (auto intro: single_flight_init tokens_once_init single_flight_step tokens_once_step
      elim!: flight_stepE)

subsection \<open>One refresh, one redirect\<close>

lemma length_filter_update:
  "i < length xs \<Longrightarrow> \<not> P (xs ! i) \<Longrightarrow>
   length (filter P (xs[i := x])) = length (filter P xs) + (if P x then 1 else 0)"
  by (induction xs arbitrary: i) (auto split: nat.splits)

definition redirects_match :: "flight \<Rightarrow> bool" where
  "redirects_match s \<longleftrightarrow>
     fl_href s = replicate (length (filter ((=) (Settled False)) (promises s))) ''/login''"

lemma redirects_match_step:
  assumes inv: "redirects_match s" and next_state: "flight_next calls lab s = Some t"
  shows "redirects_match t"
  using next_state
proof (cases rule: flight_next_cases)
  case (settles p out rt)
  then show ?thesis using inv
    by (auto simp: redirects_match_def length_filter_update replicate_append_same)
qed (use inv in \<open>simp_all add: redirects_match_def replicate_append_same eq_commute [of "Settled False"]\<close>)

interpretation rd: invariant_system flight_init "flight_step calls allowed" redirects_match
  for calls allowed
  by unfold_locales
    (auto simp: flight_init_def redirects_match_def
      dest: redirects_match_step [unfolded redirects_match_def] elim!: flight_stepE)

subsection \<open>Requests of a call\<close>

definition own_requests :: "flight \<Rightarrow> nat \<Rightarrow> request list" where
  "own_requests s c = [rq. (OfCall c', rq) \<leftarrow> fl_log s, c' = c]"

fun pc_requests :: "call_pc \<Rightarrow> nat set" where
  "pc_requests NotStarted = {0}"
| "pc_requests (Fetching _) = {1}"
| "pc_requests (InRefresh _ _ _) = {1}"
| "pc_requests (AfterRefresh _ _) = {1}"
| "pc_requests Retrying = {2}"
| "pc_requests (Done _) = {1, 2}"

lemma own_requests_simps [simp]:
  "own_requests (set_pc c q s) d = own_requests s d"
  "own_requests (settle_refresh p out s) d = own_requests s d"
  "own_requests (refresh_returns c ok ow hs s) d = own_requests s d"
  "own_requests (s\<lparr>fl_store := a\<rparr>) d = own_requests s d"
  "own_requests (begin_refresh s) d = own_requests s d"
  "own_requests (start_call calls c s) d = own_requests s d @
     (if d = c then [first_request (fst (calls c)) (snd (calls c)) (fl_store s)] else [])"
  "own_requests (continue_call calls c ok hs s) d = own_requests s d @
     (if d = c \<and> ok then [retry_request (fst (calls c)) (snd (calls c)) hs (fl_store s)] else [])"
  by (simp_all add: own_requests_def)

definition requests_bounded :: "calls \<Rightarrow> flight \<Rightarrow> bool" where
  "requests_bounded calls s \<longleftrightarrow>
     (\<forall>c. length (own_requests s c) \<in> pc_requests (fl_pc s c) \<and>
        (\<forall>rq \<in> set (own_requests s c). rq_path rq = fst (calls c)))"

lemma requests_bounded_step:
  assumes inv: "requests_bounded calls s" and next_state: "flight_next calls lab s = Some t"
  shows "requests_bounded calls t"
proof -
  have len: "length (own_requests s c) \<in> pc_requests (fl_pc s c)" for c
    using inv by (simp add: requests_bounded_def)
  have path: "rq_path rq = fst (calls c)" if "rq \<in> set (own_requests s c)" for c rq
    using inv that by (auto simp: requests_bounded_def)
  note upd = requests_bounded_def path len
  from next_state show ?thesis
  proof (cases rule: flight_next_cases)
    case (start c)
    then show ?thesis using len [of c] by (auto simp: upd first_request_def)
  next
    case (finished c hs out r)
    then show ?thesis using len [of c] by (auto simp: upd)
  next
    case (joins c hs out p)
    then show ?thesis using len [of c] by (auto simp: upd)
  next
    case (owns c hs out)
    then show ?thesis using len [of c] by (auto simp: upd)
  next
    case (returns c p owner hs ok)
    then show ?thesis using len [of c] by (auto simp: upd)
  next
    case (continue c ok hs)
    then show ?thesis using len [of c] by (auto simp: upd)
  next
    case (retried c out)
    then show ?thesis using len [of c] by (auto simp: upd)
  qed (auto simp: upd)
qed

lemma requests_bounded_init: "flight_init s \<Longrightarrow> requests_bounded calls s"
  by (simp add: flight_init_def requests_bounded_def own_requests_def)

interpretation rb: invariant_system flight_init "flight_step calls allowed" "requests_bounded calls"
  for calls allowed
  by unfold_locales
    (auto intro: requests_bounded_init requests_bounded_step elim!: flight_stepE)

subsection \<open>Every call ends\<close>

fun rank :: "call_pc \<Rightarrow> nat" where
  "rank NotStarted = 6"
| "rank (Fetching _) = 5"
| "rank (InRefresh _ _ _) = 3"
| "rank (AfterRefresh _ _) = 2"
| "rank Retrying = 1"
| "rank (Done _) = 0"

fun is_pending :: "refresh_promise \<Rightarrow> bool" where
  "is_pending (Pending _) = True"
| "is_pending (Settled _) = False"

definition work :: "nat \<Rightarrow> flight \<Rightarrow> nat" where
  "work n s = (\<Sum>c<n. rank (fl_pc s c)) + length (filter is_pending (promises s))"

fun label_of_calls :: "nat \<Rightarrow> flight_label \<Rightarrow> bool" where
  "label_of_calls n (Start c) = (c < n)"
| "label_of_calls n (Respond c _) = (c < n)"
| "label_of_calls n (RefreshSettles _ _) = True"
| "label_of_calls n (RefreshReturns c) = (c < n)"
| "label_of_calls n (Continue c) = (c < n)"
| "label_of_calls n (RetryResponds c _) = (c < n)"
| "label_of_calls n _ = False"

lemma rank_sum_upd:
  assumes "c < n"
  shows "(\<Sum>d<n. rank (((fl_pc s)(c := q)) d)) + rank (fl_pc s c) = (\<Sum>d<n. rank (fl_pc s d)) + rank q"
proof -
  have "(\<Sum>d<n. rank (((fl_pc s)(c := q)) d)) = rank q + (\<Sum>d\<in>{..<n}-{c}. rank (fl_pc s d))"
    using assms by (subst sum.remove [of _ c]) (auto intro!: sum.cong)
  moreover have "(\<Sum>d<n. rank (fl_pc s d)) = rank (fl_pc s c) + (\<Sum>d\<in>{..<n}-{c}. rank (fl_pc s d))"
    using assms by (subst sum.remove [of _ c]) auto
  ultimately show ?thesis by simp
qed

lemma pending_removed:
  "p < length ps \<Longrightarrow> ps ! p = Pending rt \<Longrightarrow>
   Suc (length (filter is_pending (ps[p := Settled ok]))) = length (filter is_pending ps)"
  by (induction ps arbitrary: p) (auto split: nat.splits)

lemma work_decreases:
  assumes "flight_next calls lab s = Some t" and "label_of_calls n lab"
  shows "work n t < work n s"
  using assms(1)
proof (cases rule: flight_next_cases)
  case (start c)
  then show ?thesis using assms(2) rank_sum_upd [of c n s "Fetching (bearer (getAccessToken (fl_store s)) (base_headers (snd (calls c))))"]
    by (simp add: work_def)
next
  case (finished c hs out r)
  then show ?thesis using assms(2) rank_sum_upd [of c n s "Done r"] by (simp add: work_def)
next
  case (joins c hs out p)
  then show ?thesis using assms(2) rank_sum_upd [of c n s "InRefresh p False hs"]
    by (simp add: work_def)
next
  case (owns c hs out)
  then show ?thesis using assms(2) rank_sum_upd [of c n s "InRefresh (length (promises s)) True hs"]
    by (simp add: work_def fresh_promise_def)
next
  case (settles p out rt)
  then show ?thesis using pending_removed [of p "promises s" rt "settled_ok out s"]
    by (simp add: work_def)
next
  case (returns c p owner hs ok)
  then show ?thesis using assms(2) rank_sum_upd [of c n s "AfterRefresh ok hs"]
    by (simp add: work_def)
next
  case (continue c ok hs)
  then show ?thesis
    using assms(2) rank_sum_upd [of c n s "if ok then Retrying else Done (Inl unauthorized_error)"]
    by (simp add: work_def split: if_splits)
next
  case (retried c out)
  then show ?thesis using assms(2) rank_sum_upd [of c n s "Done (after_retry out)"]
    by (simp add: work_def)
qed (use assms(2) in simp_all)

lemma run_bounded:
  "flight_run calls ls s = Some t \<Longrightarrow> list_all (label_of_calls n) ls \<Longrightarrow>
   length ls + work n t \<le> work n s"
proof (induction ls arbitrary: s)
  case (Cons l ls)
  then obtain u where u: "flight_next calls l s = Some u" "flight_run calls ls u = Some t"
    by (auto split: option.splits)
  have "work n u < work n s" using work_decreases [OF u(1)] Cons.prems by simp
  then show ?case using Cons.IH [OF u(2)] Cons.prems by simp
qed simp

lemma work_init: "flight_init s \<Longrightarrow> work n s = 6 * n"
  by (simp add: work_def flight_init_def)

lemma some_call_moves:
  assumes inv: "single_flight s" and c: "c < n" and busy: "\<nexists>r. fl_pc s c = Done r"
  shows "\<exists>lab. label_of_calls n lab \<and> flight_next calls lab s \<noteq> None"
proof (cases "fl_pc s c")
  case NotStarted
  then show ?thesis using c by (intro exI [of _ "Start c"]) simp
next
  case (Fetching hs)
  then show ?thesis using c by (intro exI [of _ "Respond c (Failed type_error)"]) simp
next
  case (InRefresh p ow hs)
  have p: "p < length (promises s)" using single_flightD(5) [OF inv InRefresh] .
  show ?thesis
  proof (cases "promises s ! p")
    case (Pending rt)
    then show ?thesis using p by (intro exI [of _ "RefreshSettles p (Failed type_error)"]) simp
  next
    case (Settled ok)
    then show ?thesis using p c InRefresh by (intro exI [of _ "RefreshReturns c"]) simp
  qed
next
  case (AfterRefresh ok hs)
  then show ?thesis using c by (intro exI [of _ "Continue c"]) simp
next
  case Retrying
  then show ?thesis using c by (intro exI [of _ "RetryResponds c (Failed type_error)"]) simp
qed (use busy in simp)

subsection \<open>A call alone\<close>

definition flight_of :: "'n client \<Rightarrow> flight" where
  "flight_of w = \<lparr>fl_store = auth w, fl_href = href w, refreshPromise = None, promises = [],
     fl_pc = (\<lambda>_. NotStarted), fl_log = []\<rparr>"

lemma alone_refresh_failed:
  assumes "doRefresh fetch w = (False, w')" and "fl_store s = auth w" "fl_href s = href w"
    "refreshPromise s = None" "promises s = []" "fl_pc s 0 = Fetching hs"
    "after_first (fst (calls 0)) out = NeedsRefresh"
  shows "\<exists>ls t rs. flight_run calls (Respond 0 out # ls) s = Some t \<and>
     fl_pc t 0 = Done (Inl unauthorized_error) \<and> fl_store t = auth w' \<and> fl_href t = href w' \<and>
     sent w' = sent w @ rs \<and> map snd (fl_log t) = map snd (fl_log s) @ rs"
proof (cases "js_truthy (getRefreshToken (auth w))")
  case True
  obtain o2 w2 where send: "send fetch (refresh_request (getRefreshToken (auth w))) w = (o2, w2)"
    by fastforce
  note s2 = send_split [OF send]
  have fin: "doRefresh_finish o2 (auth w, href w) = (False, auth w', href w')"
    and sent': "sent w' = sent w2"
    using assms(1) True send s2 by (auto simp: doRefresh_def Let_def split: prod.splits)
  show ?thesis
    by (rule exI [of _ "[RefreshSettles 0 o2, RefreshReturns 0, Continue 0]"])
      (use assms(2-) True fin sent' s2 doRefresh_False [OF assms(1)] in
        \<open>simp add: respond_def refreshAccessToken_def fresh_promise_def settled_ok_def
          split: prod.splits\<close>)
next
  case False
  show ?thesis
    by (rule exI [of _ "[RefreshReturns 0, Continue 0]"])
      (use assms False in \<open>auto simp: respond_def refreshAccessToken_def fresh_promise_def
          doRefresh_def Let_def give_up_def split: prod.splits\<close>)
qed

lemma alone_refreshed:
  assumes "doRefresh fetch w = (True, w')" and "fl_store s = auth w" "fl_href s = href w"
    "refreshPromise s = None" "promises s = []" "fl_pc s 0 = Fetching hs"
    "after_first (fst (calls 0)) out = NeedsRefresh"
  shows "\<exists>ls t. flight_run calls (Respond 0 out # ls) s = Some t \<and> fl_pc t 0 = Retrying \<and>
     fl_store t = auth w' \<and> fl_href t = href w' \<and> list_all (label_of_calls 1) ls \<and>
     map snd (fl_log t) = map snd (fl_log s) @ drop (length (sent w)) (sent w') @
       [retry_request (fst (calls 0)) (snd (calls 0)) hs (auth w')]"
proof -
  note ok = doRefresh_True [OF assms(1)]
  obtain o2 w2 where send: "send fetch (refresh_request (getRefreshToken (auth w))) w = (o2, w2)"
    by fastforce
  note s2 = send_split [OF send]
  have "doRefresh_finish o2 (auth w, href w) = (True, auth w', href w')"
    using assms(1) ok send s2 by (auto simp: doRefresh_def Let_def split: prod.splits if_splits)
  then show ?thesis
    by (intro exI [of _ "[RefreshSettles 0 o2, RefreshReturns 0, Continue 0]"])
      (use assms(2-) ok in \<open>auto simp: respond_def refreshAccessToken_def fresh_promise_def
          settled_ok_def split: prod.splits\<close>)
qed

lemma alone_started:
  fixes w :: "'n client"
  assumes "calls 0 = (path, i)"
  defines "s \<equiv> start_call calls 0 (flight_of w)"
  shows "flight_run calls (Start 0 # ls) (flight_of w) = flight_run calls ls s"
    "fl_store s = auth w" "fl_href s = href w" "refreshPromise s = None" "promises s = []"
    "fl_pc s 0 = Fetching (bearer (getAccessToken (auth w)) (base_headers i))"
    "map snd (fl_log s) = [first_request path i (auth w)]"
  using assms by (simp_all add: flight_of_def)

subsection \<open>A demonstration run\<close>

definition demo_calls :: calls where
  "demo_calls c = (''/api/reports'', api_get_init None)"

definition demo_start :: flight where
  "demo_start = flight_of (logged_in [])"

definition both_wait :: "flight_label list" where
  "both_wait = [Start 0, Start 1, Respond 0 (answer 401 Undefined), Respond 1 (answer 401 Undefined)]"

definition both_finish :: "fetch_outcome \<Rightarrow> flight_label list" where
  "both_finish out = [RefreshSettles 0 out, RefreshReturns 1, Continue 1, RefreshReturns 0, Continue 0]"

lemma demo_init: "flight_init demo_start"
  by (simp add: flight_init_def demo_start_def flight_of_def logged_in_def)

lemmas demo_eval = demo_calls_def demo_start_def flight_of_def logged_in_def both_wait_def
  both_finish_def respond_def refreshAccessToken_def fresh_promise_def after_first_def
  isAuthEndpoint_def settled_ok_def doRefresh_finish_def refreshed_tokens_def rs_ok_def

lemma demo_waiting:
  obtains s where "flight_run demo_calls both_wait demo_start = Some s"
    "reach flight_init (flight_step demo_calls any_step) s"
    "promises s = [Pending (JStr ''r0'')]" "\<exists>hs. fl_pc s 1 = InRefresh 0 False hs"
    "fl_href s = []" "fl_store s = fl_store demo_start"
proof -
  obtain s where s: "flight_run demo_calls both_wait demo_start = Some s"
    and "promises s = [Pending (JStr ''r0'')]" "\<exists>hs. fl_pc s 1 = InRefresh 0 False hs" "fl_href s = []"
      "fl_store s = fl_store demo_start"
    by (simp add: demo_eval)
  moreover have "reach flight_init (flight_step demo_calls any_step) s"
    by (rule flight_run_reach [OF reach_init s]) (rule demo_init)
  ultimately show ?thesis using that by blast
qed

subsection \<open>Properties\<close>

text \<open>
  C1. However many calls run concurrently, and whatever the server answers and the user does, at
  most one refresh request is in flight at any time: two pending promises are the same one, it is
  the one \<open>refreshPromise\<close> holds, and exactly one call owns it.
\<close>

theorem at_most_one_refresh_in_flight:
  assumes "reach flight_init (flight_step calls any_step) s"
    and "p < length (promises s)" "promises s ! p = Pending rt"
  shows "refreshPromise s = Some p \<and> (\<exists>!c. owner_of s c p) \<and>
    (\<forall>q rt'. q < length (promises s) \<and> promises s ! q = Pending rt' \<longrightarrow> q = p)"
proof -
  note inv = sf.invariant [OF assms(1)]
  note cur = single_flightD(2) [OF inv assms(2,3)]
  then have "q = p" if "q < length (promises s)" "promises s ! q = Pending rt'" for q rt'
    using single_flightD(2) [OF inv that] by simp
  then show ?thesis
    using cur single_flightD(3) [OF inv cur] single_flightD(4) [OF inv] by blast
qed

theorem at_most_one_refresh_in_flight_witness:
  "\<exists>s. flight_run demo_calls both_wait demo_start = Some s \<and> refreshPromise s = Some 0 \<and>
     (\<exists>!c. owner_of s c 0)"
proof -
  obtain s where "flight_run demo_calls both_wait demo_start = Some s"
    and r: "reach flight_init (flight_step demo_calls any_step) s"
    and p: "promises s = [Pending (JStr ''r0'')]"
    by (rule demo_waiting)
  then show ?thesis using at_most_one_refresh_in_flight [OF r, of 0] by auto
qed

text \<open>
  C2. Provided that the server rotates refresh tokens (login and refresh never hand out a refresh
  token that was sent to the refresh endpoint before), no refresh token is ever sent twice, so the
  server's reuse detection is not triggered by concurrent 401 responses.
\<close>

theorem refresh_token_sent_once:
  assumes "reach flight_init (flight_step calls rotates) s"
  shows "distinct (tokens_sent s) \<and> (\<forall>rt \<in> set (tokens_sent s). js_truthy rt)"
  using tk.invariant [OF assms] by (simp add: tokens_once_def)

theorem refresh_token_sent_once_witness:
  "\<exists>s. reach flight_init (flight_step demo_calls rotates) s \<and> tokens_sent s = [JStr ''r0''] \<and>
     distinct (tokens_sent s)"
proof -
  let ?s1 = "start_call demo_calls 0 demo_start"
  obtain s2 where s2: "flight_next demo_calls (Respond 0 (answer 401 Undefined)) ?s1 = Some s2"
    and sent: "tokens_sent s2 = [JStr ''r0'']"
    by (simp add: demo_eval) (simp add: tokens_sent_def)
  have "reach flight_init (flight_step demo_calls rotates) ?s1"
    by (rule reach_step [OF reach_init [of flight_init, OF demo_init]],
        rule flight_stepI [of _ "Start 0"])
      (simp_all add: rotates_def demo_start_def flight_of_def)
  then have "reach flight_init (flight_step demo_calls rotates) s2"
    by (rule reach_step, intro flight_stepI [OF _ s2]) (simp add: rotates_def)
  from this refresh_token_sent_once [OF this] sent show ?thesis by blast
qed

text \<open>
  The browser is sent to /login once per failed refresh, not once per call that waited for it:
  the redirects are as many as the refreshes that failed.
\<close>

theorem one_redirect_per_failed_refresh:
  assumes "reach flight_init (flight_step calls any_step) s"
  shows "fl_href s = replicate (length (filter ((=) (Settled False)) (promises s))) ''/login''"
  using rd.invariant [OF assms] by (simp add: redirects_match_def)

theorem one_redirect_per_failed_refresh_witness:
  "\<exists>s. reach flight_init (flight_step demo_calls any_step) s \<and>
     fl_pc s 0 = Done (Inl unauthorized_error) \<and> fl_pc s 1 = Done (Inl unauthorized_error) \<and>
     fl_href s = [''/login'']"
proof -
  let ?ls = "both_wait @ both_finish (answer 401 Undefined)"
  obtain s where s: "flight_run demo_calls ?ls demo_start = Some s"
    and d: "fl_pc s 0 = Done (Inl unauthorized_error)" "fl_pc s 1 = Done (Inl unauthorized_error)"
      "promises s = [Settled False]"
    by (simp add: demo_eval)
  have r: "reach flight_init (flight_step demo_calls any_step) s"
    by (rule flight_run_reach [OF reach_init s]) (rule demo_init)
  with d show ?thesis using one_redirect_per_failed_refresh [OF r] by auto
qed

text \<open>
  Every call sends its own request at most twice, always to its own path, whatever the other
  calls do; a call still waiting for a refresh has sent it exactly once.
\<close>

theorem own_request_at_most_twice:
  assumes "reach flight_init (flight_step calls any_step) s"
  shows "length (own_requests s c) \<le> 2 \<and> (\<forall>rq \<in> set (own_requests s c). rq_path rq = fst (calls c)) \<and>
    (\<forall>p ow hs. fl_pc s c = InRefresh p ow hs \<longrightarrow> length (own_requests s c) = 1)"
proof -
  have rb: "length (own_requests s c) \<in> pc_requests (fl_pc s c)"
    "\<forall>rq \<in> set (own_requests s c). rq_path rq = fst (calls c)"
    using rb.invariant [OF assms] by (simp_all add: requests_bounded_def)
  then show ?thesis by (cases "fl_pc s c") auto
qed

theorem own_request_at_most_twice_witness:
  "\<exists>s. reach flight_init (flight_step demo_calls any_step) s \<and> length (own_requests s 1) = 1"
proof -
  obtain s where "flight_run demo_calls both_wait demo_start = Some s"
    and r: "reach flight_init (flight_step demo_calls any_step) s"
    and w: "\<exists>hs. fl_pc s 1 = InRefresh 0 False hs"
    by (rule demo_waiting)
  then show ?thesis using own_request_at_most_twice [OF r, of 1] by blast
qed

text \<open>
  C6. No call waits for ever: a run of \<open>n\<close> calls has at most \<open>6 * n\<close> steps, and when none of the
  calls can make a step any more, every one of them has returned or thrown.
\<close>

theorem every_call_ends:
  assumes "flight_init s0" and "flight_run calls ls s0 = Some s" and "list_all (label_of_calls n) ls"
  shows "length ls \<le> 6 * n \<and>
    ((\<forall>lab. label_of_calls n lab \<longrightarrow> flight_next calls lab s = None) \<longrightarrow>
      (\<forall>c<n. \<exists>r. fl_pc s c = Done r))"
proof -
  have "single_flight s"
    using flight_run_reach [OF reach_init [of flight_init, OF assms(1)] assms(2)] by (rule sf.invariant)
  then have "(\<forall>lab. label_of_calls n lab \<longrightarrow> flight_next calls lab s = None) \<longrightarrow>
      (\<forall>c<n. \<exists>r. fl_pc s c = Done r)"
    using some_call_moves by metis
  then show ?thesis using run_bounded [OF assms(2,3)] work_init [OF assms(1), of n] by simp
qed

theorem every_call_ends_witness:
  "\<exists>s. flight_run demo_calls both_wait demo_start = Some s \<and> length both_wait \<le> 6 * 2 \<and>
     (\<exists>lab. label_of_calls 2 lab \<and> flight_next demo_calls lab s \<noteq> None)"
proof -
  obtain s where s: "flight_run demo_calls both_wait demo_start = Some s"
    and "reach flight_init (flight_step demo_calls any_step) s"
    and w: "\<exists>hs. fl_pc s 1 = InRefresh 0 False hs"
    by (rule demo_waiting)
  have "list_all (label_of_calls 2) both_wait" by (simp add: both_wait_def)
  from every_call_ends [OF demo_init s this] s w show ?thesis
    by (metis call_pc.distinct(23) lessI numeral_2_eq_2 One_nat_def)
qed

text \<open>
  C16. The concurrent model refines the sequential one: what \<open>apiClient\<close> does alone, with any
  network, is a run of the concurrent model with one call, with the same result, tokens, redirects
  and requests in the same order.
\<close>

theorem lone_call_refines_apiClient:
  assumes "calls 0 = (path, i)" and "apiClient fetch path i w = (res, w')"
  shows "\<exists>ls t. flight_run calls ls (flight_of w) = Some t \<and> fl_pc t 0 = Done res \<and>
    fl_store t = auth w' \<and> fl_href t = href w' \<and> sent w' = sent w @ map snd (fl_log t)"
  using assms(2)
proof (cases rule: apiClient_cases)
  case (direct out w1)
  note st = alone_started [of calls, OF assms(1), where w = w]
  show ?thesis
    by (rule exI [of _ "[Start 0, Respond 0 out]"])
      (use st direct send_split [OF direct(1)] assms(1) in \<open>simp add: respond_def\<close>)
next
  case (refresh_failed out w1)
  note s1 = send_split [OF refresh_failed(1)]
  note st = alone_started [of calls, OF assms(1), where w = w]
  have aux: "fl_store (start_call calls 0 (flight_of w)) = auth w1"
    "fl_href (start_call calls 0 (flight_of w)) = href w1"
    "after_first (fst (calls 0)) out = NeedsRefresh" using st s1 assms(1) refresh_failed by simp_all
  obtain ls t rs where run: "flight_run calls (Respond 0 out # ls) (start_call calls 0 (flight_of w)) = Some t"
    and t: "fl_pc t 0 = Done (Inl unauthorized_error)" "fl_store t = auth w'" "fl_href t = href w'"
      "sent w' = sent w1 @ rs" "map snd (fl_log t) = map snd (fl_log (start_call calls 0 (flight_of w))) @ rs"
    using alone_refresh_failed [where s = "start_call calls 0 (flight_of w)" and calls = calls,
        OF refresh_failed(3) aux(1,2) st(4,5,6) aux(3)] by (elim exE conjE) (rule that)
  show ?thesis
    by (rule exI [of _ "Start 0 # Respond 0 out # ls"])
      (use run t st s1 refresh_failed in \<open>simp del: flight_run.simps\<close>)
next
  case (retried out w1 w2 out2)
  note s1 = send_split [OF retried(1)] and s3 = send_split [OF retried(4)]
  note st = alone_started [of calls, OF assms(1), where w = w]
  have aux: "fl_store (start_call calls 0 (flight_of w)) = auth w1"
    "fl_href (start_call calls 0 (flight_of w)) = href w1"
    "after_first (fst (calls 0)) out = NeedsRefresh" using st s1 assms(1) retried by simp_all
  obtain ls t where run: "flight_run calls (Respond 0 out # ls) (start_call calls 0 (flight_of w)) = Some t"
    and t: "fl_pc t 0 = Retrying" "fl_store t = auth w2" "fl_href t = href w2"
      "map snd (fl_log t) = map snd (fl_log (start_call calls 0 (flight_of w))) @
        drop (length (sent w1)) (sent w2) @ [retry_request (fst (calls 0)) (snd (calls 0))
          (bearer (getAccessToken (auth w)) (base_headers i)) (auth w2)]"
    using alone_refreshed [where s = "start_call calls 0 (flight_of w)" and calls = calls,
        OF retried(3) aux(1,2) st(4,5,6) aux(3)] by (elim exE conjE) (rule that)
  have full: "flight_run calls (Start 0 # Respond 0 out # ls) (flight_of w) = Some t"
    using st(1) run by (simp only:)
  have last_step: "flight_run calls ((Start 0 # Respond 0 out # ls) @ [RetryResponds 0 out2]) (flight_of w)
      = Some (set_pc 0 (Done (after_retry out2)) t)"
    by (simp only: flight_run_append full option.case) (simp add: t(1))
  obtain rf where "sent w2 = sent w1 @ rf" using doRefresh_True [OF retried(3)] by blast
  then have "sent w' = sent w @ map snd (fl_log t)"
    using s1 s3 st(7) t(4) assms(1) by (simp del: start_call_simps)
  with last_step show ?thesis
    by (intro exI [of _ "(Start 0 # Respond 0 out # ls) @ [RetryResponds 0 out2]"]
        exI [of _ "set_pc 0 (Done (after_retry out2)) t"])
      (use t s3 retried in \<open>simp del: flight_run.simps append.simps\<close>)
qed

theorem lone_call_refines_apiClient_witness:
  "\<exists>ls t. flight_run demo_calls ls (flight_of (logged_in [answer 200 (JNum 1)])) = Some t \<and>
     fl_pc t 0 = Done (Inr (JNum 1))"
proof -
  let ?w = "logged_in [answer 200 (JNum 1)]"
  have a: "demo_calls 0 = (''/api/reports'', api_get_init None)" by (simp add: demo_calls_def)
  obtain res w' where c: "apiClient playback ''/api/reports'' (api_get_init None) ?w = (res, w')"
    by fastforce
  then have "res = Inr (JNum 1)" by (simp add: call_eval)
  then show ?thesis using lone_call_refines_apiClient [of demo_calls, OF a c] by blast
qed

text \<open>
  A logout does not survive a refresh that is still pending: when the refresh then succeeds,
  the store holds the new tokens and the user counts as authenticated again.
\<close>

theorem logout_undone_by_pending_refresh:
  assumes "flight_run calls [StoreLogout, RefreshSettles p (Resp r)] s = Some t"
    and "rs_ok r" and "refreshed_tokens r = Inr (JStr acc, ref)"
  shows "getAccessToken (fl_store t) = JStr acc \<and> getRefreshToken (fl_store t) = ref \<and>
    useAuth (fl_store t)"
proof -
  have "t = settle_refresh p (Resp r) (s\<lparr>fl_store := clearTokens (fl_store s)\<rparr>)"
    using assms(1) by (auto split: if_splits refresh_promise.splits)
  then show ?thesis using assms(2,3) by (simp add: doRefresh_finish_def useAuth_def)
qed

theorem logout_undone_by_pending_refresh_witness:
  "\<exists>s t. flight_run demo_calls both_wait demo_start = Some s \<and>
     flight_run demo_calls [StoreLogout, RefreshSettles 0 (answer 200 new_tokens)] s = Some t \<and>
     useAuth (fl_store t)"
proof -
  obtain s where s: "flight_run demo_calls both_wait demo_start = Some s"
    and "reach flight_init (flight_step demo_calls any_step) s"
    and p: "promises s = [Pending (JStr ''r0'')]"
    by (rule demo_waiting)
  obtain t where t: "flight_run demo_calls [StoreLogout, RefreshSettles 0 (answer 200 new_tokens)] s = Some t"
    using p by simp
  with s show ?thesis using logout_undone_by_pending_refresh [OF t]
    by (auto simp: rs_ok_def refreshed_tokens_def)
qed

end
