(* ===== verification/Url_Params.thy ===== *)
theory Url_Params
  imports Prelude
begin

text \<open>
  \<open>URLSearchParams\<close> of the browser as the client uses it: an ordered list of names and values with
  \<open>get\<close>, \<open>set\<close>, \<open>delete\<close>, printing in the form encoding and reading it back; and the numbers
  that reading a page number from a URL can give.
\<close>

subsection \<open>Numbers and the form encoding\<close>

datatype jsnum = Num int | NaN

fun jsnum_string :: "jsnum \<Rightarrow> string" where
  "jsnum_string (Num i) = show_int i"
| "jsnum_string NaN = ''NaN''"

fun jsnum_val :: "jsnum \<Rightarrow> jsval" where
  "jsnum_val (Num i) = JNum i"
| "jsnum_val NaN = JNull"

definition hex_digit :: "nat \<Rightarrow> char" where
  "hex_digit d = (if d < 10 then char_of (48 + d) else char_of (55 + d))"

definition percent :: "nat \<Rightarrow> string" where
  "percent b = [CHR ''%'', hex_digit (b div 16), hex_digit (b mod 16)]"

definition form_char :: "char \<Rightarrow> string" where
  \<comment> \<open>one code unit in \<open>application/x-www-form-urlencoded\<close>, through UTF-8\<close>
  "form_char c =
     (let n = of_char c :: nat in
      if n = 32 then ''+''
      else if is_digit c \<or> 65 \<le> n \<and> n \<le> 90 \<or> 97 \<le> n \<and> n \<le> 122 \<or> c \<in> set ''*-._'' then [c]
      else if n < 128 then percent n
      else percent (192 + n div 64) @ percent (128 + n mod 64))"

definition form_encode :: "string \<Rightarrow> string" where
  "form_encode s = concat (map form_char s)"

type_synonym url_params = "(string \<times> string) list"

fun search_string :: "url_params \<Rightarrow> string" where
  \<comment> \<open>\<open>URLSearchParams.toString\<close>\<close>
  "search_string [] = []"
| "search_string [(k, v)] = form_encode k @ ''='' @ form_encode v"
| "search_string ((k, v) # p # ps) = form_encode k @ ''='' @ form_encode v @ ''&'' @ search_string (p # ps)"

fun up_get :: "string \<Rightarrow> url_params \<Rightarrow> string option" where
  "up_get k [] = None"
| "up_get k ((k', v) # ps) = (if k' = k then Some v else up_get k ps)"

definition up_delete :: "string \<Rightarrow> url_params \<Rightarrow> url_params" where
  "up_delete k ps = filter (\<lambda>p. fst p \<noteq> k) ps"

fun up_set :: "string \<Rightarrow> string \<Rightarrow> url_params \<Rightarrow> url_params" where
  \<comment> \<open>the first occurrence takes the value, further ones go; a new name goes to the end\<close>
  "up_set k v [] = [(k, v)]"
| "up_set k v ((k', w) # ps) = (if k' = k then (k, v) # up_delete k ps else (k', w) # up_set k v ps)"

lemma up_get_delete [simp]: "up_get k (up_delete k' ps) = (if k = k' then None else up_get k ps)"
  by (induction ps) (auto simp: up_delete_def)

lemma up_get_set [simp]: "up_get k (up_set k' v ps) = (if k = k' then Some v else up_get k ps)"
  by (induction ps) auto

lemma up_get_append: "up_get k (ps @ qs) = (case up_get k ps of None \<Rightarrow> up_get k qs | Some v \<Rightarrow> Some v)"
  by (induction ps) auto

subsection \<open>Reading a query string\<close>

definition hex_val :: "char \<Rightarrow> nat" where
  "hex_val c = (let n = of_char c in if n < 58 then n - 48 else n - 55)"

definition hex_pair :: "string \<Rightarrow> nat" where
  "hex_pair s = 16 * hex_val (s ! 0) + hex_val (s ! 1)"

function form_decode :: "string \<Rightarrow> string" where
  "form_decode s =
     (if s = [] then []
      else if hd s = CHR ''+'' then CHR '' '' # form_decode (drop 1 s)
      else if hd s \<noteq> CHR ''%'' then hd s # form_decode (drop 1 s)
      else if hex_pair (drop 1 s) < 128 then char_of (hex_pair (drop 1 s)) # form_decode (drop 3 s)
      else char_of ((hex_pair (drop 1 s) - 192) * 64 + (hex_pair (drop 4 s) - 128))
             # form_decode (drop 6 s))"
  by auto
termination by (relation "measure length") auto

declare form_decode.simps [simp del]

lemma hex_val_digit [simp]: "d < 16 \<Longrightarrow> hex_val (hex_digit d) = d"
  by (auto simp: hex_val_def hex_digit_def)

lemma hex_pair_percent: "b < 256 \<Longrightarrow> hex_pair (drop 1 (percent b @ s)) = b"
  by (simp add: hex_pair_def percent_def)

lemma code_lt: "(of_char c :: nat) < 256"
  by simp

lemma form_decode_plain:
  "c \<noteq> CHR ''+'' \<Longrightarrow> c \<noteq> CHR ''%'' \<Longrightarrow> form_decode (c # s) = c # form_decode s"
  by (subst form_decode.simps) simp

lemma form_decode_space: "form_decode (CHR ''+'' # s) = CHR '' '' # form_decode s"
  by (subst form_decode.simps) simp

lemma form_decode_percent:
  "b < 128 \<Longrightarrow> form_decode (percent b @ s) = char_of b # form_decode s"
  using hex_pair_percent [of b s]
  by (subst form_decode.simps) (simp add: percent_def)

lemma form_decode_percent2:
  assumes "n < 256" "128 \<le> n"
  shows "form_decode (percent (192 + n div 64) @ percent (128 + n mod 64) @ s) = char_of n # form_decode s"
proof -
  let ?a = "192 + n div 64" and ?b = "128 + n mod 64"
  have lt: "?a < 256" "?b < 256" using assms by auto
  have pairs: "hex_pair (drop 1 (percent ?a @ percent ?b @ s)) = ?a"
    "hex_pair (drop 4 (percent ?a @ percent ?b @ s)) = ?b"
    using hex_pair_percent [OF lt(1), of "percent ?b @ s"] hex_pair_percent [OF lt(2), of s]
    by (simp_all add: percent_def)
  have "n div 64 * 64 + n mod 64 = n" by simp
  then show ?thesis using pairs
    by (subst form_decode.simps) (simp add: percent_def)
qed

lemma special_chars:
  "CHR '' '' = (char_of (32::nat) :: char)" "(of_char CHR ''+'' :: nat) = 43" "(of_char CHR ''%'' :: nat) = 37"
proof -
  have "(of_char CHR '' '' :: nat) = 32" by simp
  then show "CHR '' '' = (char_of (32::nat) :: char)" by (metis char_of_char)
qed simp_all

lemma form_char_decode: "form_decode (form_char c @ s) = c # form_decode s"
proof -
  let ?n = "of_char c :: nat"
  have c: "char_of ?n = c" by simp
  consider (space) "?n = 32"
    | (plain) "?n \<noteq> 32" "is_digit c \<or> 65 \<le> ?n \<and> ?n \<le> 90 \<or> 97 \<le> ?n \<and> ?n \<le> 122 \<or> c \<in> set ''*-._''"
    | (ascii) "?n \<noteq> 32" "\<not> (is_digit c \<or> 65 \<le> ?n \<and> ?n \<le> 90 \<or> 97 \<le> ?n \<and> ?n \<le> 122 \<or> c \<in> set ''*-._'')" "?n < 128"
    | (high) "\<not> (is_digit c \<or> 65 \<le> ?n \<and> ?n \<le> 90 \<or> 97 \<le> ?n \<and> ?n \<le> 122 \<or> c \<in> set ''*-._'')" "128 \<le> ?n"
    by fastforce
  then show ?thesis
  proof cases
    case space
    then have "c = CHR '' ''" using c special_chars(1) by metis
    then show ?thesis using space by (simp add: form_char_def form_decode_space)
  next
    case plain
    then have "c \<noteq> CHR ''+''" "c \<noteq> CHR ''%''" by (auto simp: is_digit_def)
    then show ?thesis using plain by (simp add: form_char_def form_decode_plain Let_def)
  next
    case ascii
    then show ?thesis by (auto simp: form_char_def form_decode_percent Let_def)
  next
    case high
    then show ?thesis using form_decode_percent2 [OF code_lt [of c]]
      by (auto simp: form_char_def Let_def)
  qed
qed

lemma form_decode_Nil [simp]: "form_decode [] = []"
  by (subst form_decode.simps) simp

lemma form_encode_decode [simp]: "form_decode (form_encode s) = s"
  by (induction s) (simp_all add: form_encode_def form_char_decode)

lemma hex_digit_code: "d < 16 \<Longrightarrow> (of_char (hex_digit d) :: nat) = (if d < 10 then 48 + d else 55 + d)"
  by (simp add: hex_digit_def)

lemma hex_digit_chars: "d < 16 \<Longrightarrow> hex_digit d \<noteq> CHR ''&'' \<and> hex_digit d \<noteq> CHR ''=''"
proof -
  assume "d < 16"
  then have code: "(of_char (hex_digit d) :: nat) = (if d < 10 then 48 + d else 55 + d)"
    by (rule hex_digit_code)
  have "(of_char CHR ''&'' :: nat) = 38" "(of_char CHR ''='' :: nat) = 61" by simp_all
  with code \<open>d < 16\<close> show ?thesis by (auto split: if_splits)
qed

lemma percent_chars: "b < 256 \<Longrightarrow> c \<in> set (percent b) \<Longrightarrow> c \<noteq> CHR ''&'' \<and> c \<noteq> CHR ''=''"
proof -
  assume "b < 256" "c \<in> set (percent b)"
  then have "b div 16 < 16" "c = CHR ''%'' \<or> c = hex_digit (b div 16) \<or> c = hex_digit (b mod 16)"
    by (auto simp: percent_def)
  then show ?thesis using hex_digit_chars [of "b div 16"] hex_digit_chars [of "b mod 16"] by auto
qed

lemma form_char_chars: "d \<in> set (form_char c) \<Longrightarrow> d \<noteq> CHR ''&'' \<and> d \<noteq> CHR ''=''"
proof -
  assume "d \<in> set (form_char c)"
  moreover have lt: "(of_char c :: nat) < 256" by simp
  moreover have "(of_char c :: nat) div 64 < 64" "(of_char c :: nat) mod 64 < 128"
    using lt mod_less_divisor [of 64 "of_char c :: nat"] by linarith+
  ultimately show ?thesis
    using percent_chars [of "of_char c" d] percent_chars [of "192 + of_char c div 64" d]
      percent_chars [of "128 + of_char c mod 64" d]
    by (auto simp: form_char_def Let_def is_digit_def split: if_splits)
qed

lemma form_encode_chars: "d \<in> set (form_encode s) \<Longrightarrow> d \<noteq> CHR ''&'' \<and> d \<noteq> CHR ''=''"
  by (auto simp: form_encode_def dest: form_char_chars)

definition before :: "char \<Rightarrow> string \<Rightarrow> string" where
  "before a s = takeWhile (\<lambda>c. c \<noteq> a) s"

definition after :: "char \<Rightarrow> string \<Rightarrow> string" where
  "after a s = drop 1 (dropWhile (\<lambda>c. c \<noteq> a) s)"

lemma before_after [simp]:
  "a \<notin> set x \<Longrightarrow> before a (x @ a # r) = x" "a \<notin> set x \<Longrightarrow> after a (x @ a # r) = r"
  "a \<notin> set x \<Longrightarrow> before a x = x" "a \<notin> set x \<Longrightarrow> after a x = []"
  by (induction x) (auto simp: before_def after_def)

lemma after_shorter: "s \<noteq> [] \<Longrightarrow> length (after a s) < length s"
proof -
  assume "s \<noteq> []"
  moreover have "length (dropWhile (\<lambda>c. c \<noteq> a) s) \<le> length s" by (rule length_dropWhile_le)
  ultimately show ?thesis unfolding after_def by (cases s) (auto simp: less_Suc_eq_le)
qed

definition split_pair :: "string \<Rightarrow> string \<times> string" where
  "split_pair s = (form_decode (before CHR ''='' s), form_decode (after CHR ''='' s))"

function parse_search :: "string \<Rightarrow> url_params" where
  \<comment> \<open>\<open>new URLSearchParams(s)\<close>; nothing between two \<open>&\<close> is no parameter\<close>
  "parse_search s =
     (if s = [] then []
      else (if before CHR ''&'' s = [] then [] else [split_pair (before CHR ''&'' s)]) @ parse_search (after CHR ''&'' s))"
  by auto
termination by (relation "measure length") (auto simp: after_shorter)

declare parse_search.simps [simp del]

lemma not_in_encoded [simp]:
  "CHR ''&'' \<notin> set (form_encode s)" "CHR ''='' \<notin> set (form_encode s)"
  using form_encode_chars by blast+

lemma split_pair_encoded: "split_pair (form_encode k @ CHR ''='' # form_encode v) = (k, v)"
  by (simp add: split_pair_def)

lemma parse_search_Nil [simp]: "parse_search [] = []"
  by (subst parse_search.simps) simp

lemma parse_search_last:
  "CHR ''&'' \<notin> set x \<Longrightarrow> x \<noteq> [] \<Longrightarrow> parse_search x = [split_pair x]"
  by (subst parse_search.simps) simp

lemma parse_search_more:
  "CHR ''&'' \<notin> set x \<Longrightarrow> x \<noteq> [] \<Longrightarrow> parse_search (x @ CHR ''&'' # r) = split_pair x # parse_search r"
  by (subst parse_search.simps) simp

lemma parse_search_string: "parse_search (search_string ps) = ps"
proof (induction ps rule: search_string.induct)
  case (2 k v)
  then show ?case
    using parse_search_last [of "form_encode k @ CHR ''='' # form_encode v"] split_pair_encoded [of k v]
    by simp
next
  case (3 k v p ps)
  then show ?case
    using parse_search_more [of "form_encode k @ CHR ''='' # form_encode v"] split_pair_encoded [of k v]
    by simp
qed simp

end
