(* ===== verification/Query_Hooks.thy ===== *)
theory Query_Hooks
  imports Api_Client Api_Types Url_Params "HOL-Library.Sublist"
begin

text \<open>
  The data hooks (frontend/src/hooks/): for every query its key, URL and options, for every mutation
  its request, the part of the response it resolves to and the query keys it invalidates; and the defaults of
  the query client (frontend/src/main.tsx), by which it calls a query function that throws once more. The cache
  of TanStack Query is a map from keys to entries; which keys a filter key matches is a parameter of
  the model. Members of a key object that are \<open>undefined\<close> are left out, as the library hashes keys
  with \<open>JSON.stringify\<close>; a number that is not a number counts as \<open>null\<close> there.
\<close>

subsection \<open>URLs of the hooks\<close>

definition with_search :: "string \<Rightarrow> url_params \<Rightarrow> string" where
  "with_search base ps = (let qs = search_string ps in if qs \<noteq> [] then base @ ''?'' @ qs else base)"

definition set_num :: "string \<Rightarrow> jsnum option \<Rightarrow> url_params" where
  \<comment> \<open>\<open>if (v !== undefined) searchParams.set(k, String(v))\<close>\<close>
  "set_num k v = (case v of None \<Rightarrow> [] | Some n \<Rightarrow> [(k, jsnum_string n)])"

definition set_truthy :: "string \<Rightarrow> string option \<Rightarrow> url_params" where
  "set_truthy k v = (case v of Some t \<Rightarrow> if t \<noteq> [] then [(k, t)] else [] | None \<Rightarrow> [])"

definition set_defined :: "string \<Rightarrow> string option \<Rightarrow> url_params" where
  "set_defined k v = (case v of Some t \<Rightarrow> [(k, t)] | None \<Rightarrow> [])"

definition set_truthy_val :: "string \<Rightarrow> jsval \<Rightarrow> url_params" where
  "set_truthy_val k v = (if js_truthy v then [(k, js_to_string v)] else [])"

definition key_num :: "string \<Rightarrow> jsnum option \<Rightarrow> (string \<times> jsval) list" where
  "key_num k v = (case v of None \<Rightarrow> [] | Some n \<Rightarrow> [(k, jsnum_val n)])"

definition key_str :: "string \<Rightarrow> string option \<Rightarrow> (string \<times> jsval) list" where
  "key_str k v = (case v of None \<Rightarrow> [] | Some t \<Rightarrow> [(k, JStr t)])"

definition key_val :: "string \<Rightarrow> jsval \<Rightarrow> (string \<times> jsval) list" where
  "key_val k v = (if v = Undefined then [] else [(k, v)])"

subsection \<open>Queries\<close>

type_synonym query_key = "jsval list"

datatype stale_time = StaleMs nat | StaleNever

record query =
  qu_key :: query_key
  qu_url :: string
  qu_enabled :: bool
  qu_stale :: stale_time
  qu_select :: "string list"

definition plain_query :: "query_key \<Rightarrow> string \<Rightarrow> query" where
  "plain_query k u = \<lparr>qu_key = k, qu_url = u, qu_enabled = True, qu_stale = StaleMs 0, qu_select = []\<rparr>"

record my_reports_params =
  mp_page :: "jsnum option"
  mp_per_page :: "jsnum option"
  mp_status :: "string option"
  mp_from :: "string option"
  mp_to :: "string option"

definition useMyReports :: "my_reports_params \<Rightarrow> query" where
  "useMyReports p =
     (let sp = set_num ''page'' (mp_page p) @ set_num ''per_page'' (mp_per_page p) @
         set_truthy ''status'' (mp_status p) @ set_truthy ''from'' (mp_from p) @ set_truthy ''to'' (mp_to p)
      in plain_query
        [JStr ''reports'', JStr ''mine'', JObj (key_num ''page'' (mp_page p) @
           key_num ''per_page'' (mp_per_page p) @ key_str ''status'' (mp_status p) @
           key_str ''from'' (mp_from p) @ key_str ''to'' (mp_to p))]
        (with_search ''/api/reports'' sp))"

definition useReport :: "string option \<Rightarrow> query" where
  "useReport reportId =
     (plain_query
       [JStr ''reports'', JStr ''detail'', case reportId of None \<Rightarrow> Undefined | Some i \<Rightarrow> JStr i]
       (''/api/reports/'' @ (case reportId of None \<Rightarrow> ''undefined'' | Some i \<Rightarrow> i)))
     \<lparr>qu_enabled := truthy_opt reportId\<rparr>"

record workflow_params =
  wp_page :: "jsnum option"
  wp_per_page :: "jsnum option"
  wp_applicant_name :: "string option"

definition workflow_search :: "workflow_params \<Rightarrow> url_params" where
  "workflow_search p = set_num ''page'' (wp_page p) @ set_num ''per_page'' (wp_per_page p) @
     set_defined ''applicant_name'' (wp_applicant_name p)"

definition workflow_key :: "workflow_params \<Rightarrow> jsval" where
  "workflow_key p = JObj (key_num ''page'' (wp_page p) @ key_num ''per_page'' (wp_per_page p) @
     key_str ''applicant_name'' (wp_applicant_name p))"

definition usePendingReports :: "workflow_params \<Rightarrow> query" where
  "usePendingReports p =
     (plain_query [JStr ''workflow'', JStr ''pending'', workflow_key p]
       (with_search ''/api/workflow/pending'' (workflow_search p)))\<lparr>qu_stale := StaleMs (30 * 1000)\<rparr>"

definition usePayableReports :: "workflow_params \<Rightarrow> query" where
  "usePayableReports p =
     (plain_query [JStr ''workflow'', JStr ''payable'', workflow_key p]
       (with_search ''/api/workflow/payable'' (workflow_search p)))\<lparr>qu_stale := StaleMs (30 * 1000)\<rparr>"

definition useProcessedReports :: "jsnum option \<Rightarrow> jsnum option \<Rightarrow> query" where
  "useProcessedReports pg pp =
     (plain_query
       [JStr ''workflow'', JStr ''processed'', JObj (key_num ''page'' pg @ key_num ''per_page'' pp)]
       (with_search ''/api/workflow/processed'' (set_num ''page'' pg @ set_num ''per_page'' pp)))
     \<lparr>qu_stale := StaleMs (30 * 1000)\<rparr>"

record all_reports_params =
  ap_page :: "jsnum option"
  ap_per_page :: "jsnum option"
  ap_status :: "string option"
  ap_from :: jsval
  ap_to :: jsval
  ap_submitter_id :: "string option"

definition useAllReports :: "all_reports_params \<Rightarrow> query" where
  "useAllReports p =
     (let pg = (case ap_page p of None \<Rightarrow> Num 1 | Some n \<Rightarrow> n);
          pp = (case ap_per_page p of None \<Rightarrow> Num 20 | Some n \<Rightarrow> n);
          sp = [(''page'', jsnum_string pg), (''per_page'', jsnum_string pp)] @
            set_truthy ''status'' (ap_status p) @ set_truthy_val ''from'' (ap_from p) @
            set_truthy_val ''to'' (ap_to p) @ set_truthy ''submitter_id'' (ap_submitter_id p)
      in plain_query
        [JStr ''reports'', JStr ''all'', JObj (key_num ''page'' (Some pg) @
           key_num ''per_page'' (Some pp) @ key_str ''status'' (ap_status p) @
           key_val ''from'' (ap_from p) @ key_val ''to'' (ap_to p) @
           key_str ''submitter_id'' (ap_submitter_id p))]
        (''/api/reports/all?'' @ search_string sp))"

definition item_path :: "string \<Rightarrow> string \<Rightarrow> string" where
  "item_path reportId itemId = ''/api/reports/'' @ reportId @ ''/items/'' @ itemId"

definition attachments_path :: "string \<Rightarrow> string \<Rightarrow> string" where
  "attachments_path reportId itemId = item_path reportId itemId @ ''/attachments''"

definition attachments_key :: "string \<Rightarrow> string \<Rightarrow> query_key" where
  "attachments_key reportId itemId =
     [JStr ''reports'', JStr reportId, JStr ''items'', JStr itemId, JStr ''attachments'']"

definition useAttachments :: "string \<Rightarrow> string \<Rightarrow> query" where
  "useAttachments reportId itemId =
     plain_query (attachments_key reportId itemId) (attachments_path reportId itemId)"

definition useAttachmentDownloadUrl :: "string \<Rightarrow> string \<Rightarrow> string \<Rightarrow> query" where
  "useAttachmentDownloadUrl reportId itemId attId =
     (plain_query
       [JStr ''reports'', JStr reportId, JStr ''items'', JStr itemId, JStr ''attachments'', JStr attId,
        JStr ''download'']
       (attachments_path reportId itemId @ ''/'' @ attId @ ''/download''))\<lparr>qu_enabled := False\<rparr>"

definition useAttachmentPreviewUrl :: "string \<Rightarrow> string \<Rightarrow> string \<Rightarrow> query" where
  "useAttachmentPreviewUrl reportId itemId attId =
     (plain_query
       [JStr ''reports'', JStr reportId, JStr ''items'', JStr itemId, JStr ''attachments'', JStr attId,
        JStr ''preview'']
       (attachments_path reportId itemId @ ''/'' @ attId @ ''/preview''))\<lparr>qu_enabled := False\<rparr>"

definition useCategories :: query where
  "useCategories =
     (plain_query [JStr ''categories''] ''/api/categories'')\<lparr>qu_stale := StaleNever, qu_select := [''data'']\<rparr>"

definition useDashboard :: query where
  "useDashboard = (plain_query [JStr ''dashboard''] ''/api/dashboard'')\<lparr>qu_stale := StaleMs (60 * 1000)\<rparr>"

definition useCurrentUser :: query where
  "useCurrentUser =
     (plain_query [JStr ''auth'', JStr ''me''] ''/api/auth/me'')\<lparr>qu_stale := StaleMs (5 * 60 * 1000)\<rparr>"

definition useTenant :: query where
  "useTenant = (plain_query [JStr ''tenant''] ''/api/tenant'')\<lparr>qu_stale := StaleMs (5 * 60 * 1000)\<rparr>"

definition useTenantMembers :: query where
  "useTenantMembers =
     (plain_query [JStr ''tenant'', JStr ''members''] ''/api/tenant/members'')
     \<lparr>qu_stale := StaleMs (60 * 1000)\<rparr>"

definition query_fetch :: "'n fetch \<Rightarrow> query \<Rightarrow> 'n client \<Rightarrow> (js_error + jsval) \<times> 'n client" where
  \<comment> \<open>the \<open>queryFn\<close>\<close>
  "query_fetch fetch q w =
     (case apiClient fetch (qu_url q) (api_get_init None) w of
        (Inl e, w') \<Rightarrow> (Inl e, w')
      | (Inr v, w') \<Rightarrow> (js_path v (qu_select q), w'))"

text \<open>The defaults of the query client (frontend/src/main.tsx): a query whose \<open>queryFn\<close> throws is tried once more.\<close>

record query_defaults =
  qd_retry :: nat
  qd_refetchOnWindowFocus :: bool

definition queryClient_defaults :: query_defaults where
  "queryClient_defaults = \<lparr>qd_retry = 1, qd_refetchOnWindowFocus = False\<rparr>"

primrec fetch_tries ::
  "nat \<Rightarrow> 'n fetch \<Rightarrow> query \<Rightarrow> 'n client \<Rightarrow> (js_error + jsval) \<times> 'n client" where
  \<comment> \<open>the first try and at most \<open>n\<close> retries, each a run of the whole \<open>queryFn\<close>: whatever it throws is a reason
    for the next try, also a \<open>TypeError\<close> while it reads the data out of the answer\<close>
  "fetch_tries 0 fetch q w = query_fetch fetch q w"
| "fetch_tries (Suc n) fetch q w =
     (case query_fetch fetch q w of
        (Inl e, w') \<Rightarrow> fetch_tries n fetch q w'
      | (Inr v, w') \<Rightarrow> (Inr v, w'))"

definition fetch_query :: "'n fetch \<Rightarrow> query \<Rightarrow> 'n client \<Rightarrow> (js_error + jsval) \<times> 'n client" where
  "fetch_query fetch q w = fetch_tries (qd_retry queryClient_defaults) fetch q w"

subsection \<open>Mutations\<close>

record 'i mutation =
  mu_path :: "'i \<Rightarrow> string"
  mu_init :: "'i \<Rightarrow> nat option \<Rightarrow> init"
  mu_select :: "string list"
  mu_invalidates :: "'i \<Rightarrow> query_key list"

definition detail_key :: "string \<Rightarrow> query_key" where
  "detail_key i = [JStr ''reports'', JStr ''detail'', JStr i]"

abbreviation "mine_key \<equiv> [JStr ''reports'', JStr ''mine'']"
abbreviation "all_key \<equiv> [JStr ''reports'', JStr ''all'']"
abbreviation "dashboard_key \<equiv> [JStr ''dashboard'']"
abbreviation "pending_key \<equiv> [JStr ''workflow'', JStr ''pending'']"
abbreviation "payable_key \<equiv> [JStr ''workflow'', JStr ''payable'']"

record create_report_input =
  cr_title :: string
  cr_period_start :: string
  cr_period_end :: string
  cr_reference_report_id :: "string option"

definition useCreateReport :: "create_report_input mutation" where
  "useCreateReport =
     \<lparr>mu_path = (\<lambda>_. ''/api/reports''),
      mu_init = (\<lambda>i. api_post_init (PlainPayload (JObj
        ([(''title'', JStr (cr_title i)), (''period_start'', JStr (cr_period_start i)),
          (''period_end'', JStr (cr_period_end i))] @
         (case cr_reference_report_id i of
            Some r \<Rightarrow> if r \<noteq> [] then [(''reference_report_id'', JStr r)] else [] | None \<Rightarrow> []))))),
      mu_select = [''data''],
      mu_invalidates = (\<lambda>_. [mine_key, dashboard_key])\<rparr>"

record update_report_input =
  ur_id :: string
  ur_title :: string
  ur_period_start :: string
  ur_period_end :: string
  ur_updated_at :: string

definition useUpdateReport :: "update_report_input mutation" where
  "useUpdateReport =
     \<lparr>mu_path = (\<lambda>i. ''/api/reports/'' @ ur_id i),
      mu_init = (\<lambda>i. api_put_init (PlainPayload (JObj
        [(''title'', JStr (ur_title i)), (''period_start'', JStr (ur_period_start i)),
         (''period_end'', JStr (ur_period_end i)), (''updated_at'', JStr (ur_updated_at i))]))),
      mu_select = [''data''],
      mu_invalidates = (\<lambda>i. [detail_key (ur_id i), mine_key])\<rparr>"

record versioned_input =
  vi_id :: string
  vi_updated_at :: string

definition useSubmitReport :: "versioned_input mutation" where
  "useSubmitReport =
     \<lparr>mu_path = (\<lambda>i. ''/api/reports/'' @ vi_id i @ ''/submit''),
      mu_init = (\<lambda>i. api_post_init (PlainPayload (JObj [(''updated_at'', JStr (vi_updated_at i))]))),
      mu_select = [''data''],
      mu_invalidates = (\<lambda>i. [detail_key (vi_id i), mine_key, dashboard_key, pending_key])\<rparr>"

definition useDeleteReport :: "string mutation" where
  "useDeleteReport =
     \<lparr>mu_path = (\<lambda>i. ''/api/reports/'' @ i),
      mu_init = (\<lambda>_. api_delete_init),
      mu_select = [],
      mu_invalidates = (\<lambda>_. [mine_key, dashboard_key])\<rparr>"

record approve_input = versioned_input +
  ai_comment :: "string option"

definition useApproveReport :: "approve_input mutation" where
  "useApproveReport =
     \<lparr>mu_path = (\<lambda>i. ''/api/workflow/'' @ vi_id i @ ''/approve''),
      mu_init = (\<lambda>i. api_post_init (PlainPayload (JObj
        ((''updated_at'', JStr (vi_updated_at i)) # key_str ''comment'' (ai_comment i))))),
      mu_select = [],
      mu_invalidates = (\<lambda>i. [detail_key (vi_id i), pending_key, payable_key, dashboard_key])\<rparr>"

record reject_input = versioned_input +
  ri_reason :: string

definition useRejectReport :: "reject_input mutation" where
  "useRejectReport =
     \<lparr>mu_path = (\<lambda>i. ''/api/workflow/'' @ vi_id i @ ''/reject''),
      mu_init = (\<lambda>i. api_post_init (PlainPayload (JObj
        [(''reason'', JStr (ri_reason i)), (''updated_at'', JStr (vi_updated_at i))]))),
      mu_select = [],
      mu_invalidates = (\<lambda>i. [detail_key (vi_id i), pending_key, dashboard_key])\<rparr>"

definition useMarkAsPaid :: "versioned_input mutation" where
  "useMarkAsPaid =
     \<lparr>mu_path = (\<lambda>i. ''/api/workflow/'' @ vi_id i @ ''/pay''),
      mu_init = (\<lambda>i. api_post_init (PlainPayload (JObj [(''updated_at'', JStr (vi_updated_at i))]))),
      mu_select = [],
      mu_invalidates = (\<lambda>i. [detail_key (vi_id i), payable_key, dashboard_key, all_key])\<rparr>"

record item_fields =
  if_expense_date :: string
  if_amount :: int
  if_category_id :: string
  if_description :: string

definition rest_members :: "string list \<Rightarrow> (string \<times> jsval) list \<Rightarrow> (string \<times> jsval) list" where
  \<comment> \<open>\<open>rest\<close> of \<open>const { k, ..., ...rest } = object\<close>: every other member of the object, whatever it is\<close>
  "rest_members ks ms = filter (\<lambda>m. fst m \<notin> set ks) ms"

definition createItem_body :: "(string \<times> jsval) list \<Rightarrow> (string \<times> jsval) list" where
  \<comment> \<open>what the hook sends of the object it is called with\<close>
  "createItem_body ms = rest_members [''reportId''] ms"

definition updateItem_body :: "(string \<times> jsval) list \<Rightarrow> (string \<times> jsval) list" where
  "updateItem_body ms = rest_members [''reportId'', ''itemId''] ms"

definition item_members :: "'a item_fields_scheme \<Rightarrow> (string \<times> jsval) list" where
  "item_members i =
     [(''expense_date'', JStr (if_expense_date i)), (''amount'', JNum (if_amount i)),
      (''category_id'', JStr (if_category_id i)), (''description'', JStr (if_description i))]"

record create_item_input = item_fields +
  ci_reportId :: string

definition create_item_members :: "create_item_input \<Rightarrow> (string \<times> jsval) list" where
  \<comment> \<open>the object that a caller builds\<close>
  "create_item_members i = (''reportId'', JStr (ci_reportId i)) # item_members i"

definition useCreateItem :: "create_item_input mutation" where
  "useCreateItem =
     \<lparr>mu_path = (\<lambda>i. ''/api/reports/'' @ ci_reportId i @ ''/items''),
      mu_init = (\<lambda>i. api_post_init (PlainPayload (JObj (createItem_body (create_item_members i))))),
      mu_select = [''data''],
      mu_invalidates = (\<lambda>i. [detail_key (ci_reportId i)])\<rparr>"

record update_item_input = item_fields +
  ui_updated_at :: string
  ui_reportId :: string
  ui_itemId :: string

definition update_item_members :: "update_item_input \<Rightarrow> (string \<times> jsval) list" where
  "update_item_members i =
     [(''reportId'', JStr (ui_reportId i)), (''itemId'', JStr (ui_itemId i))] @ item_members i @
     [(''updated_at'', JStr (ui_updated_at i))]"

definition useUpdateItem :: "update_item_input mutation" where
  "useUpdateItem =
     \<lparr>mu_path = (\<lambda>i. item_path (ui_reportId i) (ui_itemId i)),
      mu_init = (\<lambda>i. api_put_init (PlainPayload (JObj
        (updateItem_body (update_item_members i))))),
      mu_select = [''data''],
      mu_invalidates = (\<lambda>i. [detail_key (ui_reportId i)])\<rparr>"

definition useDeleteItem :: "(string \<times> string) mutation" where
  "useDeleteItem =
     \<lparr>mu_path = (\<lambda>(r, i). item_path r i), mu_init = (\<lambda>_. api_delete_init), mu_select = [],
      mu_invalidates = (\<lambda>(r, i). [detail_key r])\<rparr>"

record upload_params =
  up_reportId :: string
  up_itemId :: string
  up_file :: upload_file

definition useUploadAttachment :: "upload_params mutation" where
  "useUploadAttachment =
     \<lparr>mu_path = (\<lambda>p. attachments_path (up_reportId p) (up_itemId p)),
      mu_init = (\<lambda>p. api_post_init (FormPayload [(''file'', up_file p)])),
      mu_select = [],
      mu_invalidates = (\<lambda>p. [detail_key (up_reportId p), attachments_key (up_reportId p) (up_itemId p)])\<rparr>"

record delete_params =
  dp_reportId :: string
  dp_itemId :: string
  dp_attId :: string

definition useDeleteAttachment :: "delete_params mutation" where
  "useDeleteAttachment =
     \<lparr>mu_path = (\<lambda>p. attachments_path (dp_reportId p) (dp_itemId p) @ ''/'' @ dp_attId p),
      mu_init = (\<lambda>_. api_delete_init),
      mu_select = [],
      mu_invalidates = (\<lambda>p. [detail_key (dp_reportId p), attachments_key (dp_reportId p) (dp_itemId p)])\<rparr>"

definition useRequestPasswordReset :: "string mutation" where
  "useRequestPasswordReset =
     \<lparr>mu_path = (\<lambda>_. ''/api/auth/password-reset''),
      mu_init = (\<lambda>email. api_post_init (PlainPayload (JObj [(''email'', JStr email)]))),
      mu_select = [''data''], mu_invalidates = (\<lambda>_. [])\<rparr>"

definition useExecutePasswordReset :: "(string \<times> string) mutation" where
  "useExecutePasswordReset =
     \<lparr>mu_path = (\<lambda>(tok, _). ''/api/auth/password-reset/'' @ tok),
      mu_init = (\<lambda>(_, pw). api_put_init (PlainPayload (JObj [(''new_password'', JStr pw)]))),
      mu_select = [''data''], mu_invalidates = (\<lambda>_. [])\<rparr>"

subsection \<open>The cache\<close>

datatype entry = Fresh jsval | Stale jsval

type_synonym cache = "query_key \<Rightarrow> entry option"

type_synonym matcher = "query_key \<Rightarrow> query_key \<Rightarrow> bool"

fun entry_value :: "entry \<Rightarrow> jsval" where
  "entry_value (Fresh v) = v"
| "entry_value (Stale v) = v"

definition invalidateQueries :: "matcher \<Rightarrow> query_key \<Rightarrow> cache \<Rightarrow> cache" where
  "invalidateQueries matches flt c =
     (\<lambda>k. if matches flt k then map_option (\<lambda>e. Stale (entry_value e)) (c k) else c k)"

definition invalidate_all :: "matcher \<Rightarrow> query_key list \<Rightarrow> cache \<Rightarrow> cache" where
  "invalidate_all matches flts c = foldl (\<lambda>c flt. invalidateQueries matches flt c) c flts"

definition clear_cache :: cache where
  "clear_cache = (\<lambda>_. None)"

definition mutation_fn ::
  "'n fetch \<Rightarrow> 'i mutation \<Rightarrow> 'i \<Rightarrow> nat option \<Rightarrow> 'n client \<Rightarrow> (js_error + jsval) \<times> 'n client" where
  "mutation_fn fetch m i sig w =
     (case apiClient fetch (mu_path m i) (mu_init m i sig) w of
        (Inl e, w') \<Rightarrow> (Inl e, w')
      | (Inr v, w') \<Rightarrow> (js_path v (mu_select m), w'))"

definition run_mutation ::
  "matcher \<Rightarrow> 'n fetch \<Rightarrow> 'i mutation \<Rightarrow> 'i \<Rightarrow> nat option \<Rightarrow> 'n client \<times> cache \<Rightarrow>
     (js_error + jsval) \<times> 'n client \<times> cache" where
  \<comment> \<open>the \<open>mutationFn\<close>, then \<open>onSuccess\<close>\<close>
  "run_mutation matches fetch m i sig x =
     (case mutation_fn fetch m i sig (fst x) of
        (Inl e, w') \<Rightarrow> (Inl e, w', snd x)
      | (Inr v, w') \<Rightarrow> (Inr v, w', invalidate_all matches (mu_invalidates m i) (snd x)))"

subsection \<open>Login, signup and logout\<close>

definition me_key :: query_key where
  "me_key = [JStr ''auth'', JStr ''me'']"

definition credentials_post :: "string \<Rightarrow> (string \<times> jsval) list mutation" where
  "credentials_post path =
     \<lparr>mu_path = (\<lambda>_. path), mu_init = (\<lambda>b. api_post_init (PlainPayload (JObj b))),
      mu_select = [''data''], mu_invalidates = (\<lambda>_. [])\<rparr>"

definition prefetch :: "'n fetch \<Rightarrow> query \<Rightarrow> 'n client \<times> cache \<Rightarrow> 'n client \<times> cache" where
  \<comment> \<open>\<open>prefetchQuery\<close> with its result arriving: no stale time, so it always fetches, with the client's default of
    retries; errors are swallowed\<close>
  "prefetch fetch q x =
     (case fetch_query fetch q (fst x) of
        (Inl e, w') \<Rightarrow> (w', snd x)
      | (Inr v, w') \<Rightarrow> (w', (snd x)(qu_key q \<mapsto> Fresh v)))"

definition auth_success ::
  "matcher \<Rightarrow> 'n fetch \<Rightarrow> jsval \<Rightarrow> 'n client \<times> cache \<Rightarrow> (js_error + jsval) \<times> 'n client \<times> cache" where
  \<comment> \<open>\<open>onSuccess\<close> of login and signup\<close>
  "auth_success matches fetch data x =
     (case (js_get data ''access_token'', js_get data ''refresh_token'') of
        (Inr acc, Inr ref) \<Rightarrow>
          (let w1 = (fst x)\<lparr>auth := setTokens acc ref (auth (fst x))\<rparr>;
               c1 = invalidateQueries matches me_key (snd x)
           in (Inr data, prefetch fetch useCurrentUser (w1, c1)))
      | _ \<Rightarrow> (Inl type_error, x))"

definition authenticate ::
  "string \<Rightarrow> matcher \<Rightarrow> 'n fetch \<Rightarrow> (string \<times> jsval) list \<Rightarrow> 'n client \<times> cache \<Rightarrow>
     (js_error + jsval) \<times> 'n client \<times> cache" where
  "authenticate path matches fetch body x =
     (case mutation_fn fetch (credentials_post path) body None (fst x) of
        (Inl e, w') \<Rightarrow> (Inl e, w', snd x)
      | (Inr v, w') \<Rightarrow> auth_success matches fetch v (w', snd x))"

definition useLogin where
  "useLogin = authenticate ''/api/auth/login''"

definition useSignup where
  "useSignup = authenticate ''/api/auth/signup''"

definition useLogout :: "'n fetch \<Rightarrow> 'n client \<times> cache \<Rightarrow> (js_error + jsval) \<times> 'n client \<times> cache" where
  "useLogout fetch x =
     (let rt = getRefreshToken (auth (fst x));
          (res, w1) = (if js_truthy rt
             then (case apiClient fetch ''/api/auth/logout''
                     (api_post_init (PlainPayload (JObj [(''refresh_token'', rt)])) None) (fst x) of
                   (Inl e, w') \<Rightarrow> (Inl e, w') | (Inr v, w') \<Rightarrow> (Inr Undefined, w'))
             else (Inr Undefined, fst x))
      in (res, w1\<lparr>auth := clearTokens (auth w1)\<rparr>, clear_cache))"

subsection \<open>Invalidation\<close>

definition stale_in :: "cache \<Rightarrow> query_key \<Rightarrow> bool" where
  \<comment> \<open>the entry, if there is one, is fetched again before it is used as fresh\<close>
  "stale_in c k \<longleftrightarrow> (case c k of Some (Fresh _) \<Rightarrow> False | _ \<Rightarrow> True)"

definition prefix_matcher :: "matcher \<Rightarrow> bool" where
  \<comment> \<open>documented behaviour: a filter key matches every key it is a prefix of\<close>
  "prefix_matcher matches \<longleftrightarrow> (\<forall>f k. prefix f k \<longrightarrow> matches f k)"

definition strict_matcher :: "matcher \<Rightarrow> bool" where
  \<comment> \<open>and, for filter keys that are strings only, no other key\<close>
  "strict_matcher matches \<longleftrightarrow> (\<forall>f k. (\<forall>x \<in> set f. \<exists>s. x = JStr s) \<longrightarrow> matches f k \<longrightarrow> prefix f k)"

lemma stale_invalidate: "stale_in c k \<Longrightarrow> stale_in (invalidateQueries matches f c) k"
  by (auto simp: stale_in_def invalidateQueries_def split: option.splits entry.splits)

lemma stale_invalidate_hit: "matches f k \<Longrightarrow> stale_in (invalidateQueries matches f c) k"
  by (auto simp: stale_in_def invalidateQueries_def split: option.splits)

lemma stale_keeps: "stale_in c k \<Longrightarrow> stale_in (invalidate_all matches fs c) k"
  by (induction fs arbitrary: c) (simp_all add: invalidate_all_def stale_invalidate)

lemma stale_hit:
  assumes "prefix_matcher matches" "f \<in> set fs" "prefix f k"
  shows "stale_in (invalidate_all matches fs c) k"
  using assms(2)
proof (induction fs arbitrary: c)
  case (Cons g fs)
  have step: "invalidate_all matches (g # fs) c = invalidate_all matches fs (invalidateQueries matches g c)"
    by (simp add: invalidate_all_def)
  show ?case
  proof (cases "f = g")
    case True
    then have "matches g k" using assms by (simp add: prefix_matcher_def)
    then show ?thesis unfolding step by (intro stale_keeps stale_invalidate_hit)
  next
    case False
    then show ?thesis unfolding step using Cons by simp
  qed
qed simp

lemma untouched:
  "(\<And>f. f \<in> set fs \<Longrightarrow> \<not> matches f k) \<Longrightarrow> invalidate_all matches fs c k = c k"
  by (induction fs arbitrary: c) (simp_all add: invalidate_all_def invalidateQueries_def)

lemma run_mutation_ok:
  "run_mutation matches fetch m i sig (w, c) = (Inr v, w', c') \<Longrightarrow>
   c' = invalidate_all matches (mu_invalidates m i) c"
  by (auto simp: run_mutation_def split: prod.splits sum.splits)

lemma run_mutation_err:
  "run_mutation matches fetch m i sig (w, c) = (Inl e, w', c') \<Longrightarrow> c' = c"
  by (auto simp: run_mutation_def split: prod.splits sum.splits)

lemma run_mutation_stale:
  assumes "prefix_matcher matches" "run_mutation matches fetch m i sig (w, c) = (Inr v, w', c')"
    "list_ex (\<lambda>f. prefix f k) (mu_invalidates m i)"
  shows "stale_in c' k"
  using stale_hit [OF assms(1)] run_mutation_ok [OF assms(2)] assms(3) by (auto simp: list_ex_iff)

lemmas query_defs = useMyReports_def useReport_def usePendingReports_def usePayableReports_def
  useProcessedReports_def useAllReports_def useAttachments_def useAttachmentDownloadUrl_def
  useAttachmentPreviewUrl_def useCategories_def useDashboard_def useCurrentUser_def useTenant_def
  useTenantMembers_def plain_query_def attachments_key_def detail_key_def Let_def

lemmas mutation_defs = useCreateReport_def useUpdateReport_def useSubmitReport_def useDeleteReport_def
  useApproveReport_def useRejectReport_def useMarkAsPaid_def useCreateItem_def useUpdateItem_def
  useDeleteItem_def useUploadAttachment_def useDeleteAttachment_def

lemma default_pages: "show_int 1 = ''1''" "show_int 20 = ''20''"
  by code_simp+

text \<open>Prefix matching is one such matcher; a cache in which everything is fresh.\<close>

lemma prefix_is_matcher: "prefix_matcher prefix" "strict_matcher prefix"
  by (simp_all add: prefix_matcher_def strict_matcher_def)

definition all_fresh :: cache where
  "all_fresh = (\<lambda>_. Some (Fresh JNull))"

lemma demo_mutation:
  assumes "mu_path m i \<noteq> ''/api/auth/login''" "mu_path m i \<noteq> ''/api/auth/refresh''"
  shows "\<exists>w'. run_mutation prefix playback m i sig
      (logged_in [answer 200 (JObj [(''data'', JObj [])])], all_fresh)
    = (js_path (JObj [(''data'', JObj [])]) (mu_select m), w',
       if isl (js_path (JObj [(''data'', JObj [])]) (mu_select m)) then all_fresh
       else invalidate_all prefix (mu_invalidates m i) all_fresh)"
  by (auto simp: run_mutation_def mutation_fn_def call_eval split: sum.splits)

subsection \<open>Properties\<close>

text \<open>
  After a successful submission no screen keeps showing the report as a draft: the cached detail
  of the report, every cached page of the own list and of the approval list, with any filter, and
  the dashboard are stale.
\<close>

theorem submit_refreshes_views:
  assumes "prefix_matcher matches"
    and "run_mutation matches fetch useSubmitReport i sig (w, c) = (Inr v, w', c')"
  shows "stale_in c' (qu_key (useReport (Some (vi_id i)))) \<and> stale_in c' (qu_key (useMyReports mp)) \<and>
    stale_in c' (qu_key (usePendingReports wp)) \<and> stale_in c' (qu_key useDashboard)"
  by (intro conjI; rule run_mutation_stale [OF assms]; simp add: query_defs useSubmitReport_def)

theorem submit_refreshes_views_witness:
  "\<exists>v w' c'. run_mutation prefix playback useSubmitReport \<lparr>vi_id = ''r1'', vi_updated_at = ''t''\<rparr> None
      (logged_in [answer 200 (JObj [(''data'', JObj [])])], all_fresh) = (Inr v, w', c') \<and>
    stale_in c' (detail_key ''r1'') \<and> \<not> stale_in c' (detail_key ''r2'')"
proof -
  let ?i = "\<lparr>vi_id = ''r1'', vi_updated_at = ''t''\<rparr>"
  obtain w' c' where r: "run_mutation prefix playback useSubmitReport ?i None
      (logged_in [answer 200 (JObj [(''data'', JObj [])])], all_fresh) = (Inr (JObj []), w', c')"
    using demo_mutation [of useSubmitReport ?i None] by (auto simp: useSubmitReport_def)
  have "\<not> stale_in c' (detail_key ''r2'')"
    using run_mutation_ok [OF r]
    by (simp add: useSubmitReport_def detail_key_def stale_in_def untouched all_fresh_def
        invalidate_all_def invalidateQueries_def)
  then show ?thesis using r submit_refreshes_views [OF prefix_is_matcher(1) r]
    by (auto simp: useReport_def plain_query_def detail_key_def)
qed

text \<open>
  After a successful decision the report's own detail and the dashboard are stale, and so is every
  cached page of the list the report leaves: the approval list after an approval or a rejection, the
  payment list after a payment. An approval also makes the payment list stale, which the report
  enters, and a payment the list of all reports.
\<close>

theorem decisions_refresh_views:
  assumes "prefix_matcher matches"
  shows "(\<forall>v w' c'. run_mutation matches fetch useApproveReport ai sig (w, c) = (Inr v, w', c') \<longrightarrow>
      stale_in c' (qu_key (useReport (Some (vi_id ai)))) \<and> stale_in c' (qu_key useDashboard) \<and>
      stale_in c' (qu_key (usePendingReports wp)) \<and> stale_in c' (qu_key (usePayableReports wp))) \<and>
    (\<forall>v w' c'. run_mutation matches fetch useRejectReport ri sig (w, c) = (Inr v, w', c') \<longrightarrow>
      stale_in c' (qu_key (useReport (Some (vi_id ri)))) \<and> stale_in c' (qu_key useDashboard) \<and>
      stale_in c' (qu_key (usePendingReports wp))) \<and>
    (\<forall>v w' c'. run_mutation matches fetch useMarkAsPaid vi sig (w, c) = (Inr v, w', c') \<longrightarrow>
      stale_in c' (qu_key (useReport (Some (vi_id vi)))) \<and> stale_in c' (qu_key useDashboard) \<and>
      stale_in c' (qu_key (usePayableReports wp)) \<and> stale_in c' (qu_key (useAllReports ap)))"
  by (intro conjI allI impI;
      erule run_mutation_stale [OF assms]; simp add: query_defs mutation_defs)

theorem decisions_refresh_views_witness:
  "\<exists>v w' c'. run_mutation prefix playback useMarkAsPaid \<lparr>vi_id = ''r1'', vi_updated_at = ''t''\<rparr> None
      (logged_in [answer 200 (JObj [(''data'', JObj [])])], all_fresh) = (Inr v, w', c') \<and>
    stale_in c' (detail_key ''r1'') \<and> stale_in c' dashboard_key"
proof -
  let ?i = "\<lparr>vi_id = ''r1'', vi_updated_at = ''t''\<rparr>"
  obtain w' c' where r: "run_mutation prefix playback useMarkAsPaid ?i None
      (logged_in [answer 200 (JObj [(''data'', JObj [])])], all_fresh)
      = (Inr (JObj [(''data'', JObj [])]), w', c')"
    using demo_mutation [of useMarkAsPaid ?i None] by (auto simp: useMarkAsPaid_def)
  then show ?thesis
    using decisions_refresh_views [OF prefix_is_matcher(1), of playback _ None _ all_fresh _ _ ?i]
    by (fastforce simp: useReport_def useDashboard_def plain_query_def detail_key_def)
qed

text \<open>
  After an attachment is uploaded or deleted, the item's attachment list, the detail of its report
  and every signed URL cached for an attachment of the item are stale; if the request fails, the cache
  is as before.
\<close>

theorem attachment_changes_refresh_list:
  assumes "prefix_matcher matches"
    and "run_mutation matches fetch useDeleteAttachment p sig (w, c) = (res, w', c')"
  shows "case res of
      Inl e \<Rightarrow> c' = c
    | Inr v \<Rightarrow> stale_in c' (qu_key (useReport (Some (dp_reportId p)))) \<and>
        stale_in c' (qu_key (useAttachments (dp_reportId p) (dp_itemId p))) \<and>
        stale_in c' (qu_key (useAttachmentDownloadUrl (dp_reportId p) (dp_itemId p) att)) \<and>
        stale_in c' (qu_key (useAttachmentPreviewUrl (dp_reportId p) (dp_itemId p) att))"
proof (cases res)
  case (Inl e)
  then show ?thesis using run_mutation_err assms(2) by fastforce
next
  case (Inr v)
  show ?thesis unfolding Inr sum.case
    by (intro conjI; rule run_mutation_stale [OF assms(1) assms(2) [unfolded Inr]];
        simp add: query_defs mutation_defs)
qed

theorem attachment_changes_refresh_list_witness:
  "\<exists>v w' c'. run_mutation prefix playback useDeleteAttachment
      \<lparr>dp_reportId = ''r'', dp_itemId = ''i'', dp_attId = ''a''\<rparr> (Some 0)
      (logged_in [answer 200 (JObj [(''data'', JObj [])])], all_fresh) = (Inr v, w', c') \<and>
    stale_in c' (qu_key (useAttachments ''r'' ''i''))"
proof -
  let ?p = "\<lparr>dp_reportId = ''r'', dp_itemId = ''i'', dp_attId = ''a''\<rparr>"
  obtain w' c' where r: "run_mutation prefix playback useDeleteAttachment ?p (Some 0)
      (logged_in [answer 200 (JObj [(''data'', JObj [])])], all_fresh)
      = (Inr (JObj [(''data'', JObj [])]), w', c')"
    using demo_mutation [of useDeleteAttachment ?p "Some 0"]
    by (auto simp: useDeleteAttachment_def attachments_path_def item_path_def)
  then show ?thesis using attachment_changes_refresh_list [OF prefix_is_matcher(1) r] by simp
qed

text \<open>
  Invalidation is confined to its report: with a matcher that matches string keys by prefix only,
  no change of one report makes the cached detail of another report stale.
\<close>

theorem other_reports_stay_cached:
  assumes "strict_matcher matches" and "other \<noteq> vi_id i"
    and "run_mutation matches fetch useMarkAsPaid i sig (w, c) = (Inr v, w', c')"
  shows "c' (detail_key other) = c (detail_key other)"
proof -
  have "\<not> matches f (detail_key other)" if f: "f \<in> set (mu_invalidates useMarkAsPaid i)" for f
  proof
    assume "matches f (detail_key other)"
    moreover have "\<forall>x \<in> set f. \<exists>s. x = JStr s"
      using f by (auto simp: mutation_defs detail_key_def)
    ultimately have "prefix f (detail_key other)" using assms(1) by (simp add: strict_matcher_def)
    then show False using f assms(2) by (auto simp: mutation_defs detail_key_def)
  qed
  then show ?thesis using run_mutation_ok [OF assms(3)] by (simp add: untouched)
qed

theorem other_reports_stay_cached_witness:
  "\<exists>v w' c'. run_mutation prefix playback useMarkAsPaid \<lparr>vi_id = ''r1'', vi_updated_at = ''t''\<rparr> None
      (logged_in [answer 200 (JObj [(''data'', JObj [])])], all_fresh) = (Inr v, w', c') \<and>
    c' (detail_key ''r2'') = Some (Fresh JNull)"
proof -
  let ?i = "\<lparr>vi_id = ''r1'', vi_updated_at = ''t''\<rparr>"
  obtain w' c' where r: "run_mutation prefix playback useMarkAsPaid ?i None
      (logged_in [answer 200 (JObj [(''data'', JObj [])])], all_fresh)
      = (Inr (JObj [(''data'', JObj [])]), w', c')"
    using demo_mutation [of useMarkAsPaid ?i None] by (auto simp: useMarkAsPaid_def)
  have "c' (detail_key ''r2'') = all_fresh (detail_key ''r2'')"
    by (rule other_reports_stay_cached [OF prefix_is_matcher(2) _ r]) simp
  with r show ?thesis by (simp add: all_fresh_def)
qed

text \<open>
  An approval leaves the list of processed reports as it is cached: with a matcher that matches
  string keys by prefix only, no page of it becomes stale, although the approved report now belongs
  to it.
\<close>

theorem approval_keeps_processed_list:
  assumes "strict_matcher matches"
    and "run_mutation matches fetch useApproveReport i sig (w, c) = (Inr v, w', c')"
  shows "c' (qu_key (useProcessedReports pg pp)) = c (qu_key (useProcessedReports pg pp))"
proof -
  let ?k = "qu_key (useProcessedReports pg pp)"
  have "\<not> matches f ?k" if f: "f \<in> set (mu_invalidates useApproveReport i)" for f
  proof
    assume "matches f ?k"
    moreover have "\<forall>x \<in> set f. \<exists>s. x = JStr s"
      using f by (auto simp: mutation_defs detail_key_def)
    ultimately have "prefix f ?k" using assms(1) by (simp add: strict_matcher_def)
    then show False using f by (auto simp: mutation_defs query_defs)
  qed
  then show ?thesis using run_mutation_ok [OF assms(2)] by (simp add: untouched)
qed

theorem approval_keeps_processed_list_witness:
  "\<exists>v w' c'. run_mutation prefix playback useApproveReport
      \<lparr>vi_id = ''r1'', vi_updated_at = ''t'', ai_comment = None\<rparr> None
      (logged_in [answer 200 (JObj [(''data'', JObj [])])], all_fresh) = (Inr v, w', c') \<and>
    \<not> stale_in c' (qu_key (useProcessedReports (Some (Num 1)) None))"
proof -
  let ?i = "\<lparr>vi_id = ''r1'', vi_updated_at = ''t'', ai_comment = None\<rparr>"
  obtain w' c' where r: "run_mutation prefix playback useApproveReport ?i None
      (logged_in [answer 200 (JObj [(''data'', JObj [])])], all_fresh)
      = (Inr (JObj [(''data'', JObj [])]), w', c')"
    using demo_mutation [of useApproveReport ?i None] by (auto simp: useApproveReport_def)
  have "c' (qu_key (useProcessedReports (Some (Num 1)) None))
      = all_fresh (qu_key (useProcessedReports (Some (Num 1)) None))"
    by (rule approval_keeps_processed_list [OF prefix_is_matcher(2) r])
  with r show ?thesis by (simp add: all_fresh_def stale_in_def)
qed

text \<open>
  Logging out always works on the client: whatever the server answers, and even if the network
  fails, the tokens are gone, the user is not authenticated, and no query of the previous user is left
  in the cache.
\<close>

theorem logout_always_clears:
  assumes "useLogout fetch (w, c) = (res, w', c')"
  shows "getAccessToken (auth w') = JNull \<and> getRefreshToken (auth w') = JNull \<and>
    \<not> useAuth (auth w') \<and> c' k = None"
  using assms by (auto simp: useLogout_def Let_def clear_cache_def useAuth_def split: prod.splits)

theorem logout_always_clears_witness:
  "\<exists>e w' c'. useLogout playback (logged_in [Failed type_error], all_fresh) = (Inl e, w', c') \<and>
     \<not> useAuth (auth w') \<and> c' me_key = None"
proof -
  obtain w' c' where r: "useLogout playback (logged_in [Failed type_error], all_fresh) = (Inl type_error, w', c')"
    by (simp add: useLogout_def call_eval)
  then show ?thesis using logout_always_clears [OF r, of me_key] by simp
qed

text \<open>
  A login that the server refuses leaves the session as it was: the error reaches the form, the
  stored tokens, the location and the cache are unchanged, and no refresh is attempted.
\<close>

theorem refused_login_changes_nothing:
  assumes "useLogin matches fetch body (w, c) = (Inl e, w', c')"
    and "fetch (first_request ''/api/auth/login'' (api_post_init (PlainPayload (JObj body)) None) (auth w))
      (net w) = (Resp r, n)" and "rs_code r = 401"
  shows "auth w' = auth w \<and> href w' = href w \<and> c' = c \<and> e = handleErrorResponse r \<and>
    sent w' = sent w @ [first_request ''/api/auth/login'' (api_post_init (PlainPayload (JObj body)) None) (auth w)]"
  using assms
  by (auto simp: useLogin_def authenticate_def mutation_fn_def credentials_post_def apiClient_def
      Let_def send_def first_request_def after_first_def isAuthEndpoint_def split: prod.splits)

theorem refused_login_changes_nothing_witness:
  "\<exists>e w' c'. useLogin prefix playback [] (logged_in [answer 401 Undefined], all_fresh) = (Inl e, w', c') \<and>
     auth w' = auth (logged_in []) \<and> c' = all_fresh"
proof -
  let ?w = "logged_in [answer 401 Undefined]"
  let ?rq = "first_request ''/api/auth/login'' (api_post_init (PlainPayload (JObj [])) None) (auth ?w)"
  obtain e w' c' where r: "useLogin prefix playback [] (?w, all_fresh) = (Inl e, w', c')"
    by (simp add: useLogin_def authenticate_def mutation_fn_def credentials_post_def call_eval)
  have f: "playback ?rq (net ?w) = (answer 401 Undefined, [])"
    by (simp add: playback_def logged_in_def)
  show ?thesis using r refused_login_changes_nothing [OF r f] by (simp add: logged_in_def)
qed

text \<open>
  The URL of a list carries its parameters exactly: reading the query string that
  \<open>useAllReports\<close> sends gives back the page, the page size and the filters that are set, whatever
  characters they contain.
\<close>

theorem all_reports_url_roundtrip:
  "\<exists>qs. qu_url (useAllReports p) = ''/api/reports/all?'' @ qs \<and>
     up_get ''page'' (parse_search qs) = Some (case ap_page p of None \<Rightarrow> ''1'' | Some n \<Rightarrow> jsnum_string n) \<and>
     up_get ''per_page'' (parse_search qs) =
       Some (case ap_per_page p of None \<Rightarrow> ''20'' | Some n \<Rightarrow> jsnum_string n) \<and>
     up_get ''status'' (parse_search qs) = (if truthy_opt (ap_status p) then ap_status p else None) \<and>
     up_get ''submitter_id'' (parse_search qs) =
       (if truthy_opt (ap_submitter_id p) then ap_submitter_id p else None)"
proof -
  define pg where "pg = (case ap_page p of None \<Rightarrow> Num 1 | Some n \<Rightarrow> n)"
  define pp where "pp = (case ap_per_page p of None \<Rightarrow> Num 20 | Some n \<Rightarrow> n)"
  define sp where "sp = [(''page'', jsnum_string pg), (''per_page'', jsnum_string pp)] @
    set_truthy ''status'' (ap_status p) @ set_truthy_val ''from'' (ap_from p) @
    set_truthy_val ''to'' (ap_to p) @ set_truthy ''submitter_id'' (ap_submitter_id p)"
  have url: "qu_url (useAllReports p) = ''/api/reports/all?'' @ search_string sp"
    by (simp add: useAllReports_def Let_def plain_query_def sp_def pg_def pp_def del: search_string.simps)
  have num: "jsnum_string pg = (case ap_page p of None \<Rightarrow> ''1'' | Some n \<Rightarrow> jsnum_string n)"
    "jsnum_string pp = (case ap_per_page p of None \<Rightarrow> ''20'' | Some n \<Rightarrow> jsnum_string n)"
    by (simp_all add: pg_def pp_def default_pages split: option.split)
  show ?thesis
    by (rule exI [of _ "search_string sp"], simp only: url parse_search_string num [symmetric])
      (auto simp: sp_def up_get_append set_truthy_def set_truthy_val_def truthy_opt_def
        split: option.splits)
qed

end
