(* ===== verification/Abort_Hooks.thy ===== *)
theory Abort_Hooks
  imports Query_Hooks
begin

text \<open>
  Cancellable mutations (frontend/src/hooks/useUploadAttachment.ts and useDeleteAttachment.ts). Both
  hooks hold an \<open>AbortController\<close> in a ref that the \<open>mutate\<close> wrapper sets, the mutation function
  reads, and cancelling, unmounting and settling clear. The library starts the mutation function
  some time after \<open>mutate\<close>, so a started mutation is first queued. Both hooks have the same code
  around their mutation, which is the argument \<open>m\<close> of the operations.
\<close>

subsection \<open>State and operations\<close>

record 'i hook =
  abortController :: "nat option"
  next_controller :: nat
  aborted :: "nat list"
  next_mutation :: nat
  queued :: "(nat \<times> 'i) list"
  in_flight :: "(nat \<times> 'i \<times> nat option) list"
  requests :: "(string \<times> init) list"
  notices :: nat
  invalidated :: "query_key list"

definition fresh_hook :: "'i hook" where
  "fresh_hook = \<lparr>abortController = None, next_controller = 0, aborted = [], next_mutation = 0,
     queued = [], in_flight = [], requests = [], notices = 0, invalidated = []\<rparr>"

definition abort_current :: "'i hook \<Rightarrow> 'i hook" where
  "abort_current h =
     (case abortController h of None \<Rightarrow> h | Some c \<Rightarrow> h\<lparr>aborted := aborted h @ [c]\<rparr>)"

definition hook_mutate :: "'i \<Rightarrow> 'i hook \<Rightarrow> 'i hook" where
  "hook_mutate p h =
     (let h1 = abort_current h;
          h2 = h1\<lparr>abortController := Some (next_controller h1), next_controller := Suc (next_controller h1)\<rparr>
      in h2\<lparr>queued := queued h2 @ [(next_mutation h2, p)], next_mutation := Suc (next_mutation h2)\<rparr>)"

definition hook_run_fn :: "'i mutation \<Rightarrow> 'i hook \<Rightarrow> 'i hook" where
  \<comment> \<open>the library calls the mutation function of the oldest queued mutation\<close>
  "hook_run_fn m h =
     (case queued h of
        [] \<Rightarrow> h
      | (k, p) # rest \<Rightarrow>
          let sig = abortController h
          in h\<lparr>queued := rest, in_flight := in_flight h @ [(k, p, sig)],
               requests := requests h @ [(mu_path m p, mu_init m p sig)]\<rparr>)"

definition hook_settle :: "'i mutation \<Rightarrow> nat \<Rightarrow> js_error + jsval \<Rightarrow> 'i hook \<Rightarrow> 'i hook" where
  \<comment> \<open>\<open>onSuccess\<close> when it resolves, then \<open>onSettled\<close>\<close>
  "hook_settle m k res h =
     (case map_of (in_flight h) k of
        None \<Rightarrow> h
      | Some (p, sig) \<Rightarrow>
          let h1 = h\<lparr>in_flight := filter (\<lambda>x. fst x \<noteq> k) (in_flight h)\<rparr>;
              h2 = (case res of Inl _ \<Rightarrow> h1
                    | Inr _ \<Rightarrow> h1\<lparr>invalidated := invalidated h1 @ mu_invalidates m p\<rparr>)
          in h2\<lparr>abortController := None\<rparr>)"

definition hook_cancel :: "'i hook \<Rightarrow> 'i hook" where
  "hook_cancel h =
     (if abortController h \<noteq> None then (abort_current h)\<lparr>abortController := None\<rparr> else h)"

definition hook_unmount :: "'i hook \<Rightarrow> 'i hook" where
  "hook_unmount h =
     (if abortController h \<noteq> None
      then (let h1 = (abort_current h)\<lparr>abortController := None\<rparr> in h1\<lparr>notices := Suc (notices h1)\<rparr>)
      else h)"

datatype 'i hook_event = Mutate 'i | RunFn | Settle nat "js_error + jsval" | Cancel | Unmount

fun hook_step :: "'i mutation \<Rightarrow> 'i hook_event \<Rightarrow> 'i hook \<Rightarrow> 'i hook" where
  "hook_step m (Mutate p) h = hook_mutate p h"
| "hook_step m RunFn h = hook_run_fn m h"
| "hook_step m (Settle k res) h = hook_settle m k res h"
| "hook_step m Cancel h = hook_cancel h"
| "hook_step m Unmount h = hook_unmount h"

definition hook_run :: "'i mutation \<Rightarrow> 'i hook_event list \<Rightarrow> 'i hook" where
  "hook_run m es = foldl (\<lambda>h e. hook_step m e h) fresh_hook es"

definition upload_step :: "upload_params hook_event \<Rightarrow> upload_params hook \<Rightarrow> upload_params hook" where
  "upload_step = hook_step useUploadAttachment"

definition delete_step :: "delete_params hook_event \<Rightarrow> delete_params hook \<Rightarrow> delete_params hook" where
  "delete_step = hook_step useDeleteAttachment"

lemmas hook_defs = abort_current_def hook_mutate_def hook_run_fn_def hook_settle_def hook_cancel_def
  hook_unmount_def Let_def

subsection \<open>The contract with the components\<close>

locale cancellable =
  fixes step :: "'i hook_event \<Rightarrow> 's \<Rightarrow> 's" and armed :: "'s \<Rightarrow> bool" and notified :: "'s \<Rightarrow> nat"
    and busy :: "'s \<Rightarrow> nat \<Rightarrow> bool"
  assumes mutate_arms: "armed (step (Mutate p) s)"
    and run_keeps: "armed (step RunFn s) \<longleftrightarrow> armed s"
    and settle_disarms: "busy s k \<Longrightarrow> \<not> armed (step (Settle k res) s)"
    and cancel_disarms: "\<not> armed (step Cancel s)"
    and unmount_disarms: "\<not> armed (step Unmount s)"
    and unmount_notifies: "notified (step Unmount s) = (if armed s then Suc (notified s) else notified s)"
    and silent: "e \<noteq> Unmount \<Longrightarrow> notified (step e s) = notified s"
begin

lemma cancel_then_unmount_silent: "notified (step Unmount (step Cancel s)) = notified s"
  by (simp add: unmount_notifies cancel_disarms silent)

lemma settle_then_unmount_silent:
  "busy s k \<Longrightarrow> notified (step Unmount (step (Settle k res) s)) = notified s"
  by (simp add: unmount_notifies settle_disarms silent)

lemma mutate_then_unmount_notifies: "notified (step Unmount (step (Mutate p) s)) = Suc (notified s)"
  by (simp add: unmount_notifies mutate_arms silent)

lemma unmount_twice_notifies_once:
  "notified (step Unmount (step Unmount s)) = notified (step Unmount s)"
  by (simp add: unmount_notifies [of "step Unmount s"] unmount_disarms)

lemma notices_count_unmounts:
  "notified (foldl (\<lambda>s e. step e s) s es) \<le> notified s + length (filter ((=) Unmount) es)"
proof (induction es arbitrary: s)
  case (Cons e es)
  have "notified (step e s) \<le> notified s + (if e = Unmount then 1 else 0)"
    by (cases "e = Unmount") (auto simp: unmount_notifies silent)
  then show ?case using Cons.IH [of "step e s"] by (auto intro: order_trans)
qed simp

end

abbreviation hook_armed :: "'i hook \<Rightarrow> bool" where
  "hook_armed h \<equiv> abortController h \<noteq> None"

abbreviation hook_busy :: "'i hook \<Rightarrow> nat \<Rightarrow> bool" where
  "hook_busy h k \<equiv> k \<in> fst ` set (in_flight h)"

lemma abort_current_simps [simp]:
  "abortController (abort_current h) = abortController h" "notices (abort_current h) = notices h"
  "queued (abort_current h) = queued h" "in_flight (abort_current h) = in_flight h"
  "requests (abort_current h) = requests h" "next_controller (abort_current h) = next_controller h"
  "next_mutation (abort_current h) = next_mutation h" "invalidated (abort_current h) = invalidated h"
  "set (aborted (abort_current h)) = set (aborted h) \<union> set_option (abortController h)"
  by (auto simp: abort_current_def split: option.split)

lemma hook_busy_map_of: "hook_busy h k \<longleftrightarrow> (\<exists>p sig. map_of (in_flight h) k = Some (p, sig))"
  by (metis domIff dom_map_of_conv_image_fst not_None_eq prod.exhaust)

lemma hook_settle_disarms: "hook_busy h k \<Longrightarrow> abortController (hook_settle m k res h) = None"
  by (auto simp: hook_settle_def Let_def hook_busy_map_of split: option.split)

interpretation hk: cancellable "hook_step m" hook_armed notices hook_busy for m :: "'i mutation"
proof
  fix p k res e and s :: "'i hook"
  show "hook_armed (hook_step m (Mutate p) s)" by (simp add: hook_mutate_def Let_def)
  show "hook_armed (hook_step m RunFn s) \<longleftrightarrow> hook_armed s"
    by (auto simp: hook_run_fn_def Let_def split: list.split)
  show "\<not> hook_armed (hook_step m (Settle k res) s)" if "hook_busy s k"
    using hook_settle_disarms [OF that] by simp
  show "\<not> hook_armed (hook_step m Cancel s)" by (simp add: hook_cancel_def)
  show "\<not> hook_armed (hook_step m Unmount s)" by (simp add: hook_unmount_def Let_def)
  show "notices (hook_step m Unmount s) = (if hook_armed s then Suc (notices s) else notices s)"
    by (simp add: hook_unmount_def Let_def)
  show "notices (hook_step m e s) = notices s" if "e \<noteq> Unmount"
    using that
    by (cases e)
      (auto simp: hook_mutate_def hook_run_fn_def hook_settle_def hook_cancel_def Let_def
        split: list.split option.split sum.split)
qed

interpretation up: cancellable upload_step hook_armed notices hook_busy
  unfolding upload_step_def by (rule hk.cancellable_axioms)

interpretation de: cancellable delete_step hook_armed notices hook_busy
  unfolding delete_step_def by (rule hk.cancellable_axioms)

subsection \<open>Runs with one mutation at a time\<close>

text \<open>
  The components disable their controls while a mutation is pending, and the library has started
  the mutation function by the time the next event of the user arrives.
\<close>

definition one_at_a_time :: "'i hook \<Rightarrow> 'i hook_event \<Rightarrow> bool" where
  "one_at_a_time h e =
     (case e of
        Mutate _ \<Rightarrow> queued h = [] \<and> in_flight h = []
      | Cancel \<Rightarrow> queued h = []
      | Unmount \<Rightarrow> queued h = []
      | _ \<Rightarrow> True)"

inductive hook_reach :: "'i mutation \<Rightarrow> 'i hook \<Rightarrow> bool" for m :: "'i mutation" where
  hook_reach_fresh: "hook_reach m fresh_hook"
| hook_reach_step: "hook_reach m h \<Longrightarrow> one_at_a_time h e \<Longrightarrow> hook_reach m (hook_step m e h)"

definition hook_inv :: "'i hook \<Rightarrow> bool" where
  "hook_inv h \<longleftrightarrow>
     (\<forall>c \<in> set_option (abortController h) \<union> set (aborted h). c < next_controller h) \<and>
     (case (queued h, in_flight h) of
        ([], []) \<Rightarrow> abortController h = None
      | ([q], []) \<Rightarrow> (\<exists>c. abortController h = Some c \<and> c \<notin> set (aborted h))
      | ([], [(k, p, sig)]) \<Rightarrow>
          (\<exists>c. sig = Some c \<and> (if c \<in> set (aborted h) then abortController h = None
                               else abortController h = Some c))
      | _ \<Rightarrow> False)"

lemma hook_inv_cases:
  assumes "hook_inv h"
  obtains (idle) "queued h = []" "in_flight h = []" "abortController h = None"
  | (queued) q c where "queued h = [q]" "in_flight h = []" "abortController h = Some c"
      "c \<notin> set (aborted h)"
  | (live) k p c where "queued h = []" "in_flight h = [(k, p, Some c)]" "abortController h = Some c"
      "c \<notin> set (aborted h)"
  | (cancelled) k p c where "queued h = []" "in_flight h = [(k, p, Some c)]" "abortController h = None"
      "c \<in> set (aborted h)"
  using assms unfolding hook_inv_def
  by (cases "queued h"; cases "in_flight h"; cases "tl (queued h)"; cases "tl (in_flight h)")
    (auto split: if_splits)

lemma hook_inv_bounds:
  "hook_inv h \<Longrightarrow> abortController h = Some c \<Longrightarrow> c < next_controller h"
  "hook_inv h \<Longrightarrow> c \<in> set (aborted h) \<Longrightarrow> c < next_controller h"
  by (auto simp: hook_inv_def)

lemma hook_inv_step:
  assumes inv: "hook_inv h" and e: "one_at_a_time h e"
  shows "hook_inv (hook_step m e h)"
proof -
  note b = hook_inv_bounds [OF inv]
  from inv show ?thesis
  proof (cases rule: hook_inv_cases)
    case idle
    then show ?thesis using b e
      by (cases e) (auto simp: hook_inv_def hook_defs one_at_a_time_def less_Suc_eq)
  next
    case (queued q c)
    then show ?thesis using b e
      by (cases e) (auto simp: hook_inv_def hook_defs one_at_a_time_def split: prod.split)
  next
    case (live k p c)
    then show ?thesis using b e
      by (cases e) (auto simp: hook_inv_def hook_defs one_at_a_time_def split: prod.split sum.split)
  next
    case (cancelled k p c)
    then show ?thesis using b e
      by (cases e) (auto simp: hook_inv_def hook_defs one_at_a_time_def split: prod.split sum.split)
  qed
qed

lemma hook_reach_inv: "hook_reach m h \<Longrightarrow> hook_inv h"
  by (induction rule: hook_reach.induct) (simp_all add: hook_inv_step, simp add: hook_inv_def fresh_hook_def)

subsection \<open>Properties\<close>

text \<open>
  C34. Used one mutation at a time, cancelling and unmounting always reach the running request: it
  carries the signal of a controller that both abort. Unmounting notifies exactly when a request is
  running that was not cancelled before, and then once.
\<close>

theorem unmount_aborts_and_notifies:
  assumes "hook_reach m h" and "queued h = []"
  shows "(\<forall>k p sig. (k, p, sig) \<in> set (in_flight h) \<longrightarrow>
      (\<exists>c. sig = Some c \<and> c \<in> set (aborted (hook_cancel h)) \<and> c \<in> set (aborted (hook_unmount h)))) \<and>
    notices (hook_unmount h) = notices h +
      (if \<exists>k p c. (k, p, Some c) \<in> set (in_flight h) \<and> c \<notin> set (aborted h) then 1 else 0) \<and>
    notices (hook_unmount (hook_unmount h)) = notices (hook_unmount h) \<and>
    notices (hook_unmount (hook_cancel h)) = notices h"
proof -
  have twice: "notices (hook_unmount (hook_unmount h)) = notices (hook_unmount h)"
    and cancelled: "notices (hook_unmount (hook_cancel h)) = notices h"
    using hk.unmount_twice_notifies_once [of undefined h] hk.cancel_then_unmount_silent [of undefined h]
    by simp_all
  from hook_reach_inv [OF assms(1)] show ?thesis
    by (cases rule: hook_inv_cases)
      (use assms(2) twice cancelled in \<open>auto simp: hook_cancel_def hook_unmount_def Let_def\<close>)
qed

theorem unmount_aborts_and_notifies_witness:
  "\<exists>h p. hook_reach useUploadAttachment h \<and> in_flight h = [(0, p, Some 0)] \<and>
     notices (hook_unmount h) = 1 \<and> 0 \<in> set (aborted (hook_unmount h))"
proof -
  obtain p :: upload_params where "up_itemId p = ''i''" by (metis upload_params.select_convs(2))
  let ?h = "hook_step useUploadAttachment RunFn (hook_step useUploadAttachment (Mutate p) fresh_hook)"
  have "hook_reach useUploadAttachment (hook_step useUploadAttachment (Mutate p) fresh_hook)"
    by (rule hook_reach_step [OF hook_reach_fresh]) (simp add: one_at_a_time_def fresh_hook_def)
  then have r: "hook_reach useUploadAttachment ?h"
    by (rule hook_reach_step) (simp add: one_at_a_time_def)
  have f: "in_flight ?h = [(0, p, Some 0)]" "queued ?h = []" "notices ?h = 0" "aborted ?h = []"
    by (simp_all add: hook_defs fresh_hook_def)
  then show ?thesis using r unmount_aborts_and_notifies [OF r f(2)] by auto
qed

text \<open>
  Cancelling right after \<open>mutate\<close>, before the library has started the mutation function, does
  not stop the request: it is sent without a signal, and no later cancel or unmount can abort it.
\<close>

theorem cancel_before_start_sends_request:
  "let h = hook_run m [Mutate p, Cancel, RunFn] in
   requests h = [(mu_path m p, mu_init m p None)] \<and> in_flight h = [(0, p, None)] \<and>
   hook_cancel h = h \<and> hook_unmount h = h"
  by (simp add: hook_run_def hook_defs fresh_hook_def)

text \<open>
  A second mutation started while the first is running loses its controller when the first one
  settles: unmounting then neither aborts the second request nor notifies.
\<close>

theorem settled_first_disarms_second:
  "let h = hook_run m [Mutate p, RunFn, Mutate q, RunFn, Settle 0 (Inl err)] in
   in_flight h = [(1, q, Some 1)] \<and> 1 \<notin> set (aborted (hook_unmount h)) \<and>
   notices (hook_unmount h) = 0"
  by (simp add: hook_run_def hook_defs fresh_hook_def)

end
