(* ===== verification/File_Format.thy ===== *)
theory File_Format
  imports Prelude
begin

text \<open>
  File sizes for display (frontend/src/lib/format.ts). A byte count is a natural number; dividing it
  by a power of two is exact in a JavaScript number, so \<open>Math.round\<close> and \<open>toFixed\<close>, which both
  round halves up, are integer divisions.
\<close>

definition formatFileSize :: "nat \<Rightarrow> string" where
  "formatFileSize bytes =
     (if bytes < 1024 then show_nat bytes @ '' B''
      else if bytes < 1024 * 1024 then show_nat ((bytes + 512) div 1024) @ '' KB''
      else (let tenths = (10 * bytes + 524288) div (1024 * 1024)
            in show_nat (tenths div 10) @ ''.'' @ show_nat (tenths mod 10) @ '' MB''))"

lemma round_div:
  fixes b k :: nat
  assumes "0 < k"
  defines "q \<equiv> (b + k) div (2 * k)"
  shows "2 * k * q \<le> b + k" "b < 2 * k * q + k"
proof -
  have "(2 * k) * q + (b + k) mod (2 * k) = b + k" unfolding q_def by (rule mult_div_mod_eq)
  moreover have "(b + k) mod (2 * k) < 2 * k" using assms by simp
  ultimately show "2 * k * q \<le> b + k" "b < 2 * k * q + k" by linarith+
qed

text \<open>
  The displayed size is off by at most half a unit: bytes are exact, kilobytes are within 512
  bytes and between 1 and 1024, megabytes are within a twentieth of a megabyte, with one decimal.
\<close>

theorem formatFileSize_error:
  "(bytes < 1024 \<and> formatFileSize bytes = show_nat bytes @ '' B'') \<or>
   (1024 \<le> bytes \<and> bytes < 1024 * 1024 \<and> (\<exists>kb. formatFileSize bytes = show_nat kb @ '' KB'' \<and>
      1 \<le> kb \<and> kb \<le> 1024 \<and> 1024 * kb \<le> bytes + 512 \<and> bytes < 1024 * kb + 512)) \<or>
   (1024 * 1024 \<le> bytes \<and> (\<exists>mb tenths. tenths < 10 \<and>
      formatFileSize bytes = show_nat mb @ ''.'' @ show_nat tenths @ '' MB'' \<and>
      1024 * 1024 * (10 * mb + tenths) \<le> 10 * bytes + 524288 \<and>
      10 * bytes < 1024 * 1024 * (10 * mb + tenths) + 524288))"
proof -
  consider "bytes < 1024" | "1024 \<le> bytes" "bytes < 1024 * 1024" | "1024 * 1024 \<le> bytes"
    by linarith
  then show ?thesis
  proof cases
    case 1
    then show ?thesis by (simp add: formatFileSize_def)
  next
    case 2
    then show ?thesis using round_div [of 512 bytes] by (auto simp: formatFileSize_def)
  next
    case 3
    let ?t = "(10 * bytes + 524288) div (1024 * 1024)"
    have split: "10 * (?t div 10) + ?t mod 10 = ?t" by simp
    have "?t mod 10 < 10" by simp
    moreover have "formatFileSize bytes = show_nat (?t div 10) @ ''.'' @ show_nat (?t mod 10) @ '' MB''"
      using 3 by (simp add: formatFileSize_def Let_def)
    moreover have "1024 * 1024 * ?t \<le> 10 * bytes + 524288" "10 * bytes < 1024 * 1024 * ?t + 524288"
      using round_div [of 524288 "10 * bytes"] by simp_all
    ultimately show ?thesis using 3 split by metis
  qed
qed

end
