(* ===== verification/Attachment_Uploader.thy ===== *)
theory Attachment_Uploader
  imports Abort_Hooks File_Format
begin

text \<open>
  The upload control (frontend/src/pages/reports/AttachmentUploader.tsx): validation, the local list
  of pending files of the add mode with the blob URLs of their previews, and the immediate upload of
  the edit mode through the cancellable hook. Blob URLs are numbers; the browser's set of live URLs
  is part of the state. The callbacks of the parent are logged in the order they are called; an
  absent optional callback is one the parent ignores.
\<close>

subsection \<open>State\<close>

datatype uploader_mode = AddMode | EditMode | ViewMode

record uploader_props =
  pr_reportId :: string
  pr_itemId :: "string option"
  pr_mode :: uploader_mode

datatype parent_call =
    UploadSuccess
  | UploadError string
  | UploadAborted
  | UploadingChange bool
  | PendingFileAdded upload_file
  | PendingFilesChange "upload_file list"
  | PendingFileAdded_Success
  | PendingFileRemoved

record uploader =
  validationError :: "string option"
  isDragOver :: bool
  pendingFiles :: "upload_file list"
  objectUrls :: "(nat \<times> nat) list"
  next_url :: nat
  live_urls :: "nat list"
  opened :: "nat list"
  up_hook :: "upload_params hook"
  calls_made :: "parent_call list"

definition mounted_uploader :: "uploader_props \<Rightarrow> uploader" where
  "mounted_uploader pr =
     \<lparr>validationError = None, isDragOver = False, pendingFiles = [], objectUrls = [], next_url = 0,
      live_urls = [], opened = [], up_hook = fresh_hook,
      calls_made = (if pr_mode pr = AddMode then [PendingFilesChange []] else [])\<rparr>"

definition call :: "parent_call \<Rightarrow> uploader \<Rightarrow> uploader" where
  "call c s = s\<lparr>calls_made := calls_made s @ [c]\<rparr>"

subsection \<open>Validation\<close>

definition ALLOWED_MIME_TYPES :: "string list" where
  "ALLOWED_MIME_TYPES = [''image/jpeg'', ''image/png'', ''application/pdf'']"

definition MAX_FILE_SIZE_BYTES :: nat where
  "MAX_FILE_SIZE_BYTES = 5 * 1024 * 1024"

abbreviation "msg_file_type \<equiv> ''Only JPEG, PNG and PDF can be uploaded''"
abbreviation "msg_file_size \<equiv> ''Files may have at most 5MB''"

definition validateFile :: "upload_file \<Rightarrow> string option" where
  "validateFile file =
     (if f_type file \<notin> set ALLOWED_MIME_TYPES then Some msg_file_type
      else if f_size file > MAX_FILE_SIZE_BYTES then Some msg_file_size
      else None)"

subsection \<open>Effects\<close>

definition revoke :: "nat \<Rightarrow> uploader \<Rightarrow> uploader" where
  "revoke u s = s\<lparr>live_urls := filter ((\<noteq>) u) (live_urls s)\<rparr>"

definition revoke_all :: "uploader \<Rightarrow> uploader" where
  \<comment> \<open>revokes every URL of the map and clears it\<close>
  "revoke_all s = (foldl (\<lambda>s u. revoke u s) s (map snd (objectUrls s)))\<lparr>objectUrls := []\<rparr>"

definition saved_cleanup_due :: "uploader_props \<Rightarrow> uploader \<Rightarrow> bool" where
  \<comment> \<open>the condition of the effect that releases the URLs after saving\<close>
  "saved_cleanup_due pr s \<longleftrightarrow> pr_mode pr = AddMode \<and> length (pendingFiles s) = 0 \<and> length (objectUrls s) > 0"

definition pending_effects :: "uploader_props \<Rightarrow> nat \<Rightarrow> uploader \<Rightarrow> uploader" where
  \<comment> \<open>the effects that depend on the list of pending files or on its length, which was \<open>n\<close> before\<close>
  "pending_effects pr n s =
     (let s1 = (if pr_mode pr = AddMode then call (PendingFilesChange (pendingFiles s)) s else s)
      in if length (pendingFiles s1) \<noteq> n \<and> saved_cleanup_due pr s1 then revoke_all s1 else s1)"

subsection \<open>Handlers\<close>

definition isUploading :: "uploader_props \<Rightarrow> uploader \<Rightarrow> bool" where
  "isUploading pr s \<longleftrightarrow>
     pr_mode pr \<noteq> AddMode \<and> (queued (up_hook s) \<noteq> [] \<or> in_flight (up_hook s) \<noteq> [])"

definition addPendingFile :: "uploader_props \<Rightarrow> upload_file \<Rightarrow> uploader \<Rightarrow> uploader" where
  "addPendingFile pr file s =
     (let u = next_url s;
          s1 = s\<lparr>next_url := Suc u, live_urls := live_urls s @ [u],
                 objectUrls := AList.update (f_ident file) u (objectUrls s),
                 pendingFiles := pendingFiles s @ [file]\<rparr>
      in pending_effects pr (length (pendingFiles s)) (call PendingFileAdded_Success (call (PendingFileAdded file) s1)))"

definition startUpload :: "uploader_props \<Rightarrow> upload_file \<Rightarrow> uploader \<Rightarrow> uploader" where
  "startUpload pr file s =
     (case pr_itemId pr of
        Some i \<Rightarrow>
          if i \<noteq> [] then
            (let s1 = call (UploadingChange True) s;
                 p = \<lparr>up_reportId = pr_reportId pr, up_itemId = i, up_file = file\<rparr>
             in s1\<lparr>up_hook := upload_step (Mutate p) (up_hook s1)\<rparr>)
          else s
      | None \<Rightarrow> s)"

definition handleFile :: "uploader_props \<Rightarrow> upload_file \<Rightarrow> uploader \<Rightarrow> uploader" where
  "handleFile pr file s =
     (case validateFile file of
        Some e \<Rightarrow> s\<lparr>validationError := Some e\<rparr>
      | None \<Rightarrow>
          let s1 = s\<lparr>validationError := None\<rparr>
          in if pr_mode pr = AddMode then addPendingFile pr file s1 else startUpload pr file s1)"

definition upload_succeeded :: "uploader \<Rightarrow> uploader" where
  "upload_succeeded s = call UploadSuccess (call (UploadingChange False) s)"

definition upload_failed :: "js_error \<Rightarrow> uploader \<Rightarrow> uploader" where
  "upload_failed err s =
     (let s1 = call (UploadingChange False) s
      in if is_AbortError err then call UploadAborted s1
         else call (UploadError (message_or err ''The file could not be uploaded'')) s1)"

definition settle_upload :: "nat \<Rightarrow> js_error + jsval \<Rightarrow> uploader \<Rightarrow> uploader" where
  \<comment> \<open>the mutation settles while the component is mounted: the callbacks of the hook, then those
    given to \<open>mutate\<close>\<close>
  "settle_upload k res s =
     (if hook_busy (up_hook s) k then
        (let s1 = s\<lparr>up_hook := upload_step (Settle k res) (up_hook s)\<rparr>
         in case res of Inl err \<Rightarrow> upload_failed err s1 | Inr _ \<Rightarrow> upload_succeeded s1)
      else s)"

definition remove_at :: "nat \<Rightarrow> 'a list \<Rightarrow> 'a list" where
  "remove_at i xs = take i xs @ drop (Suc i) xs"

definition handlePendingFileRemove :: "uploader_props \<Rightarrow> nat \<Rightarrow> uploader \<Rightarrow> uploader" where
  "handlePendingFileRemove pr i s =
     (let s1 = (if i < length (pendingFiles s) then
                  (case map_of (objectUrls s) (f_ident (pendingFiles s ! i)) of
                     None \<Rightarrow> s
                   | Some u \<Rightarrow> (revoke u s)\<lparr>objectUrls :=
                       AList.delete (f_ident (pendingFiles s ! i)) (objectUrls s)\<rparr>)
                else s);
          s2 = s1\<lparr>pendingFiles := remove_at i (pendingFiles s1)\<rparr>
      in pending_effects pr (length (pendingFiles s)) (call PendingFileRemoved s2))"

definition handlePendingFilePreview :: "upload_file \<Rightarrow> uploader \<Rightarrow> uploader" where
  "handlePendingFilePreview file s =
     (case map_of (objectUrls s) (f_ident file) of
        None \<Rightarrow> s
      | Some u \<Rightarrow> s\<lparr>opened := opened s @ [u]\<rparr>)"

definition handleChange :: "uploader_props \<Rightarrow> upload_file list \<Rightarrow> uploader \<Rightarrow> uploader" where
  "handleChange pr files s = (case files of [] \<Rightarrow> s | f # _ \<Rightarrow> handleFile pr f s)"

definition handleDragOver :: "uploader_props \<Rightarrow> uploader \<Rightarrow> uploader" where
  "handleDragOver pr s = (if isUploading pr s then s else s\<lparr>isDragOver := True\<rparr>)"

definition handleDragLeave :: "bool \<Rightarrow> uploader \<Rightarrow> uploader" where
  \<comment> \<open>the argument: whether the pointer moves to a child of the drop zone\<close>
  "handleDragLeave into_child s = (if into_child then s else s\<lparr>isDragOver := False\<rparr>)"

definition handleDrop :: "uploader_props \<Rightarrow> upload_file list \<Rightarrow> uploader \<Rightarrow> uploader" where
  "handleDrop pr files s =
     (let s1 = s\<lparr>isDragOver := False\<rparr>
      in if isUploading pr s then s1 else (case files of [] \<Rightarrow> s1 | f # _ \<Rightarrow> handleFile pr f s1))"

definition unmount_uploader :: "uploader \<Rightarrow> uploader" where
  "unmount_uploader s =
     (let h = up_hook s;
          s1 = s\<lparr>up_hook := upload_step Unmount h\<rparr>;
          s2 = (if notices (up_hook s1) = notices h then s1 else call UploadAborted s1)
      in revoke_all s2)"

subsection \<open>Rendering\<close>

datatype uploader_event = EPreview upload_file | ERemove nat | EChange | EDrop

definition pending_row :: "nat \<Rightarrow> upload_file \<Rightarrow> uploader_event jsx" where
  "pending_row i file =
     El ''li'' [(''data-testid'', AStr (''pending-file-row-'' @ show_nat i))]
       [El ''Button'' [(''onClick'', AEv (EPreview file))] [Txt (f_name file)],
        El ''span'' [] [Txt (formatFileSize (f_size file))],
        El ''Button'' [(''onClick'', AEv (ERemove i))] [Txt ''Delete'']]"

definition render_uploader :: "uploader_props \<Rightarrow> uploader \<Rightarrow> uploader_event jsx" where
  "render_uploader pr s =
     El ''div'' [(''onDrop'', AEv EDrop)]
       [when_jsx (pr_mode pr = AddMode \<and> length (pendingFiles s) > 0)
          (El ''ul'' [] (map2 pending_row [0..<length (pendingFiles s)] (pendingFiles s))),
        El ''div'' [(''data-drag-over'', AStr (if isDragOver s then ''true'' else ''false''))]
          [El ''Button'' [(''disabled'', ABool (isUploading pr s))]
             [Txt (if isUploading pr s then ''Uploading...'' else ''Add a file''),
              El ''input'' [(''disabled'', ABool (isUploading pr s)), (''onChange'', AEv EChange)] []]],
        El ''div'' [] [Txt ''Formats: JPEG, PNG, PDF (at most 5MB)''],
        (case validationError s of Some e \<Rightarrow> when_jsx (e \<noteq> []) (El ''Alert'' [] [Txt e]) | None \<Rightarrow> NullJsx)]"

subsection \<open>Steps\<close>

text \<open>
  Files come from the browser as new objects. The input is disabled while an upload runs, and the
  library has started the mutation function when the panel cancels or the component goes away.
\<close>

inductive uploader_step :: "uploader_props \<Rightarrow> uploader \<Rightarrow> uploader \<Rightarrow> bool" for pr :: uploader_props where
  choose: "\<not> isUploading pr s \<Longrightarrow> \<forall>f \<in> set files. f_ident f \<notin> f_ident ` set (pendingFiles s) \<Longrightarrow>
     uploader_step pr s (handleChange pr files s)"
| drop_file: "\<forall>f \<in> set files. f_ident f \<notin> f_ident ` set (pendingFiles s) \<Longrightarrow>
     uploader_step pr s (handleDrop pr files s)"
| drag_over: "uploader_step pr s (handleDragOver pr s)"
| drag_leave: "uploader_step pr s (handleDragLeave b s)"
| remove: "pr_mode pr = AddMode \<Longrightarrow> i < length (pendingFiles s) \<Longrightarrow>
     uploader_step pr s (handlePendingFileRemove pr i s)"
| preview: "f \<in> set (pendingFiles s) \<Longrightarrow> uploader_step pr s (handlePendingFilePreview f s)"
| started: "uploader_step pr s (s\<lparr>up_hook := upload_step RunFn (up_hook s)\<rparr>)"
| settled: "uploader_step pr s (settle_upload k res s)"
| cancelled: "queued (up_hook s) = [] \<Longrightarrow>
     uploader_step pr s (s\<lparr>up_hook := upload_step Cancel (up_hook s)\<rparr>)"

subsection \<open>Blob URLs\<close>

definition urls_match :: "uploader_props \<Rightarrow> uploader \<Rightarrow> bool" where
  "urls_match pr s \<longleftrightarrow>
     map fst (objectUrls s) = map f_ident (pendingFiles s) \<and> distinct (map f_ident (pendingFiles s)) \<and>
     live_urls s = map snd (objectUrls s) \<and> distinct (map snd (objectUrls s)) \<and>
     (\<forall>u \<in> set (live_urls s). u < next_url s)"

lemma remove_at_map: "map f (remove_at i xs) = remove_at i (map f xs)"
  by (simp add: remove_at_def take_map drop_map)

lemma filter_not_nth:
  "distinct xs \<Longrightarrow> i < length xs \<Longrightarrow> filter ((\<noteq>) (xs ! i)) xs = remove_at i xs"
proof (induction xs arbitrary: i)
  case (Cons x xs)
  then show ?case
    by (cases i) (auto simp: remove_at_def filter_id_conv)
qed simp

lemma set_remove_at: "set (remove_at i xs) \<subseteq> set xs"
  by (auto simp: remove_at_def dest: in_set_takeD in_set_dropD)

lemma remove_at_beyond: "length xs \<le> i \<Longrightarrow> remove_at i xs = xs"
  by (simp add: remove_at_def)

lemma distinct_remove_at: "distinct xs \<Longrightarrow> distinct (remove_at i xs)"
  by (cases "i < length xs") (simp_all add: filter_not_nth [symmetric] remove_at_beyond)

lemma alist_update_new: "k \<notin> fst ` set al \<Longrightarrow> AList.update k v al = al @ [(k, v)]"
  by (induction al) auto

lemma map_of_nth_fst:
  "distinct (map fst al) \<Longrightarrow> i < length al \<Longrightarrow> map_of al (fst (al ! i)) = Some (snd (al ! i))"
  by (metis map_of_is_SomeI nth_mem prod.collapse)

lemma alist_delete_nth:
  assumes "distinct (map fst al)" "i < length al"
  shows "AList.delete (fst (al ! i)) al = remove_at i al"
  using assms
proof (induction al arbitrary: i)
  case (Cons a al)
  show ?case
  proof (cases i)
    case 0
    have "fst p \<noteq> fst a" if "p \<in> set al" for p using Cons.prems that by (metis distinct.simps(2) image_eqI list.simps(9) set_map)
    then have "filter (\<lambda>(k', _). fst a \<noteq> k') al = al" unfolding filter_id_conv split_beta by metis
    then show ?thesis using 0 by (cases a) (simp add: AList.delete_eq remove_at_def)
  next
    case (Suc j)
    then have "fst a \<noteq> fst (al ! j)" using Cons.prems by auto
    then show ?thesis using Suc Cons by (simp add: AList.delete_eq remove_at_def case_prod_beta)
  qed
qed simp

lemma call_simps [simp]:
  "pendingFiles (call c s) = pendingFiles s" "objectUrls (call c s) = objectUrls s"
  "live_urls (call c s) = live_urls s" "next_url (call c s) = next_url s"
  "up_hook (call c s) = up_hook s" "calls_made (call c s) = calls_made s @ [c]"
  "opened (call c s) = opened s" "validationError (call c s) = validationError s"
  by (simp_all add: call_def)

lemma revoke_simps [simp]:
  "pendingFiles (revoke u s) = pendingFiles s" "objectUrls (revoke u s) = objectUrls s"
  "live_urls (revoke u s) = filter ((\<noteq>) u) (live_urls s)" "next_url (revoke u s) = next_url s"
  "up_hook (revoke u s) = up_hook s" "calls_made (revoke u s) = calls_made s" "opened (revoke u s) = opened s"
  by (simp_all add: revoke_def)

lemma cleanup_never_due: "urls_match pr s \<Longrightarrow> \<not> saved_cleanup_due pr s"
proof
  assume m: "urls_match pr s" and "saved_cleanup_due pr s"
  then have "length (objectUrls s) \<noteq> length (pendingFiles s)" by (simp add: saved_cleanup_due_def)
  with m show False by (metis urls_match_def length_map)
qed

lemma urls_match_pending_effects: "urls_match pr s \<Longrightarrow> urls_match pr (pending_effects pr n s)"
  using cleanup_never_due [of pr s] cleanup_never_due [of pr "call (PendingFilesChange (pendingFiles s)) s"]
  by (simp add: pending_effects_def urls_match_def Let_def)

lemma urls_match_addPendingFile:
  assumes "urls_match pr s" "f_ident file \<notin> f_ident ` set (pendingFiles s)"
  shows "urls_match pr (addPendingFile pr file s)"
proof -
  have "f_ident file \<notin> fst ` set (objectUrls s)"
    using assms by (metis urls_match_def list.set_map)
  moreover have "\<forall>u \<in> set (live_urls s). u < next_url s" "live_urls s = map snd (objectUrls s)"
    using assms(1) unfolding urls_match_def by blast+
  then have "next_url s \<notin> snd ` set (objectUrls s)" by (metis less_irrefl set_map)
  ultimately show ?thesis unfolding addPendingFile_def Let_def
    using assms
    by (intro urls_match_pending_effects) (auto simp: urls_match_def alist_update_new less_Suc_eq)
qed

lemma startUpload_keeps [simp]:
  "pendingFiles (startUpload pr file s) = pendingFiles s" "objectUrls (startUpload pr file s) = objectUrls s"
  "live_urls (startUpload pr file s) = live_urls s" "next_url (startUpload pr file s) = next_url s"
  by (simp_all add: startUpload_def Let_def split: option.split)

lemma urls_match_handleFile:
  assumes "urls_match pr s" "f_ident f \<notin> f_ident ` set (pendingFiles s)"
  shows "urls_match pr (handleFile pr f s)"
  using assms urls_match_addPendingFile [of pr "s\<lparr>validationError := None\<rparr>" f]
  by (simp add: handleFile_def Let_def urls_match_def split: option.split)

lemma urls_match_shrink:
  assumes "urls_match pr s" "pendingFiles t = remove_at i (pendingFiles s)"
    "objectUrls t = remove_at i (objectUrls s)" "live_urls t = remove_at i (live_urls s)"
    "next_url t = next_url s"
  shows "urls_match pr t"
proof -
  have "\<forall>u \<in> set (live_urls s). u < next_url s" using assms(1) unfolding urls_match_def by blast
  then have "\<forall>u \<in> set (live_urls t). u < next_url t"
    using assms(4,5) set_remove_at [of i "live_urls s"] by (metis subsetD)
  moreover have "distinct (map snd (remove_at i (objectUrls s)))"
    "distinct (map f_ident (remove_at i (pendingFiles s)))"
    using assms(1) by (simp_all add: urls_match_def remove_at_map distinct_remove_at)
  moreover have "map fst (remove_at i (objectUrls s)) = map f_ident (remove_at i (pendingFiles s))"
    "remove_at i (live_urls s) = map snd (remove_at i (objectUrls s))"
    using assms(1) by (simp_all add: urls_match_def remove_at_map)
  ultimately show ?thesis using assms(2-4) by (simp only: urls_match_def simp_thms)
qed

lemma urls_match_remove:
  assumes m: "urls_match pr s" and i: "i < length (pendingFiles s)"
  shows "urls_match pr (handlePendingFileRemove pr i s)"
proof -
  let ?al = "objectUrls s"
  have fst_eq: "map fst ?al = map f_ident (pendingFiles s)" and d: "distinct (map fst ?al)"
    and live: "live_urls s = map snd ?al" "distinct (map snd ?al)"
    using m by (simp_all add: urls_match_def)
  have len: "i < length ?al" using fst_eq i by (metis length_map)
  have key: "f_ident (pendingFiles s ! i) = fst (?al ! i)"
    using fst_eq i len by (metis nth_map)
  have found: "map_of ?al (fst (?al ! i)) = Some (snd (?al ! i))" by (rule map_of_nth_fst [OF d len])
  have "filter ((\<noteq>) (snd (?al ! i))) (live_urls s) = remove_at i (live_urls s)"
    using filter_not_nth [OF live(2), of i] len live(1) by simp
  then show ?thesis unfolding handlePendingFileRemove_def Let_def
    by (intro urls_match_pending_effects urls_match_shrink [OF m, of _ i])
      (simp_all add: i key found alist_delete_nth [OF d len])
qed

lemma settle_upload_keeps [simp]:
  "pendingFiles (settle_upload k res s) = pendingFiles s" "objectUrls (settle_upload k res s) = objectUrls s"
  "live_urls (settle_upload k res s) = live_urls s" "next_url (settle_upload k res s) = next_url s"
  by (simp_all add: settle_upload_def upload_failed_def upload_succeeded_def Let_def split: sum.split)

lemma urls_match_step: "uploader_step pr s t \<Longrightarrow> urls_match pr s \<Longrightarrow> urls_match pr t"
proof (induction rule: uploader_step.induct)
  case (choose s files)
  then show ?case by (cases files) (auto simp: handleChange_def intro: urls_match_handleFile)
next
  case (drop_file files s)
  moreover have "urls_match pr (s\<lparr>isDragOver := False\<rparr>)" using drop_file by (simp add: urls_match_def)
  ultimately show ?case
    by (cases files) (auto simp: handleDrop_def Let_def intro: urls_match_handleFile)
next
  case (remove i s)
  then show ?case by (simp add: urls_match_remove)
qed (auto simp: urls_match_def handleDragOver_def handleDragLeave_def handlePendingFilePreview_def
    split: option.split)

lemma urls_match_mounted: "urls_match pr (mounted_uploader pr)"
  by (simp add: urls_match_def mounted_uploader_def)

interpretation ub: invariant_system "\<lambda>s. s = mounted_uploader pr" "uploader_step pr" "urls_match pr"
  for pr
  by unfold_locales (auto simp: urls_match_mounted intro: urls_match_step)

lemma revoke_all_simps [simp]:
  "objectUrls (revoke_all s) = []" "calls_made (revoke_all s) = calls_made s"
  "up_hook (revoke_all s) = up_hook s"
  "live_urls (revoke_all s) = filter (\<lambda>u. u \<notin> snd ` set (objectUrls s)) (live_urls s)"
proof -
  have *: "calls_made (foldl (\<lambda>s u. revoke u s) s us) = calls_made s \<and>
      up_hook (foldl (\<lambda>s u. revoke u s) s us) = up_hook s \<and>
      live_urls (foldl (\<lambda>s u. revoke u s) s us) = filter (\<lambda>u. u \<notin> set us) (live_urls s)" for us
    by (induction us arbitrary: s) (auto intro: filter_cong)
  show "objectUrls (revoke_all s) = []" "calls_made (revoke_all s) = calls_made s"
    "up_hook (revoke_all s) = up_hook s"
    "live_urls (revoke_all s) = filter (\<lambda>u. u \<notin> snd ` set (objectUrls s)) (live_urls s)"
    using * by (simp_all add: revoke_all_def)
qed

subsection \<open>Uploads\<close>

definition sends_valid :: "uploader \<Rightarrow> bool" where
  \<comment> \<open>every file kept, queued or sent passed the validation\<close>
  "sends_valid s \<longleftrightarrow>
     (\<forall>f \<in> set (pendingFiles s). validateFile f = None) \<and>
     (\<forall>q \<in> set (queued (up_hook s)). validateFile (up_file (snd q)) = None) \<and>
     (\<forall>r \<in> set (requests (up_hook s)). \<exists>f. in_body (snd r) = Some (FormBody [(''file'', f)]) \<and>
        validateFile f = None)"

definition uploads_ok :: "uploader_props \<Rightarrow> uploader \<Rightarrow> bool" where
  "uploads_ok pr s \<longleftrightarrow> sends_valid s \<and> hook_reach useUploadAttachment (up_hook s) \<and>
     (pr_mode pr \<noteq> AddMode \<longrightarrow> pendingFiles s = []) \<and>
     (pr_mode pr = AddMode \<longrightarrow> queued (up_hook s) = [] \<and> in_flight (up_hook s) = [])"

lemma pending_effects_keeps [simp]:
  "pendingFiles (pending_effects pr n s) = pendingFiles s" "up_hook (pending_effects pr n s) = up_hook s"
proof -
  have "pendingFiles (foldl (\<lambda>s u. revoke u s) s us) = pendingFiles s" for us and s :: uploader
    by (induction us arbitrary: s) simp_all
  then show "pendingFiles (pending_effects pr n s) = pendingFiles s"
    by (simp add: pending_effects_def Let_def revoke_all_def)
qed (simp add: pending_effects_def Let_def)

lemma uploads_ok_handleFile:
  assumes ok: "uploads_ok pr s" and idle: "\<not> isUploading pr s"
  shows "uploads_ok pr (handleFile pr f s)"
proof (cases "validateFile f")
  case None
  show ?thesis
  proof (cases "pr_mode pr = AddMode")
    case True
    then show ?thesis using ok None
      by (auto simp: handleFile_def addPendingFile_def Let_def uploads_ok_def sends_valid_def)
  next
    case False
    then have "one_at_a_time (up_hook s) (Mutate p)" for p
      using idle by (simp add: isUploading_def one_at_a_time_def)
    then have "hook_reach useUploadAttachment (upload_step (Mutate p) (up_hook s))" for p
      using ok unfolding upload_step_def uploads_ok_def by (blast intro: hook_reach_step)
    then show ?thesis using ok None False
      by (auto simp: handleFile_def startUpload_def Let_def uploads_ok_def sends_valid_def
          upload_step_def hook_mutate_def split: option.split)
  qed
qed (use ok in \<open>simp add: handleFile_def uploads_ok_def sends_valid_def\<close>)

lemma run_fn_valid: "sends_valid s \<Longrightarrow> sends_valid (s\<lparr>up_hook := upload_step RunFn (up_hook s)\<rparr>)"
  by (auto simp: sends_valid_def upload_step_def hook_run_fn_def Let_def useUploadAttachment_def
      api_post_init_def payload_body_def split: list.splits)

lemma settle_valid: "sends_valid s \<Longrightarrow> sends_valid (settle_upload k res s)"
  by (auto simp: sends_valid_def settle_upload_def upload_succeeded_def upload_failed_def
      upload_step_def hook_settle_def Let_def split: option.splits sum.splits)

lemma settle_upload_hook:
  "up_hook (settle_upload k res s) =
     (if hook_busy (up_hook s) k then upload_step (Settle k res) (up_hook s) else up_hook s)"
  by (simp add: settle_upload_def upload_succeeded_def upload_failed_def Let_def split: sum.split)

lemma hook_idle_steps:
  "queued h = [] \<Longrightarrow> upload_step RunFn h = h" "queued (upload_step (Settle k res) h) = queued h"
  "in_flight (upload_step Cancel h) = in_flight h" "queued (upload_step Cancel h) = queued h"
  "requests (upload_step Cancel h) = requests h"
  by (auto simp: upload_step_def hook_run_fn_def hook_settle_def hook_cancel_def Let_def
      split: option.splits sum.splits)

lemma hook_reach_free_steps:
  assumes "hook_reach useUploadAttachment h"
  shows "hook_reach useUploadAttachment (upload_step RunFn h)"
    "hook_reach useUploadAttachment (upload_step (Settle k res) h)"
    "queued h = [] \<Longrightarrow> hook_reach useUploadAttachment (upload_step Cancel h)"
  unfolding upload_step_def
  by (rule hook_reach_step [OF assms]; simp add: one_at_a_time_def)+

lemma uploads_ok_step: "uploader_step pr s t \<Longrightarrow> uploads_ok pr s \<Longrightarrow> uploads_ok pr t"
proof (induction rule: uploader_step.induct)
  case (choose s files)
  then show ?case by (cases files) (auto simp: handleChange_def intro: uploads_ok_handleFile)
next
  case (drop_file files s)
  have "uploads_ok pr (s\<lparr>isDragOver := False\<rparr>)" using drop_file by (simp add: uploads_ok_def sends_valid_def)
  then show ?case
    by (cases files) (auto simp: handleDrop_def Let_def isUploading_def intro: uploads_ok_handleFile)
next
  case (remove i s)
  then have "sends_valid s" by (simp add: uploads_ok_def)
  then have "sends_valid (handlePendingFileRemove pr i s)"
    by (auto simp: sends_valid_def handlePendingFileRemove_def Let_def
        dest: set_remove_at [THEN subsetD] split: option.split)
  then show ?case using remove
    by (auto simp: uploads_ok_def handlePendingFileRemove_def Let_def split: option.split)
next
  case (started s)
  then show ?case using run_fn_valid hook_reach_free_steps(1) hook_idle_steps(1) [of "up_hook s"]
    by (auto simp: uploads_ok_def)
next
  case (settled s k res)
  then show ?case using settle_valid [of s k res] hook_reach_free_steps(2) [of "up_hook s"]
    by (auto simp: uploads_ok_def settle_upload_hook)
next
  case (cancelled s)
  then show ?case using hook_reach_free_steps(3) [of "up_hook s"]
    by (auto simp: uploads_ok_def sends_valid_def hook_idle_steps)
qed (auto simp: uploads_ok_def sends_valid_def handleDragOver_def handleDragLeave_def
    handlePendingFilePreview_def split: option.split)

lemma uploads_ok_mounted: "uploads_ok pr (mounted_uploader pr)"
  by (simp add: uploads_ok_def sends_valid_def mounted_uploader_def fresh_hook_def
      hook_reach_fresh [unfolded fresh_hook_def])

interpretation uo: invariant_system "\<lambda>s. s = mounted_uploader pr" "uploader_step pr" "uploads_ok pr"
  for pr
  by unfold_locales (auto simp: uploads_ok_mounted intro: uploads_ok_step)

abbreviation uploader_reach :: "uploader_props \<Rightarrow> uploader \<Rightarrow> bool" where
  "uploader_reach pr \<equiv> reach (\<lambda>s. s = mounted_uploader pr) (uploader_step pr)"

subsection \<open>Two demonstration runs\<close>

definition demo_file :: upload_file where
  "demo_file = \<lparr>f_ident = 7, f_name = ''a.pdf'', f_type = ''application/pdf'', f_size = 2048\<rparr>"

definition demo_props :: "uploader_mode \<Rightarrow> uploader_props" where
  "demo_props m = \<lparr>pr_reportId = ''r'', pr_itemId = Some ''i'', pr_mode = m\<rparr>"

definition demo_chosen :: "uploader_mode \<Rightarrow> uploader" where
  "demo_chosen m = handleChange (demo_props m) [demo_file] (mounted_uploader (demo_props m))"

definition demo_uploading :: uploader where
  "demo_uploading = (demo_chosen EditMode)\<lparr>up_hook := upload_step RunFn (up_hook (demo_chosen EditMode))\<rparr>"

lemmas demo_uploader_eval = demo_chosen_def demo_props_def demo_file_def mounted_uploader_def
  handleChange_def handleFile_def validateFile_def ALLOWED_MIME_TYPES_def MAX_FILE_SIZE_BYTES_def
  addPendingFile_def pending_effects_def saved_cleanup_due_def startUpload_def isUploading_def
  call_def fresh_hook_def Let_def demo_uploading_def upload_step_def hook_mutate_def
  abort_current_def hook_run_fn_def

lemma demo_chosen_reach: "uploader_reach (demo_props m) (demo_chosen m)"
  unfolding demo_chosen_def
  by (rule reach_step [OF reach_init], rule refl, rule choose)
    (simp_all add: mounted_uploader_def isUploading_def fresh_hook_def)

lemma demo_uploading_reach: "uploader_reach (demo_props EditMode) demo_uploading"
  unfolding demo_uploading_def by (rule reach_step [OF demo_chosen_reach started])

subsection \<open>Properties\<close>

text \<open>
  C38. No blob URL leaks and none is used after its release: at any time the live URLs are those of
  the pending files, in their order, a preview opens a live URL, and after unmounting none is live.
\<close>

theorem blob_urls_match_pending_files:
  assumes "uploader_reach pr s"
  shows "map fst (objectUrls s) = map f_ident (pendingFiles s) \<and> live_urls s = map snd (objectUrls s) \<and>
    live_urls (unmount_uploader s) = [] \<and>
    (\<forall>f \<in> set (pendingFiles s). \<exists>u \<in> set (live_urls s).
       opened (handlePendingFilePreview f s) = opened s @ [u])"
proof -
  have m: "map fst (objectUrls s) = map f_ident (pendingFiles s)" "live_urls s = map snd (objectUrls s)"
    using ub.invariant [OF assms] unfolding urls_match_def by blast+
  have "\<exists>u \<in> set (live_urls s). opened (handlePendingFilePreview f s) = opened s @ [u]"
    if "f \<in> set (pendingFiles s)" for f
  proof -
    have "f_ident f \<in> fst ` set (objectUrls s)" using m(1) that by (metis image_eqI set_map)
    then obtain u where u: "map_of (objectUrls s) (f_ident f) = Some u"
      by (metis not_Some_eq map_of_eq_None_iff)
    then have "u \<in> set (live_urls s)" using m(2) by (force dest: map_of_SomeD)
    with u show ?thesis by (auto simp: handlePendingFilePreview_def)
  qed
  moreover have "live_urls (unmount_uploader s) = []"
    using m(2) by (simp add: unmount_uploader_def Let_def filter_empty_conv)
  ultimately show ?thesis using m by blast
qed

theorem blob_urls_match_pending_files_witness:
  "live_urls (demo_chosen AddMode) = [0] \<and> live_urls (unmount_uploader (demo_chosen AddMode)) = []"
  using blob_urls_match_pending_files [OF demo_chosen_reach [of AddMode]]
  by (simp add: demo_uploader_eval)

text \<open>
  The effect that is meant to release the URLs after saving never runs: in no reachable state is
  the list of pending files empty while a URL is registered.
\<close>

theorem saved_cleanup_is_dead:
  assumes "uploader_reach pr s"
  shows "\<not> saved_cleanup_due pr s"
  using ub.invariant [OF assms] by (rule cleanup_never_due)

theorem saved_cleanup_is_dead_witness:
  "\<not> saved_cleanup_due (demo_props AddMode)
     (handlePendingFileRemove (demo_props AddMode) 0 (demo_chosen AddMode))"
  by (rule saved_cleanup_is_dead, rule reach_step [OF demo_chosen_reach], rule remove)
    (simp_all add: demo_uploader_eval)

text \<open>
  Only files that pass the validation are kept or sent: each pending file and the file of each
  request is a JPEG, PNG or PDF of at most 5 MB, and in add mode no request is sent at all.
\<close>

theorem only_valid_files_are_sent:
  assumes "uploader_reach pr s"
  shows "(\<forall>f \<in> set (pendingFiles s). f_type f \<in> set ALLOWED_MIME_TYPES \<and> f_size f \<le> 5242880) \<and>
    (\<forall>r \<in> set (requests (up_hook s)). \<exists>f. in_body (snd r) = Some (FormBody [(''file'', f)]) \<and>
       f_type f \<in> set ALLOWED_MIME_TYPES \<and> f_size f \<le> 5242880)"
proof -
  have valid: "f_type f \<in> set ALLOWED_MIME_TYPES \<and> f_size f \<le> 5242880" if "validateFile f = None" for f
    using that by (auto simp: validateFile_def MAX_FILE_SIZE_BYTES_def split: if_splits)
  have "sends_valid s" using uo.invariant [OF assms] by (simp add: uploads_ok_def)
  then show ?thesis unfolding sends_valid_def using valid by metis
qed

theorem only_valid_files_are_sent_witness:
  "length (requests (up_hook demo_uploading)) = 1 \<and>
   (\<exists>f. in_body (snd (hd (requests (up_hook demo_uploading)))) = Some (FormBody [(''file'', f)]) \<and>
      f_size f \<le> 5242880)"
proof -
  have "length (requests (up_hook demo_uploading)) = 1" by (simp add: demo_uploader_eval)
  moreover from this have "hd (requests (up_hook demo_uploading)) \<in> set (requests (up_hook demo_uploading))"
    by (intro hd_in_set) auto
  ultimately show ?thesis using only_valid_files_are_sent [OF demo_uploading_reach] by blast
qed

text \<open>
  When the upload control goes away (the panel closes or changes to another item), the parent is
  told of an aborted upload exactly if a request was running that had not been cancelled, and that
  request is aborted.
\<close>

theorem unmount_reports_running_upload:
  assumes "uploader_reach pr s" and "queued (up_hook s) = []"
  shows "calls_made (unmount_uploader s) = calls_made s @
      (if \<exists>k p c. (k, p, Some c) \<in> set (in_flight (up_hook s)) \<and> c \<notin> set (aborted (up_hook s))
       then [UploadAborted] else []) \<and>
    (\<forall>k p sig. (k, p, sig) \<in> set (in_flight (up_hook s)) \<longrightarrow>
      (\<exists>c. sig = Some c \<and> c \<in> set (aborted (up_hook (unmount_uploader s)))))"
proof -
  have "hook_inv (up_hook s)"
    using uo.invariant [OF assms(1)] hook_reach_inv by (auto simp: uploads_ok_def)
  then show ?thesis
    by (cases rule: hook_inv_cases)
      (use assms(2) in \<open>auto simp: unmount_uploader_def upload_step_def hook_unmount_def Let_def\<close>)
qed

theorem unmount_reports_running_upload_witness:
  "calls_made (unmount_uploader demo_uploading) = [UploadingChange True, UploadAborted]"
proof -
  have "queued (up_hook demo_uploading) = []" by (simp add: demo_uploader_eval)
  from unmount_reports_running_upload [OF demo_uploading_reach this] show ?thesis
    by (simp add: demo_uploader_eval)
qed

end
