(* ===== verification/Attachment_Area.thy ===== *)
theory Attachment_Area
  imports Attachment_Uploader
begin

text \<open>
  The attachment area of an item (frontend/src/pages/reports/AttachmentArea.tsx) and the list in it
  (AttachmentList.tsx): preview and download of an attachment through a signed URL, deletion with a
  confirmation, and the toasts. The optional callbacks of the area are given, as the panel gives them. The handlers of a row yield the effects on the browser in order. What
  the library's \<open>refetch\<close> resolves to is given by the last data of the query and the error.
\<close>

subsection \<open>Preview and download of an attachment\<close>

record refetch_result =
  re_data :: jsval
  re_error :: "js_error option"

definition refetch_resolves :: "jsval \<Rightarrow> js_error + jsval \<Rightarrow> refetch_result" where
  \<comment> \<open>documented behaviour of the library: \<open>data\<close> is the last data that was fetched with success\<close>
  "refetch_resolves prev out =
     (case out of
        Inr v \<Rightarrow> \<lparr>re_data = v, re_error = None\<rparr>
      | Inl e \<Rightarrow> \<lparr>re_data = prev, re_error = Some e\<rparr>)"

datatype browser_effect =
    OpenBlankTab
  | NavigateTab string
  | CloseTab
  | ClickDownload string string
  | RowError string

definition result_member :: "refetch_result \<Rightarrow> string \<Rightarrow> js_error + jsval" where
  \<comment> \<open>\<open>res.data?.data.k\<close>\<close>
  "result_member res k =
     (if nullish (re_data res) then Inr Undefined else js_path (re_data res) [''data'', k])"

definition error_or :: "js_error option \<Rightarrow> string \<Rightarrow> string" where
  "error_or e fallback = (case e of Some err \<Rightarrow> message_or err fallback | None \<Rightarrow> fallback)"

abbreviation "msg_popup \<equiv> ''The popup was blocked. Check the browser settings''"
abbreviation "msg_preview \<equiv> ''The preview could not be fetched''"
abbreviation "msg_download \<equiv> ''The download could not be fetched''"

definition preview_fetched :: "js_error + refetch_result \<Rightarrow> browser_effect list" where
  "preview_fetched out =
     (case out of
        Inl err \<Rightarrow> [CloseTab, RowError (message_or err msg_preview)]
      | Inr res \<Rightarrow>
          (case result_member res ''url'' of
             Inl err \<Rightarrow> [CloseTab, RowError (message_or err msg_preview)]
           | Inr u \<Rightarrow> if js_truthy u then [NavigateTab (js_to_string u)]
                      else [CloseTab, RowError (error_or (re_error res) msg_preview)]))"

definition handlePreview :: "bool \<Rightarrow> js_error + refetch_result \<Rightarrow> browser_effect list" where
  \<comment> \<open>the first argument: whether the browser blocks the new tab\<close>
  "handlePreview blocked out =
     (if blocked then [RowError msg_popup] else OpenBlankTab # preview_fetched out)"

definition handleDownload :: "js_error + refetch_result \<Rightarrow> browser_effect list" where
  "handleDownload out =
     (case out of
        Inl err \<Rightarrow> [RowError (message_or err msg_download)]
      | Inr res \<Rightarrow>
          (case result_member res ''url'' of
             Inl err \<Rightarrow> [RowError (message_or err msg_download)]
           | Inr u \<Rightarrow>
               if js_truthy u then
                 (case result_member res ''file_name'' of
                    Inl err \<Rightarrow> [RowError (message_or err msg_download)]
                  | Inr n \<Rightarrow> [ClickDownload (js_to_string u) (js_to_string n)])
               else [RowError (error_or (re_error res) msg_download)]))"

datatype row_event = EPreviewRow string | EDownloadRow string | EDeleteRow string

definition attachment_row :: "bool \<Rightarrow> string option \<Rightarrow> attachment \<Rightarrow> row_event jsx" where
  "attachment_row canDelete deletingId att =
     (let isDisabled = deletingId = Some (at_id att) in
      El ''li'' [(''data-testid'', AStr (''attachment-item-'' @ at_id att))]
        [El ''Button'' [(''onClick'', AEv (EPreviewRow (at_id att))), (''disabled'', ABool isDisabled)]
           [Txt (at_file_name att)],
         El ''IconButton'' [(''aria-label'', AStr ''Download''), (''onClick'', AEv (EDownloadRow (at_id att))),
           (''disabled'', ABool isDisabled)] [El ''FileDownloadIcon'' [] []],
         El ''span'' [] [Txt (formatFileSize (at_file_size att))],
         when_jsx canDelete
           (El ''Button'' [(''onClick'', AEv (EDeleteRow (at_id att))), (''disabled'', ABool isDisabled)]
              [Txt ''Delete''])])"

definition attachment_list :: "bool \<Rightarrow> string option \<Rightarrow> attachment list \<Rightarrow> row_event jsx" where
  "attachment_list canDelete deletingId atts =
     El ''div'' [(''data-testid'', AStr ''attachment-list'')]
       [if atts = [] then El ''div'' [] [Txt ''There are no attachments''] 
        else El ''ul'' [] (map (attachment_row canDelete deletingId) atts)]"

subsection \<open>The area in edit and view mode\<close>

datatype severity = SevSuccess | SevError

record toast =
  to_open :: bool
  to_severity :: severity
  to_message :: string

datatype panel_call =
    PUploadingChange bool
  | PDeletingChange bool
  | PUploadAborted
  | PDeleteAborted
  | PPendingFilesChange "upload_file list"

record area_props =
  ar_reportId :: string
  ar_itemId :: string
  ar_canModify :: bool

record area =
  deletingId :: "string option"
  confirmTargetId :: "string option"
  area_toast :: toast
  del_hook :: "delete_params hook"
  panel_calls :: "panel_call list"

definition mounted_area :: area where
  "mounted_area = \<lparr>deletingId = None, confirmTargetId = None,
     area_toast = \<lparr>to_open = False, to_severity = SevSuccess, to_message = []\<rparr>,
     del_hook = fresh_hook, panel_calls = []\<rparr>"

abbreviation "ATTACHMENT_UPLOAD_SUCCESS \<equiv> ''The file was uploaded''"
abbreviation "ATTACHMENT_DELETE_SUCCESS \<equiv> ''The attachment was deleted''"
abbreviation "msg_delete_failed \<equiv> ''The attachment could not be deleted''"

definition showToast :: "severity \<Rightarrow> string \<Rightarrow> area \<Rightarrow> area" where
  "showToast sev msg s = s\<lparr>area_toast := \<lparr>to_open = True, to_severity = sev, to_message = msg\<rparr>\<rparr>"

definition closeToast :: "area \<Rightarrow> area" where
  "closeToast s = s\<lparr>area_toast := (area_toast s)\<lparr>to_open := False\<rparr>\<rparr>"

definition tell :: "panel_call \<Rightarrow> area \<Rightarrow> area" where
  "tell c s = s\<lparr>panel_calls := panel_calls s @ [c]\<rparr>"

fun area_uploader_call :: "parent_call \<Rightarrow> area \<Rightarrow> area" where
  \<comment> \<open>the callbacks the area gives to the upload control\<close>
  "area_uploader_call UploadSuccess s = showToast SevSuccess ATTACHMENT_UPLOAD_SUCCESS s"
| "area_uploader_call (UploadError m) s = showToast SevError m s"
| "area_uploader_call UploadAborted s = tell PUploadAborted s"
| "area_uploader_call (UploadingChange b) s = tell (PUploadingChange b) s"
| "area_uploader_call _ s = s"

definition handleDeleteRequest :: "string \<Rightarrow> area \<Rightarrow> area" where
  "handleDeleteRequest att s = s\<lparr>confirmTargetId := Some att\<rparr>"

definition handleCancelDelete :: "area \<Rightarrow> area" where
  "handleCancelDelete s = s\<lparr>confirmTargetId := None\<rparr>"

definition handleConfirmDelete :: "area_props \<Rightarrow> area \<Rightarrow> area" where
  "handleConfirmDelete pr s =
     (case confirmTargetId s of
        None \<Rightarrow> s
      | Some t \<Rightarrow>
          let s1 = tell (PDeletingChange True) (s\<lparr>confirmTargetId := None, deletingId := Some t\<rparr>);
              p = \<lparr>dp_reportId = ar_reportId pr, dp_itemId = ar_itemId pr, dp_attId = t\<rparr>
          in s1\<lparr>del_hook := delete_step (Mutate p) (del_hook s1)\<rparr>)"

definition delete_settled :: "js_error + jsval \<Rightarrow> area \<Rightarrow> area" where
  \<comment> \<open>the callbacks given to \<open>mutate\<close>\<close>
  "delete_settled res s =
     (let s1 = tell (PDeletingChange False) (s\<lparr>deletingId := None\<rparr>) in
      case res of
        Inr _ \<Rightarrow> showToast SevSuccess ATTACHMENT_DELETE_SUCCESS s1
      | Inl err \<Rightarrow>
          if is_AbortError err then tell PDeleteAborted s1
          else showToast SevError (message_or err msg_delete_failed) s1)"

definition settle_delete :: "nat \<Rightarrow> js_error + jsval \<Rightarrow> area \<Rightarrow> area" where
  "settle_delete k res s =
     (if hook_busy (del_hook s) k
      then delete_settled res (s\<lparr>del_hook := delete_step (Settle k res) (del_hook s)\<rparr>)
      else s)"

definition delete_pending :: "area \<Rightarrow> bool" where
  "delete_pending s \<longleftrightarrow> queued (del_hook s) \<noteq> [] \<or> in_flight (del_hook s) \<noteq> []"

definition unmount_area :: "area \<Rightarrow> area" where
  "unmount_area s =
     (let h = del_hook s; s1 = s\<lparr>del_hook := delete_step Unmount h\<rparr>
      in if notices (del_hook s1) = notices h then s1 else tell PDeleteAborted s1)"

datatype area_event =
    ERow row_event
  | EConfirmDelete
  | ECancelDelete
  | ECloseToast
  | EUploader uploader_event

fun map_events :: "('a \<Rightarrow> 'b) \<Rightarrow> 'a jsx \<Rightarrow> 'b jsx" where
  "map_events f (El t as cs) = El t (map (\<lambda>(k, a). (k, map_attr f a)) as) (map (map_events f) cs)"
| "map_events f (Txt s) = Txt s"
| "map_events f NullJsx = NullJsx"

definition render_area ::
  "area_props \<Rightarrow> attachment list \<Rightarrow> uploader_event jsx \<Rightarrow> area \<Rightarrow> area_event jsx" where
  "render_area pr atts up s =
     El ''div'' [(''data-testid'', AStr ''attachment-area'')]
       [map_events ERow (attachment_list (ar_canModify pr) (deletingId s) atts),
        when_jsx (ar_canModify pr) (map_events EUploader up),
        El ''AppToast'' [(''open'', ABool (to_open (area_toast s))), (''onClose'', AEv ECloseToast)]
          [Txt (to_message (area_toast s))],
        when_jsx (confirmTargetId s \<noteq> None)
          (El ''ConfirmDialog'' []
             [Txt ''Delete the attachment'', Txt ''Delete this attachment?'',
              El ''Button'' [(''onClick'', AEv ECancelDelete), (''disabled'', ABool (delete_pending s))]
                [Txt ''Cancel''],
              El ''Button'' [(''onClick'', AEv EConfirmDelete), (''disabled'', ABool (delete_pending s))]
                [Txt ''Delete'']])]"

subsection \<open>Add mode\<close>

fun add_mode_call :: "parent_call \<Rightarrow> area \<Rightarrow> area" where
  \<comment> \<open>the callbacks of the add mode: toasts as in edit mode, and the list for the panel\<close>
  "add_mode_call PendingFileAdded_Success s = showToast SevSuccess ATTACHMENT_UPLOAD_SUCCESS s"
| "add_mode_call PendingFileRemoved s = showToast SevSuccess ATTACHMENT_DELETE_SUCCESS s"
| "add_mode_call (PendingFilesChange fs) s = tell (PPendingFilesChange fs) s"
| "add_mode_call _ s = s"

datatype area_variant = AddModeArea nat | NothingShown | ContentArea string

definition attachmentArea :: "uploader_mode option \<Rightarrow> string option \<Rightarrow> nat \<Rightarrow> area_variant" where
  \<comment> \<open>which component is rendered, with its key\<close>
  "attachmentArea mode itemId resetKey =
     (if mode = Some AddMode then AddModeArea resetKey
      else (case itemId of None \<Rightarrow> NothingShown | Some i \<Rightarrow> ContentArea i))"

subsection \<open>Deletions\<close>

inductive area_step :: "area_props \<Rightarrow> area \<Rightarrow> area \<Rightarrow> bool" for pr :: area_props where
  ask: "ar_canModify pr \<Longrightarrow> deletingId s \<noteq> Some att \<Longrightarrow> area_step pr s (handleDeleteRequest att s)"
| cancel_ask: "\<not> delete_pending s \<Longrightarrow> area_step pr s (handleCancelDelete s)"
| confirm: "\<not> delete_pending s \<Longrightarrow> area_step pr s (handleConfirmDelete pr s)"
| delete_started: "area_step pr s (s\<lparr>del_hook := delete_step RunFn (del_hook s)\<rparr>)"
| delete_settles: "area_step pr s (settle_delete k res s)"
| panel_cancels: "queued (del_hook s) = [] \<Longrightarrow>
     area_step pr s (s\<lparr>del_hook := delete_step Cancel (del_hook s)\<rparr>)"
| uploader_calls: "area_step pr s (area_uploader_call c s)"
| toast_closes: "area_step pr s (closeToast s)"

definition deleting_changes :: "area \<Rightarrow> bool list" where
  "deleting_changes s = [b. PDeletingChange b \<leftarrow> panel_calls s]"

definition targets_marked :: "area_props \<Rightarrow> area \<Rightarrow> bool" where
  "targets_marked pr s \<longleftrightarrow>
     (\<forall>a. deletingId s = Some a \<longrightarrow>
        (\<forall>p \<in> set (map snd (queued (del_hook s)) @ map (\<lambda>x. fst (snd x)) (in_flight (del_hook s))).
           dp_attId p = a \<and> dp_itemId p = ar_itemId pr \<and> dp_reportId p = ar_reportId pr))"

definition area_inv :: "area_props \<Rightarrow> area \<Rightarrow> bool" where
  "area_inv pr s \<longleftrightarrow>
     hook_reach useDeleteAttachment (del_hook s) \<and>
     (deletingId s \<noteq> None \<longleftrightarrow> delete_pending s) \<and>
     targets_marked pr s \<and>
     (delete_pending s \<longleftrightarrow> deleting_changes s \<noteq> [] \<and> last (deleting_changes s)) \<and>
     (\<not> ar_canModify pr \<longrightarrow> confirmTargetId s = None \<and> requests (del_hook s) = [] \<and> \<not> delete_pending s)"

lemma area_simps [simp]:
  "del_hook (showToast sev m s) = del_hook s" "deletingId (showToast sev m s) = deletingId s"
  "confirmTargetId (showToast sev m s) = confirmTargetId s"
  "panel_calls (showToast sev m s) = panel_calls s"
  "del_hook (tell c s) = del_hook s" "deletingId (tell c s) = deletingId s"
  "confirmTargetId (tell c s) = confirmTargetId s" "panel_calls (tell c s) = panel_calls s @ [c]"
  "area_toast (tell c s) = area_toast s"
  "del_hook (closeToast s) = del_hook s" "deletingId (closeToast s) = deletingId s"
  "confirmTargetId (closeToast s) = confirmTargetId s" "panel_calls (closeToast s) = panel_calls s"
  by (simp_all add: showToast_def tell_def closeToast_def)

lemma uploader_call_keeps [simp]:
  "del_hook (area_uploader_call c s) = del_hook s" "deletingId (area_uploader_call c s) = deletingId s"
  "confirmTargetId (area_uploader_call c s) = confirmTargetId s"
  "deleting_changes (area_uploader_call c s) = deleting_changes s"
  by (cases c; simp add: deleting_changes_def)+

lemma delete_settled_simps [simp]:
  "del_hook (delete_settled res s) = del_hook s" "deletingId (delete_settled res s) = None"
  "confirmTargetId (delete_settled res s) = confirmTargetId s"
  "deleting_changes (delete_settled res s) = deleting_changes s @ [False]"
  by (simp_all add: delete_settled_def Let_def deleting_changes_def split: sum.split)

lemma delete_hook_effects:
  "queued (delete_step Cancel h) = queued h" "in_flight (delete_step Cancel h) = in_flight h"
  "requests (delete_step Cancel h) = requests h" "requests (delete_step (Settle k res) h) = requests h"
  "queued (delete_step (Settle k res) h) = queued h"
  "queued (delete_step (Mutate p) h) = queued h @ [(next_mutation h, p)]"
  "in_flight (delete_step (Mutate p) h) = in_flight h" "requests (delete_step (Mutate p) h) = requests h"
  by (auto simp: delete_step_def hook_cancel_def hook_settle_def hook_mutate_def Let_def
      split: option.split sum.split)

lemma delete_hook_settle_flight:
  "hook_busy h k \<Longrightarrow> in_flight (delete_step (Settle k res) h) = filter (\<lambda>x. fst x \<noteq> k) (in_flight h)"
  by (auto simp: delete_step_def hook_settle_def Let_def hook_busy_map_of split: option.split sum.split)

lemma delete_hook_run:
  "queued (delete_step RunFn h) = drop 1 (queued h)"
  "in_flight (delete_step RunFn h) = in_flight h @
     map (\<lambda>q. (fst q, snd q, abortController h)) (take 1 (queued h))"
  "queued h = [] \<Longrightarrow> requests (delete_step RunFn h) = requests h"
  by (auto simp: delete_step_def hook_run_fn_def Let_def split: list.split)

lemma delete_hook_reach:
  assumes "hook_reach useDeleteAttachment h" "one_at_a_time h e"
  shows "hook_reach useDeleteAttachment (delete_step e h)"
  unfolding delete_step_def using assms by (rule hook_reach_step)

lemma idle_after_settle:
  assumes "hook_reach useDeleteAttachment h" "hook_busy h k"
  shows "queued h = [] \<and> filter (\<lambda>x. fst x \<noteq> k) (in_flight h) = []"
  using hook_reach_inv [OF assms(1)] assms(2) by (cases rule: hook_inv_cases) auto

lemma area_inv_same:
  assumes "area_inv pr s" "del_hook t = del_hook s" "deletingId t = deletingId s"
    "deleting_changes t = deleting_changes s"
    "confirmTargetId t = confirmTargetId s \<or> confirmTargetId t = None \<or> ar_canModify pr"
  shows "area_inv pr t"
proof -
  have p: "delete_pending t = delete_pending s" by (simp add: delete_pending_def assms(2))
  show ?thesis
    using assms(1,5) unfolding area_inv_def targets_marked_def p assms(2-4) by fastforce
qed

lemma deleting_changes_simps [simp]:
  "deleting_changes (handleDeleteRequest a s) = deleting_changes s"
  "deleting_changes (handleCancelDelete s) = deleting_changes s"
  "deleting_changes (closeToast s) = deleting_changes s"
  by (simp_all add: deleting_changes_def handleDeleteRequest_def handleCancelDelete_def)

lemma area_inv_step: "area_step pr s t \<Longrightarrow> area_inv pr s \<Longrightarrow> area_inv pr t"
proof (induction rule: area_step.induct)
  case (confirm s)
  show ?case
  proof (cases "confirmTargetId s")
    case (Some a)
    have idle: "queued (del_hook s) = []" "in_flight (del_hook s) = []"
      using confirm.hyps by (auto simp: delete_pending_def)
    then have "hook_reach useDeleteAttachment (delete_step (Mutate p) (del_hook s))" for p
      using confirm.prems by (intro delete_hook_reach) (auto simp: area_inv_def one_at_a_time_def)
    then show ?thesis using Some confirm.prems idle
      by (auto simp: area_inv_def targets_marked_def handleConfirmDelete_def Let_def delete_pending_def
          delete_hook_effects deleting_changes_def)
  qed (use confirm.prems in \<open>simp add: handleConfirmDelete_def\<close>)
next
  case (delete_started s)
  have r: "hook_reach useDeleteAttachment (delete_step RunFn (del_hook s))"
    using delete_started by (intro delete_hook_reach) (auto simp: area_inv_def one_at_a_time_def)
  have same: "s\<lparr>del_hook := delete_step RunFn (del_hook s)\<rparr> = s" if "queued (del_hook s) = []"
    using that by (simp add: delete_step_def hook_run_fn_def)
  have "hook_inv (del_hook s)"
    using delete_started by (auto simp: area_inv_def intro: hook_reach_inv)
  then show ?case
    by (cases rule: hook_inv_cases)
      (use delete_started r same in \<open>auto simp: area_inv_def targets_marked_def delete_pending_def delete_hook_run deleting_changes_def\<close>)
next
  case (delete_settles s k res)
  show ?case
  proof (cases "hook_busy (del_hook s) k")
    case True
    have r: "hook_reach useDeleteAttachment (del_hook s)" using delete_settles by (simp add: area_inv_def)
    have "hook_reach useDeleteAttachment (delete_step (Settle k res) (del_hook s))"
      by (rule delete_hook_reach [OF r]) (simp add: one_at_a_time_def)
    then show ?thesis using True delete_settles idle_after_settle [OF r True]
      by (auto simp: area_inv_def targets_marked_def settle_delete_def delete_pending_def delete_hook_effects
          delete_hook_settle_flight [OF True] simp del: hook_busy_map_of)
  qed (use delete_settles in \<open>simp add: settle_delete_def\<close>)
next
  case (panel_cancels s)
  then have "hook_reach useDeleteAttachment (delete_step Cancel (del_hook s))"
    by (intro delete_hook_reach) (auto simp: area_inv_def one_at_a_time_def)
  then show ?case using panel_cancels
    by (auto simp: area_inv_def targets_marked_def delete_pending_def delete_hook_effects deleting_changes_def)
next
  case (ask s att)
  then show ?case by (intro area_inv_same [OF ask(3)]) (simp_all, simp_all add: handleDeleteRequest_def)
next
  case (cancel_ask s)
  then show ?case by (intro area_inv_same [OF cancel_ask(2)]) (simp_all, simp_all add: handleCancelDelete_def)
qed (erule area_inv_same; simp)+

lemma area_inv_mounted: "area_inv pr mounted_area"
  by (simp add: area_inv_def targets_marked_def mounted_area_def delete_pending_def deleting_changes_def
      hook_reach_fresh, simp add: fresh_hook_def)

interpretation ai: invariant_system "\<lambda>s. s = mounted_area" "area_step pr" "area_inv pr" for pr
  by unfold_locales (auto simp: area_inv_mounted intro: area_inv_step)

subsection \<open>Properties\<close>

abbreviation area_reach :: "area_props \<Rightarrow> area \<Rightarrow> bool" where
  "area_reach pr \<equiv> reach (\<lambda>s. s = mounted_area) (area_step pr)"

text \<open>
  A preview never leaves a blank tab behind: whatever the request for the signed URL gives, the tab
  that was opened is either sent to a non-empty URL or closed with an error message; if the browser
  blocks the tab, only the message is shown.
\<close>

theorem preview_leaves_no_blank_tab:
  "handlePreview blocked out = [RowError msg_popup] \<or>
   (\<exists>v. js_truthy v \<and> handlePreview blocked out = [OpenBlankTab, NavigateTab (js_to_string v)]) \<or>
   (\<exists>m. handlePreview blocked out = [OpenBlankTab, CloseTab, RowError m])"
  by (auto simp: handlePreview_def preview_fetched_def split: sum.split)

text \<open>
  After one success, a failed request is not reported: the library keeps the last data, so preview
  and download use the signed URL of the earlier request, without any message.
\<close>

theorem failed_refetch_uses_old_url:
  assumes "js_path v [''data'', ''url''] = Inr (JStr u)" and "u \<noteq> []" and "\<not> nullish v"
    and "js_path v [''data'', ''file_name''] = Inr (JStr n)"
  shows "handlePreview False (Inr (refetch_resolves v (Inl err))) = [OpenBlankTab, NavigateTab u] \<and>
    handleDownload (Inr (refetch_resolves v (Inl err))) = [ClickDownload u n]"
  using assms
  by (simp add: handlePreview_def preview_fetched_def handleDownload_def refetch_resolves_def
      result_member_def)

theorem failed_refetch_uses_old_url_witness:
  "handlePreview False (Inr (refetch_resolves
     (JObj [(''data'', JObj [(''url'', JStr ''u''), (''file_name'', JStr ''n'')])]) (Inl type_error)))
   = [OpenBlankTab, NavigateTab ''u'']"
  using failed_refetch_uses_old_url
    [of "JObj [(''data'', JObj [(''url'', JStr ''u''), (''file_name'', JStr ''n'')])]" "''u''" "''n''" type_error]
  by simp

text \<open>
  At most one deletion runs at a time, always for the attachment marked as being deleted, whose row
  is disabled: the mark is set exactly while a deletion is pending, the panel was last told exactly
  that, and without the right to modify nothing is ever asked or deleted.
\<close>

theorem deletions_are_marked:
  assumes "area_reach pr s"
  shows "(deletingId s \<noteq> None \<longleftrightarrow> delete_pending s) \<and>
    length (queued (del_hook s)) + length (in_flight (del_hook s)) \<le> 1 \<and>
    (\<forall>k p sig. (k, p, sig) \<in> set (in_flight (del_hook s)) \<longrightarrow>
       deletingId s = Some (dp_attId p) \<and> dp_itemId p = ar_itemId pr) \<and>
    (deleting_changes s \<noteq> [] \<longrightarrow> last (deleting_changes s) = delete_pending s) \<and>
    (\<not> ar_canModify pr \<longrightarrow> confirmTargetId s = None \<and> requests (del_hook s) = [])"
proof -
  have inv: "area_inv pr s" by (rule ai.invariant [OF assms])
  have "hook_inv (del_hook s)" using inv by (auto simp: area_inv_def intro: hook_reach_inv)
  then have one: "length (queued (del_hook s)) + length (in_flight (del_hook s)) \<le> 1"
    by (cases rule: hook_inv_cases) simp_all
  have "deletingId s = Some (dp_attId p) \<and> dp_itemId p = ar_itemId pr"
    if "(k, p, sig) \<in> set (in_flight (del_hook s))" for k p sig
  proof -
    have "delete_pending s" using that by (auto simp: delete_pending_def)
    then obtain a where a: "deletingId s = Some a" using inv by (auto simp: area_inv_def)
    have "targets_marked pr s" using inv by (simp add: area_inv_def)
    moreover have "p \<in> set (map snd (queued (del_hook s)) @ map (\<lambda>x. fst (snd x)) (in_flight (del_hook s)))"
      using that by force
    ultimately have "dp_attId p = a \<and> dp_itemId p = ar_itemId pr"
      using a unfolding targets_marked_def by blast
    with a show ?thesis by simp
  qed
  moreover have "deletingId s \<noteq> None \<longleftrightarrow> delete_pending s"
    "delete_pending s \<longleftrightarrow> deleting_changes s \<noteq> [] \<and> last (deleting_changes s)"
    "\<not> ar_canModify pr \<longrightarrow> confirmTargetId s = None \<and> requests (del_hook s) = []"
    using inv unfolding area_inv_def by blast+
  ultimately show ?thesis using one by blast
qed

theorem deletions_are_marked_witness:
  "\<exists>s. area_reach \<lparr>ar_reportId = ''r'', ar_itemId = ''i'', ar_canModify = True\<rparr> s \<and>
     deletingId s = Some ''a'' \<and> delete_pending s"
proof -
  let ?pr = "\<lparr>ar_reportId = ''r'', ar_itemId = ''i'', ar_canModify = True\<rparr>"
  let ?s1 = "handleDeleteRequest ''a'' mounted_area"
  let ?s2 = "handleConfirmDelete ?pr ?s1"
  have "area_reach ?pr ?s1"
    by (rule reach_step [OF reach_init], rule refl, rule ask) (simp_all add: mounted_area_def)
  then have r: "area_reach ?pr ?s2"
    by (rule reach_step, intro confirm)
      (simp add: delete_pending_def handleDeleteRequest_def mounted_area_def fresh_hook_def)
  have "deletingId ?s2 = Some ''a''"
    by (simp add: handleConfirmDelete_def handleDeleteRequest_def mounted_area_def Let_def)
  with r deletions_are_marked [OF r] show ?thesis by blast
qed

text \<open>
  The list offers deletion only with the right to modify, and nothing at all for the attachment
  that is being deleted; every other attachment can be previewed and downloaded.
\<close>

theorem attachment_list_offers:
  "(EDeleteRow a \<in> set (clickable (attachment_list canDelete busy atts)) \<longleftrightarrow>
     canDelete \<and> a \<in> at_id ` set atts \<and> busy \<noteq> Some a) \<and>
   (EPreviewRow a \<in> set (clickable (attachment_list canDelete busy atts)) \<longleftrightarrow>
     a \<in> at_id ` set atts \<and> busy \<noteq> Some a) \<and>
   (EDownloadRow a \<in> set (clickable (attachment_list canDelete busy atts)) \<longleftrightarrow>
     a \<in> at_id ` set atts \<and> busy \<noteq> Some a)"
  by (auto simp: attachment_list_def attachment_row_def Let_def own_events_def split: if_splits)

end
