(* ===== verification/Ui_Parts.thy ===== *)
theory Ui_Parts
  imports Api_Types
begin

text \<open>
  The shared widgets (frontend/src/components/ui/): alerts, buttons, chips, form fields, breadcrumbs,
  the pagination footer with its page size selector, and the toast. A widget is a function from its
  properties, with their defaults filled in, to the elements it renders; a callback property is the
  event it raises. Styles, layout boxes and icons are left out.
\<close>

subsection \<open>Alerts, buttons, chips\<close>

definition formAlert :: "string option \<Rightarrow> string \<Rightarrow> 'e jsx" where
  "formAlert message sev =
     (case message of None \<Rightarrow> NullJsx
      | Some m \<Rightarrow> El ''Alert'' [(''severity'', AStr sev), (''data-testid'', AStr ''form-alert'')] [Txt m])"

definition submitButton :: "string \<Rightarrow> bool \<Rightarrow> bool \<Rightarrow> 'e option \<Rightarrow> 'e jsx" where
  \<comment> \<open>the last argument: the submit event of the form around it\<close>
  "submitButton label loading disabled ev =
     El ''Button'' [(''type'', AStr ''submit''), (''disabled'', ABool (loading \<or> disabled)),
       (''aria-busy'', ABool loading), (''onClick'', ev_attr ev)]
       [when_jsx loading (El ''CircularProgress'' [] []), Txt label]"

definition emptyState :: "string \<Rightarrow> (string \<times> 'e) option \<Rightarrow> 'e jsx" where
  "emptyState message action =
     El ''Box'' []
       [El ''InboxIcon'' [] [], El ''Typography'' [] [Txt message],
        (case action of None \<Rightarrow> NullJsx
         | Some (label, ev) \<Rightarrow> El ''Button'' [(''onClick'', AEv ev)] [Txt label])]"

fun STATUS_CONFIG :: "report_status \<Rightarrow> string \<times> string" where
  "STATUS_CONFIG Draft = (''Draft'', ''default'')"
| "STATUS_CONFIG Submitted = (''Submitted'', ''info'')"
| "STATUS_CONFIG Approved = (''Approved'', ''success'')"
| "STATUS_CONFIG Rejected = (''Rejected'', ''error'')"
| "STATUS_CONFIG Paid = (''Paid'', ''secondary'')"

definition statusChip :: "report_status \<Rightarrow> 'e jsx" where
  "statusChip s =
     El ''Chip'' [(''label'', AStr (fst (STATUS_CONFIG s))), (''color'', AStr (snd (STATUS_CONFIG s)))] []"

definition selfLabel :: "bool \<Rightarrow> 'e jsx" where
  "selfLabel isOwn = (if \<not> isOwn then NullJsx else El ''Chip'' [(''label'', AStr ''You'')] [])"

definition filterResetButton :: "'e \<Rightarrow> bool \<Rightarrow> 'e jsx" where
  "filterResetButton onReset isFiltered =
     El ''Button'' [(''onClick'', AEv onReset), (''disabled'', ABool (\<not> isFiltered))] [Txt ''Reset the filters'']"

definition pageTitle :: "string \<Rightarrow> 'e jsx" where
  "pageTitle title = El ''Typography'' [(''component'', AStr ''h1'')] [Txt title]"

record breadcrumb =
  bc_label :: string
  bc_href :: "string option"

definition appBreadcrumbs :: "breadcrumb list \<Rightarrow> 'e jsx" where
  "appBreadcrumbs items =
     El ''Breadcrumbs'' []
       (map (\<lambda>i. let item = items ! i in
           if i = length items - 1 \<or> \<not> truthy_opt (bc_href item)
           then El ''Typography'' [] [Txt (bc_label item)]
           else El ''Link'' [(''to'', AStr (case bc_href item of Some h \<Rightarrow> h | None \<Rightarrow> []))] [Txt (bc_label item)])
         [0..<length items])"

subsection \<open>Toasts\<close>

datatype toast_severity = TSuccess | TError | TWarning | TInfo

definition toast_duration :: "toast_severity \<Rightarrow> nat option option \<Rightarrow> nat option" where
  \<comment> \<open>\<open>autoHideDuration\<close>: \<open>None\<close> when not given, \<open>Some None\<close> for \<open>null\<close>\<close>
  "toast_duration sev given =
     (case given of Some d \<Rightarrow> d | None \<Rightarrow> if sev = TError then None else Some 5000)"

definition toast_closes :: "string option \<Rightarrow> bool" where
  \<comment> \<open>\<open>handleClose\<close>: whether \<open>onClose\<close> is called for a reason\<close>
  "toast_closes reason \<longleftrightarrow> reason \<noteq> Some ''clickaway''"

definition appToast :: "bool \<Rightarrow> toast_severity \<Rightarrow> string \<Rightarrow> 'e \<Rightarrow> nat option option \<Rightarrow> 'e jsx" where
  "appToast isOpen sev message onClose given =
     El ''Snackbar'' [(''open'', ABool isOpen),
       (''autoHideDuration'', case toast_duration sev given of Some d \<Rightarrow> ANum d | None \<Rightarrow> AUndef)]
       [El ''Alert'' [(''onClose'', AEv onClose)] [Txt message]]"

subsection \<open>Skeletons\<close>

datatype skeleton_variant = SkTable | SkCard | SkForm

definition skeleton :: "string \<Rightarrow> 'e jsx" where
  "skeleton variant = El ''Skeleton'' [(''variant'', AStr variant)] []"

definition tableSkeleton :: "nat \<Rightarrow> 'e jsx" where
  "tableSkeleton rows =
     El ''Stack'' [] (skeleton ''rectangular'' # map (\<lambda>_. skeleton ''rectangular'') [0..<rows])"

definition cardSkeleton :: "'e jsx" where
  "cardSkeleton =
     El ''Stack'' [] [skeleton ''text'', skeleton ''rectangular'',
       El ''Box'' [] [skeleton ''text'', skeleton ''text''], skeleton ''rectangular'']"

definition formSkeleton :: "'e jsx" where
  "formSkeleton =
     El ''Stack'' [] [skeleton ''text'', skeleton ''rectangular'',
       El ''Box'' [] [skeleton ''rectangular'', skeleton ''rectangular''],
       El ''Box'' [] [skeleton ''rectangular'', skeleton ''rectangular'']]"

definition pageSkeleton :: "skeleton_variant \<Rightarrow> nat option \<Rightarrow> 'e jsx" where
  "pageSkeleton variant rows =
     (case variant of
        SkTable \<Rightarrow> El ''Box'' [(''data-testid'', AStr ''page-skeleton''), (''data-variant'', AStr ''table'')]
          [tableSkeleton (case rows of Some n \<Rightarrow> n | None \<Rightarrow> 5)]
      | SkCard \<Rightarrow> El ''Box'' [(''data-testid'', AStr ''page-skeleton''), (''data-variant'', AStr ''card'')]
          [cardSkeleton]
      | SkForm \<Rightarrow> El ''Box'' [(''data-testid'', AStr ''page-skeleton''), (''data-variant'', AStr ''form'')]
          [formSkeleton])"

lemma texts_of_skeleton [simp]: "texts_of (pageSkeleton v n) = []"
  by (cases v) (auto simp: pageSkeleton_def tableSkeleton_def cardSkeleton_def formSkeleton_def skeleton_def)

subsection \<open>Form fields\<close>

record text_field =
  tf_name :: string
  tf_label :: string
  tf_errorMessage :: "string option"
  tf_required :: bool
  tf_rest :: "(string \<times> string) list"

definition field_props :: "text_field \<Rightarrow> (string \<times> string option) list" where
  \<comment> \<open>the text properties of the MUI field in the order they are given; \<open>{...rest}\<close> comes last\<close>
  "field_props f =
     [(''name'', Some (tf_name f)), (''label'', Some (tf_label f)),
      (''error'', Some (if truthy_opt (tf_errorMessage f) then ''true'' else ''false'')),
      (''helperText'', (case tf_errorMessage f of Some m \<Rightarrow> Some m
                        | None \<Rightarrow> map_of (tf_rest f) ''helperText''))]
     @ map (\<lambda>(k, v). (k, Some v)) (tf_rest f)"

definition last_prop :: "string \<Rightarrow> (string \<times> 'a option) list \<Rightarrow> 'a option" where
  \<comment> \<open>of two properties with the same name the later one holds\<close>
  "last_prop k ps = (case map_of (rev ps) k of Some v \<Rightarrow> v | None \<Rightarrow> None)"

definition appTextField_helper :: "text_field \<Rightarrow> string option" where
  "appTextField_helper f = last_prop ''helperText'' (field_props f)"

definition appTextField :: "text_field \<Rightarrow> 'e \<Rightarrow> 'e jsx" where
  "appTextField f onChange =
     El ''TextField'' [(''name'', AStr (tf_name f)), (''onChange'', AEv onChange),
       (''error'', ABool (last_prop ''error'' (field_props f) = Some ''true'')),
       (''required'', ABool (tf_required f)),
       (''disabled'', ABool (last_prop ''disabled'' (field_props f) = Some ''true''))]
       [Txt (tf_label f), (case appTextField_helper f of Some m \<Rightarrow> Txt m | None \<Rightarrow> NullJsx)]"

definition appDatePicker ::
  "string \<Rightarrow> string \<Rightarrow> string \<Rightarrow> string option \<Rightarrow> bool \<Rightarrow> bool \<Rightarrow> 'e \<Rightarrow> 'e jsx" where
  "appDatePicker name label val errorMessage required disabled onChange =
     El ''TextField'' [(''name'', AStr name), (''type'', AStr ''date''), (''value'', AStr val),
       (''onChange'', AEv onChange), (''disabled'', ABool disabled),
       (''error'', ABool (truthy_opt errorMessage)), (''required'', ABool required)]
       [Txt label, (case errorMessage of Some m \<Rightarrow> Txt m | None \<Rightarrow> NullJsx)]"

record select_props =
  se_name :: string
  se_label :: string
  se_options :: "(string \<times> string) list"
  se_value :: string
  se_placeholder :: "string option"
  se_errorMessage :: "string option"
  se_required :: bool
  se_disabled :: bool
  se_readOnly :: bool

definition select_displays_empty :: "select_props \<Rightarrow> bool" where
  "select_displays_empty p \<longleftrightarrow>
     truthy_opt (se_placeholder p) \<or> list_ex (\<lambda>opt. fst opt = []) (se_options p)"

definition select_shrinks :: "select_props \<Rightarrow> bool" where
  "select_shrinks p \<longleftrightarrow> select_displays_empty p \<and> se_value p = []"

definition select_items :: "select_props \<Rightarrow> (string \<times> string) list" where
  "select_items p =
     (case se_placeholder p of Some t \<Rightarrow> if t \<noteq> [] then [([], t)] else [] | None \<Rightarrow> []) @ se_options p"

definition appSelect :: "select_props \<Rightarrow> 'e \<Rightarrow> 'e jsx" where
  "appSelect p onChange =
     El ''FormControl'' [(''error'', ABool (truthy_opt (se_errorMessage p)))]
       [El ''InputLabel'' [(''shrink'', if select_shrinks p then ABool True else AUndef)] [Txt (se_label p)],
        El ''Select'' [(''name'', AStr (se_name p)), (''value'', AStr (se_value p)),
          (''onChange'', AEv onChange), (''disabled'', ABool (se_disabled p)),
          (''readOnly'', ABool (se_readOnly p)), (''displayEmpty'', ABool (select_displays_empty p)),
          (''required'', ABool (se_required p))]
          (map (\<lambda>(v, l). El ''MenuItem'' [(''value'', AStr v)] [Txt l]) (select_items p)),
        (case se_errorMessage p of Some m \<Rightarrow> when_jsx (m \<noteq> []) (El ''FormHelperText'' [] [Txt m])
         | None \<Rightarrow> NullJsx)]"

subsection \<open>Pagination\<close>

definition appPagination :: "int \<Rightarrow> int \<Rightarrow> bool \<Rightarrow> 'e \<Rightarrow> 'e jsx" where
  "appPagination currentPage totalPages disabled onPageChange =
     El ''Pagination'' [(''count'', AStr (show_int totalPages)), (''page'', AStr (show_int currentPage)),
       (''onChange'', AEv onPageChange), (''disabled'', ABool disabled)] []"

definition DEFAULT_STANDARD_OPTIONS :: "int list" where
  "DEFAULT_STANDARD_OPTIONS = [10, 20, 50, 100]"

definition page_size_options :: "int list \<Rightarrow> int \<Rightarrow> int list" where
  "page_size_options standardOptions perPage = sort (remdups (standardOptions @ [perPage]))"

definition pageSizeSelector :: "int \<Rightarrow> int list \<Rightarrow> bool \<Rightarrow> 'e \<Rightarrow> 'e jsx" where
  "pageSizeSelector perPage standardOptions disabled onPerPageChange =
     El ''Select'' [(''value'', AStr (show_int perPage)), (''onChange'', AEv onPerPageChange),
       (''disabled'', ABool disabled)]
       (map (\<lambda>size. El ''MenuItem'' [(''value'', AStr (show_int size))] [Txt (show_int size @ '' items'')])
         (page_size_options standardOptions perPage))"

definition shown_range :: "int \<Rightarrow> int \<Rightarrow> int \<Rightarrow> int \<times> int" where
  \<comment> \<open>\<open>start\<close> and \<open>end\<close> of the count text\<close>
  "shown_range currentPage perPage totalCount =
     (if totalCount = 0 then 0 else (currentPage - 1) * perPage + 1,
      min (currentPage * perPage) totalCount)"

definition count_text :: "int \<Rightarrow> int \<Rightarrow> int \<Rightarrow> string" where
  "count_text currentPage perPage totalCount =
     (case shown_range currentPage perPage totalCount of
        (s, e) \<Rightarrow> show_int s @ '' - '' @ show_int e @ '' / '' @ show_int totalCount)"

definition appPaginationFooter ::
  "int \<Rightarrow> int \<Rightarrow> int \<Rightarrow> int list \<Rightarrow> bool \<Rightarrow> int option \<Rightarrow> 'e \<Rightarrow> 'e \<Rightarrow> 'e jsx" where
  "appPaginationFooter currentPage totalPages perPage standardOptions disabled totalCount onPage onSize =
     (let pages = appPagination currentPage (max totalPages 1) disabled onPage;
          size = pageSizeSelector perPage standardOptions disabled onSize
      in case totalCount of
           Some n \<Rightarrow> El ''Box'' [] [El ''Typography'' [] [Txt (count_text currentPage perPage n)], pages, size]
         | None \<Rightarrow> El ''Box'' [] [El ''Box'' [] [], pages, size])"

definition appDataGrid :: "'r list \<Rightarrow> ('r \<Rightarrow> 'e jsx) \<Rightarrow> bool \<Rightarrow> string \<Rightarrow> 'e jsx option \<Rightarrow> 'e jsx option \<Rightarrow> 'e jsx" where
  \<comment> \<open>the arguments after \<open>loading\<close> and \<open>emptyMessage\<close>: the slots of the caller for no rows and for the footer\<close>
  "appDataGrid rows render_row loading emptyMessage noRows footer =
     El ''DataGrid'' [(''loading'', ABool loading)]
       [(if rows = [] then (case noRows of Some x \<Rightarrow> x | None \<Rightarrow> El ''Typography'' [] [Txt emptyMessage])
         else El ''rows'' [] (map render_row rows)),
        (case footer of Some f \<Rightarrow> f | None \<Rightarrow> NullJsx)]"

subsection \<open>Properties\<close>

text \<open>
  The count text of the footer is right for every page there is: with a positive page size the
  ranges of pages 1, 2, ... are not empty, lie within the total, and each begins right after the end of
  the one before, the first at 1 and the last at the total; with no items it is 0 - 0.
\<close>

theorem page_ranges_tile:
  assumes "0 < per"
  shows "(0 < n \<and> 1 \<le> page \<and> (page - 1) * per < n \<longrightarrow>
      (case shown_range page per n of (s, e) \<Rightarrow> 1 \<le> s \<and> s \<le> e \<and> e \<le> n \<and> e - s < per)) \<and>
    (0 < n \<and> 1 \<le> page \<and> page * per < n \<longrightarrow>
      fst (shown_range (page + 1) per n) = snd (shown_range page per n) + 1) \<and>
    (0 < n \<longrightarrow> fst (shown_range 1 per n) = 1) \<and>
    (n \<le> page * per \<longrightarrow> snd (shown_range page per n) = n) \<and>
    (1 \<le> page \<longrightarrow> shown_range page per 0 = (0, 0))"
proof -
  have grow: "(page - 1) * per + per = page * per" by (simp add: algebra_simps)
  have pos: "1 \<le> page \<Longrightarrow> 0 \<le> (page - 1) * per" using assms by simp
  show ?thesis
  proof (intro conjI impI)
    assume "0 < n \<and> 1 \<le> page \<and> (page - 1) * per < n"
    then show "case shown_range page per n of (s, e) \<Rightarrow> 1 \<le> s \<and> s \<le> e \<and> e \<le> n \<and> e - s < per"
      using grow pos assms by (auto simp: shown_range_def)
  next
    assume "1 \<le> page"
    then have "0 \<le> page * per" using assms by simp
    then show "shown_range page per 0 = (0, 0)" by (simp add: shown_range_def)
  qed (auto simp: shown_range_def)
qed

theorem page_ranges_tile_witness:
  "shown_range 2 20 35 = (21, 35) \<and> fst (shown_range 2 20 35) = snd (shown_range 1 20 35) + 1"
  using page_ranges_tile [of 20 35 1] by (simp add: shown_range_def)

text \<open>
  The page size selector always offers the current size: its options are the standard ones and the
  current size, without duplicates and in ascending order.
\<close>

theorem page_size_options_spec:
  "set (page_size_options std n) = insert n (set std) \<and> distinct (page_size_options std n) \<and>
   sorted (page_size_options std n)"
  by (auto simp: page_size_options_def)

text \<open>
  A helper text given to \<open>AppTextField\<close> hides its error message: the field is marked as wrong, but
  shows the helper text, although the code computes the error message as the one to show.
\<close>

theorem helper_text_hides_error:
  assumes "map_of (rev (tf_rest f)) ''helperText'' = Some h"
  shows "appTextField_helper f = Some h"
proof -
  have "map_of (rev (map (\<lambda>(k, v). (k, Some v)) xs)) k = map_option Some (map_of (rev xs) k)"
    for xs :: "(string \<times> string) list" and k
    unfolding rev_map by (simp add: map_of_map)
  with assms show ?thesis
    by (simp add: appTextField_helper_def last_prop_def field_props_def)
qed

theorem helper_text_hides_error_witness:
  "appTextField_helper \<lparr>tf_name = ''n'', tf_label = ''l'', tf_errorMessage = Some ''required'',
     tf_required = True, tf_rest = [(''helperText'', ''hint'')]\<rparr> = Some ''hint''"
  by (rule helper_text_hides_error) simp

text \<open>
  Errors stay until they are dismissed: an error toast is never hidden after a time unless its
  caller asks for it, every other toast is hidden after five seconds, and clicking elsewhere closes
  neither.
\<close>

theorem error_toasts_stay:
  "toast_duration TError None = None \<and> (sev = TError \<or> toast_duration sev None = Some 5000) \<and>
   \<not> toast_closes (Some ''clickaway'') \<and> toast_closes None \<and> toast_closes (Some ''timeout'')"
  by (simp add: toast_duration_def toast_closes_def)

end
