(* ===== verification/Confirm_Dialog.thy ===== *)
theory Confirm_Dialog
  imports Ui_Parts
begin

text \<open>
  The confirmation dialog (frontend/src/components/ui/ConfirmDialog.tsx) with the hook that keeps the
  value of the previous render (frontend/src/hooks/usePrevious.ts). A render computes what is shown from
  the properties and the state; committing it runs the effects: \<open>usePrevious\<close> stores the properties
  (for each property the hook has its own ref, all written at a commit), and the effect on \<open>open\<close>
  resets the input when the dialog has closed.
\<close>

subsection \<open>Properties and state\<close>

record input_field =
  fi_label :: string
  fi_placeholder :: "string option"
  fi_required :: bool
  fi_maxLength :: nat
  fi_multiline :: bool
  fi_errorMessage :: "string option"

record dialog_props =
  dl_open :: bool
  dl_title :: string
  dl_message :: string
  dl_confirmLabel :: string
  dl_confirmColor :: string
  dl_cancelLabel :: string
  dl_inputField :: "input_field option"
  dl_loading :: bool
  dl_apiError :: "string option"

record dialog =
  inputValue :: string
  touched :: bool
  previous :: "dialog_props option"

definition mounted_dialog :: dialog where
  "mounted_dialog = \<lparr>inputValue = [], touched = False, previous = None\<rparr>"

subsection \<open>Rendering\<close>

definition kept :: "('p \<Rightarrow> 'a) \<Rightarrow> 'p option \<Rightarrow> 'p \<Rightarrow> bool \<Rightarrow> 'a" where
  \<comment> \<open>\<open>open ? value : (previous ?? value)\<close> for a value that is never null\<close>
  "kept f prev p isOpen = (if isOpen then f p else (case prev of Some q \<Rightarrow> f q | None \<Rightarrow> f p))"

definition kept_opt :: "('p \<Rightarrow> 'a option) \<Rightarrow> 'p option \<Rightarrow> 'p \<Rightarrow> bool \<Rightarrow> 'a option" where
  \<comment> \<open>the same for a value that may be null or undefined\<close>
  "kept_opt f prev p isOpen =
     (if isOpen then f p
      else (case prev of Some q \<Rightarrow> (case f q of Some v \<Rightarrow> Some v | None \<Rightarrow> f p) | None \<Rightarrow> f p))"

record shown =
  sh_title :: string
  sh_message :: string
  sh_confirmLabel :: string
  sh_confirmColor :: string
  sh_inputField :: "input_field option"
  sh_apiError :: "string option"

definition display :: "dialog_props \<Rightarrow> dialog \<Rightarrow> shown" where
  "display p s =
     (let o' = dl_open p; prev = previous s in
      \<lparr>sh_title = kept dl_title prev p o', sh_message = kept dl_message prev p o',
       sh_confirmLabel = kept dl_confirmLabel prev p o', sh_confirmColor = kept dl_confirmColor prev p o',
       sh_inputField = kept_opt dl_inputField prev p o', sh_apiError = kept_opt dl_apiError prev p o'\<rparr>)"

definition shows_of :: "dialog_props \<Rightarrow> shown" where
  "shows_of p = \<lparr>sh_title = dl_title p, sh_message = dl_message p, sh_confirmLabel = dl_confirmLabel p,
     sh_confirmColor = dl_confirmColor p, sh_inputField = dl_inputField p, sh_apiError = dl_apiError p\<rparr>"

definition required_input :: "shown \<Rightarrow> bool" where
  "required_input d \<longleftrightarrow> (case sh_inputField d of Some f \<Rightarrow> fi_required f | None \<Rightarrow> False)"

definition isInvalid :: "dialog_props \<Rightarrow> dialog \<Rightarrow> bool" where
  "isInvalid p s \<longleftrightarrow> required_input (display p s) \<and> touched s \<and> js_trim (inputValue s) = []"

definition helper_text :: "dialog_props \<Rightarrow> dialog \<Rightarrow> input_field \<Rightarrow> string" where
  "helper_text p s f =
     (case fi_errorMessage f of
        Some m \<Rightarrow> if isInvalid p s \<and> m \<noteq> [] then m
                  else show_nat (length (inputValue s)) @ '' / '' @ show_nat (fi_maxLength f)
      | None \<Rightarrow> show_nat (length (inputValue s)) @ '' / '' @ show_nat (fi_maxLength f))"

datatype dialog_event = EConfirm | EClose | EInput | EBlur

definition render_dialog :: "dialog_props \<Rightarrow> dialog \<Rightarrow> dialog_event jsx" where
  "render_dialog p s =
     (let d = display p s in
      El ''Dialog'' [(''open'', ABool (dl_open p)), (''onClose'', if dl_loading p then AUndef else AEv EClose)]
        [El ''DialogTitle'' [] [Txt (sh_title d)],
         El ''DialogContent'' []
           [formAlert (sh_apiError d) ''error'',
            El ''DialogContentText'' [] [Txt (sh_message d)],
            (case sh_inputField d of None \<Rightarrow> NullJsx
             | Some f \<Rightarrow>
                 El ''TextField'' [(''required'', ABool (fi_required f)), (''value'', AStr (inputValue s)),
                   (''maxLength'', ANum (fi_maxLength f)), (''error'', ABool (isInvalid p s)),
                   (''onChange'', AEv EInput), (''onBlur'', AEv EBlur)]
                   [Txt (fi_label f), Txt (helper_text p s f)])],
         El ''DialogActions'' []
           [El ''Button'' [(''onClick'', AEv EClose), (''disabled'', ABool (dl_loading p))]
              [Txt (dl_cancelLabel p)],
            El ''Button'' [(''onClick'', AEv EConfirm), (''disabled'', ABool (dl_loading p)),
              (''color'', AStr (sh_confirmColor d))]
              [when_jsx (dl_loading p) (El ''CircularProgress'' [] []), Txt (sh_confirmLabel d)]]])"

subsection \<open>Effects and handlers\<close>

definition open_changed :: "dialog_props \<Rightarrow> dialog \<Rightarrow> bool" where
  "open_changed p s \<longleftrightarrow> (case previous s of None \<Rightarrow> True | Some q \<Rightarrow> dl_open q \<noteq> dl_open p)"

definition commit :: "dialog_props \<Rightarrow> dialog \<Rightarrow> dialog" where
  \<comment> \<open>the effects after a render with \<open>p\<close>\<close>
  "commit p s =
     (let s1 = (if open_changed p s \<and> \<not> dl_open p then s\<lparr>inputValue := [], touched := False\<rparr> else s)
      in s1\<lparr>previous := Some p\<rparr>)"

definition renders_again :: "dialog_props \<Rightarrow> dialog \<Rightarrow> bool" where
  \<comment> \<open>the effects changed the state, so the component renders once more with the same properties\<close>
  "renders_again p s \<longleftrightarrow>
     inputValue (commit p s) \<noteq> inputValue s \<or> touched (commit p s) \<noteq> touched s"

datatype dialog_call = OnConfirm "string option" | OnCancel

definition handleConfirm :: "dialog_props \<Rightarrow> dialog \<Rightarrow> dialog_call list \<times> dialog" where
  "handleConfirm p s =
     (let d = display p s in
      if required_input d \<and> js_trim (inputValue s) = [] then ([], s\<lparr>touched := True\<rparr>)
      else (case sh_inputField d of
              Some _ \<Rightarrow> ([OnConfirm (Some (inputValue s))], s)
            | None \<Rightarrow> ([OnConfirm None], s)))"

definition handleClose :: "dialog \<Rightarrow> dialog_call list \<times> dialog" where
  "handleClose s = ([OnCancel], s\<lparr>inputValue := [], touched := False\<rparr>)"

definition handleInput :: "string \<Rightarrow> dialog \<Rightarrow> dialog" where
  "handleInput v s =
     (let s1 = s\<lparr>inputValue := v\<rparr>
      in if js_trim v \<noteq> [] \<and> touched s then s1\<lparr>touched := False\<rparr> else s1)"

definition handleBlur :: "dialog \<Rightarrow> dialog" where
  "handleBlur s = s\<lparr>touched := True\<rparr>"

text \<open>A click on the rendered dialog, with the handler it runs.\<close>

definition click_dialog :: "dialog_event \<Rightarrow> dialog_props \<Rightarrow> dialog \<Rightarrow> dialog_call list \<times> dialog" where
  "click_dialog e p s =
     (if e \<in> set (clickable (render_dialog p s))
      then (case e of EConfirm \<Rightarrow> handleConfirm p s | EClose \<Rightarrow> handleClose s | _ \<Rightarrow> ([], s))
      else ([], s))"

inductive dialog_reach :: "dialog \<Rightarrow> bool" where
  dialog_mounted: "dialog_reach mounted_dialog"
| dialog_commit: "dialog_reach s \<Longrightarrow> dialog_reach (commit p s)"
| dialog_input: "dialog_reach s \<Longrightarrow> previous s = Some p \<Longrightarrow> dl_open p \<Longrightarrow> dialog_reach (handleInput v s)"
| dialog_blur: "dialog_reach s \<Longrightarrow> previous s = Some p \<Longrightarrow> dl_open p \<Longrightarrow> dialog_reach (handleBlur s)"
| dialog_click: "dialog_reach s \<Longrightarrow> previous s = Some p \<Longrightarrow> dl_open p \<Longrightarrow>
     dialog_reach (snd (click_dialog e p s))"

lemma clickable_dialog:
  "set (clickable (render_dialog p s)) = (if dl_loading p then {} else {EClose, EConfirm})"
  by (auto simp: render_dialog_def Let_def own_events_def formAlert_def split: option.split)

lemma handleConfirm_calls:
  "fst (handleConfirm p s) =
     (case sh_inputField (display p s) of
        None \<Rightarrow> [OnConfirm None]
      | Some f \<Rightarrow> if fi_required f \<and> js_trim (inputValue s) = [] then [] else [OnConfirm (Some (inputValue s))])"
  by (auto simp: handleConfirm_def Let_def required_input_def split: option.split)

lemma display_open: "dl_open p \<Longrightarrow> display p s = shows_of p"
  by (simp add: display_def shows_of_def kept_def kept_opt_def Let_def)

lemma display_closing_next:
  "\<not> dl_open p \<Longrightarrow> previous s = Some p \<Longrightarrow> display p s = shows_of p"
  by (simp add: display_def shows_of_def kept_def kept_opt_def Let_def split: option.split)

lemma closed_is_reset:
  "dialog_reach s \<Longrightarrow> previous s = Some p \<Longrightarrow> \<not> dl_open p \<Longrightarrow> inputValue s = [] \<and> touched s = False"
proof (induction arbitrary: p rule: dialog_reach.induct)
  case (dialog_commit s q)
  then show ?case
    by (cases "previous s") (auto simp: commit_def Let_def open_changed_def)
qed (auto simp: mounted_dialog_def handleInput_def handleBlur_def click_dialog_def handleClose_def
    handleConfirm_def Let_def split: dialog_event.splits option.splits if_splits)

subsection \<open>Properties\<close>

definition demo_dialog_props :: "bool \<Rightarrow> string \<Rightarrow> dialog_props" where
  "demo_dialog_props isOpen label =
     \<lparr>dl_open = isOpen, dl_title = ''t'', dl_message = ''m'', dl_confirmLabel = label,
      dl_confirmColor = ''primary'', dl_cancelLabel = ''Cancel'', dl_inputField = None,
      dl_loading = False, dl_apiError = None\<rparr>"

text \<open>
  A click on the open dialog calls back exactly as it should: nothing while it is loading; on the
  confirm button, the callback gets the input as it stands if there is a field, and is not called at all
  while a required field is blank, which is then marked as wrong; on the cancel button, the cancel
  callback is called once.
\<close>

theorem dialog_clicks:
  assumes "dl_open p"
  shows "fst (click_dialog EConfirm p s) =
      (if dl_loading p then []
       else (case dl_inputField p of
          None \<Rightarrow> [OnConfirm None]
        | Some f \<Rightarrow> if fi_required f \<and> (\<forall>c \<in> set (inputValue s). js_ws c) then []
                   else [OnConfirm (Some (inputValue s))])) \<and>
    fst (click_dialog EClose p s) = (if dl_loading p then [] else [OnCancel]) \<and>
    (\<not> dl_loading p \<and> fst (click_dialog EConfirm p s) = [] \<longrightarrow>
       isInvalid p (snd (click_dialog EConfirm p s)))"
  using assms
  by (auto simp: click_dialog_def clickable_dialog handleConfirm_def handleClose_def display_open
      shows_of_def required_input_def isInvalid_def js_trim_eq_Nil Let_def split: option.splits)

theorem dialog_clicks_witness:
  "fst (click_dialog EConfirm
      \<lparr>dl_open = True, dl_title = ''t'', dl_message = ''m'', dl_confirmLabel = ''Reject'',
       dl_confirmColor = ''error'', dl_cancelLabel = ''Cancel'',
       dl_inputField = Some \<lparr>fi_label = ''Reason'', fi_placeholder = None, fi_required = True,
         fi_maxLength = 1000, fi_multiline = True, fi_errorMessage = Some ''Enter a reason''\<rparr>,
       dl_loading = False, dl_apiError = None\<rparr>
      \<lparr>inputValue = '' '', touched = False, previous = None\<rparr>) = []"
  by (subst dialog_clicks [THEN conjunct1]) (simp_all add: js_ws_def)

text \<open>
  Every time the dialog opens it starts clean: in every reachable state after a render in which it was
  closed, the input is empty and untouched, so the first render of the next opening marks no field as
  wrong, however it was closed before.
\<close>

theorem reopened_dialog_is_clean:
  assumes "dialog_reach s" and "previous s = Some q" and "\<not> dl_open q"
  shows "inputValue s = [] \<and> \<not> isInvalid p s \<and>
    (dl_open p \<and> required_input (shows_of p) \<longrightarrow> \<not> dl_loading p \<longrightarrow> fst (click_dialog EConfirm p s) = [])"
  using closed_is_reset [OF assms]
  by (auto simp: isInvalid_def click_dialog_def clickable_dialog handleConfirm_def display_open
      Let_def js_trim_eq_Nil)

theorem reopened_dialog_is_clean_witness:
  "inputValue (commit (demo_dialog_props False ''Pay'') mounted_dialog) = [] \<and>
   \<not> isInvalid (demo_dialog_props True ''Pay'') (commit (demo_dialog_props False ''Pay'') mounted_dialog)"
proof -
  have "previous (commit (demo_dialog_props False ''Pay'') mounted_dialog) = Some (demo_dialog_props False ''Pay'')"
    by (simp add: commit_def Let_def)
  from reopened_dialog_is_clean [OF dialog_commit [OF dialog_mounted] this, of "demo_dialog_props True ''Pay''"]
  show ?thesis by (simp add: demo_dialog_props_def)
qed

text \<open>
  While the dialog closes, the first render keeps everything that was shown, if the new properties
  are null wherever the old ones were; but this holds for one render only: when anything was typed or
  touched, the reset of the input renders the dialog again, and the second render already shows the new
  properties.
\<close>

theorem closing_dialog_display:
  assumes "previous s = Some q" and "dl_open q" and "\<not> dl_open p"
    and "dl_inputField q = None \<Longrightarrow> dl_inputField p = None" and "dl_apiError q = None \<Longrightarrow> dl_apiError p = None"
  shows "display p s = shows_of q \<and>
    (renders_again p s \<longleftrightarrow> inputValue s \<noteq> [] \<or> touched s) \<and>
    display p (commit p s) = shows_of p"
proof -
  have "display p s = shows_of q"
    using assms by (auto simp: display_def shows_of_def kept_def kept_opt_def Let_def split: option.split)
  moreover have "renders_again p s \<longleftrightarrow> inputValue s \<noteq> [] \<or> touched s"
    using assms by (auto simp: renders_again_def commit_def open_changed_def Let_def)
  moreover have "display p (commit p s) = shows_of p"
    using assms(3) by (intro display_closing_next) (simp_all add: commit_def Let_def)
  ultimately show ?thesis by blast
qed

theorem closing_dialog_display_witness:
  "sh_confirmLabel (display (demo_dialog_props False ''Pay'')
      \<lparr>inputValue = ''ok'', touched = False, previous = Some (demo_dialog_props True ''Approve'')\<rparr>) = ''Approve'' \<and>
   renders_again (demo_dialog_props False ''Pay'')
      \<lparr>inputValue = ''ok'', touched = False, previous = Some (demo_dialog_props True ''Approve'')\<rparr>"
  using closing_dialog_display
    [of "\<lparr>inputValue = ''ok'', touched = False, previous = Some (demo_dialog_props True ''Approve'')\<rparr>"
        "demo_dialog_props True ''Approve''" "demo_dialog_props False ''Pay''"]
  by (simp add: demo_dialog_props_def shows_of_def)

end
