(* ===== verification/Item_Form.thy ===== *)
theory Item_Form
  imports Complex_Main Confirm_Dialog Attachment_Area
begin

text \<open>
  The item form (frontend/src/pages/reports/ItemForm.tsx): the validation schema, the warning about a
  date outside the period of the report, and what the form renders. The form library is third-party: its
  documented behaviour is that \<open>handleSubmit\<close> calls back with the values when the resolver finds no error
  and stores the errors otherwise, and that \<open>reset\<close> sets the values and the default values; when it
  calls a form dirty is the parameter \<open>differs\<close>. The callbacks of the parent are values of a type
  parameter, so that a stored callback is the one of the render that stored it.
\<close>

subsection \<open>Values and validation\<close>

datatype amount = NotANumber | Amount rat

record item_values =
  iv_expenseDate :: string
  iv_amount :: amount
  iv_categoryId :: string
  iv_description :: string

definition blank_item :: item_values where
  "blank_item = \<lparr>iv_expenseDate = [], iv_amount = NotANumber, iv_categoryId = [], iv_description = []\<rparr>"

abbreviation "msg_date \<equiv> ''Enter a date''"
abbreviation "msg_amount \<equiv> ''Enter an amount''"
abbreviation "msg_amount_int \<equiv> ''Enter whole yen''"
abbreviation "msg_amount_positive \<equiv> ''Enter a positive amount''"
abbreviation "msg_category \<equiv> ''Select a category''"
abbreviation "msg_description \<equiv> ''Enter a description''"
abbreviation "msg_description_max \<equiv> ''Enter a description of at most 500 characters''"

definition safe_integer :: "rat \<Rightarrow> bool" where
  \<comment> \<open>what \<open>.int()\<close> accepts: integers that a double holds exactly\<close>
  "safe_integer r \<longleftrightarrow> snd (quotient_of r) = 1 \<and> \<bar>fst (quotient_of r)\<bar> < 2 ^ 53"

definition date_error :: "string \<Rightarrow> string option" where
  "date_error s = (if length s < 1 then Some msg_date else None)"

definition amount_error :: "amount \<Rightarrow> string option" where
  "amount_error a =
     (case a of
        NotANumber \<Rightarrow> Some msg_amount
      | Amount r \<Rightarrow> if \<not> safe_integer r then Some msg_amount_int
                     else if \<not> 0 < r then Some msg_amount_positive else None)"

definition category_error :: "string \<Rightarrow> string option" where
  "category_error s = (if length s < 1 then Some msg_category else None)"

definition description_error :: "string \<Rightarrow> string option" where
  "description_error s =
     (if length s < 1 then Some msg_description
      else if 500 < length s then Some msg_description_max else None)"

record item_errors =
  ie_expenseDate :: "string option"
  ie_amount :: "string option"
  ie_categoryId :: "string option"
  ie_description :: "string option"

definition no_item_errors :: item_errors where
  "no_item_errors = \<lparr>ie_expenseDate = None, ie_amount = None, ie_categoryId = None, ie_description = None\<rparr>"

definition itemFormSchema :: "item_values \<Rightarrow> item_errors" where
  \<comment> \<open>the first message of each field\<close>
  "itemFormSchema v =
     \<lparr>ie_expenseDate = date_error (iv_expenseDate v), ie_amount = amount_error (iv_amount v),
      ie_categoryId = category_error (iv_categoryId v), ie_description = description_error (iv_description v)\<rparr>"

definition item_valid :: "item_values \<Rightarrow> bool" where
  "item_valid v \<longleftrightarrow> itemFormSchema v = no_item_errors"

definition amount_yen :: "amount \<Rightarrow> int" where
  \<comment> \<open>the number that goes into the request; only validated amounts are sent\<close>
  "amount_yen a = (case a of Amount r \<Rightarrow> fst (quotient_of r) | NotANumber \<Rightarrow> 0)"

lemma item_valid_iff:
  "item_valid v \<longleftrightarrow> iv_expenseDate v \<noteq> [] \<and>
     (\<exists>n. iv_amount v = Amount (of_int n) \<and> 0 < n \<and> n < 2 ^ 53) \<and>
     iv_categoryId v \<noteq> [] \<and> 1 \<le> length (iv_description v) \<and> length (iv_description v) \<le> 500"
proof -
  have "amount_error a = None \<longleftrightarrow> (\<exists>n. a = Amount (of_int n) \<and> 0 < n \<and> n < 2 ^ 53)" for a
  proof (cases a)
    case (Amount r)
    have q: "r = of_int (fst (quotient_of r))" if "snd (quotient_of r) = 1"
      using quotient_of_div [OF prod.collapse [symmetric], of r] that by simp
    show ?thesis
    proof
      assume "amount_error a = None"
      then have "snd (quotient_of r) = 1" "\<bar>fst (quotient_of r)\<bar> < 2 ^ 53" "0 < r"
        using Amount by (auto simp: amount_error_def safe_integer_def split: if_splits)
      then show "\<exists>n. a = Amount (of_int n) \<and> 0 < n \<and> n < 2 ^ 53"
        using q Amount by (metis abs_less_iff of_int_0_less_iff)
    next
      assume "\<exists>n. a = Amount (of_int n) \<and> 0 < n \<and> n < 2 ^ 53"
      then obtain n where "a = Amount (of_int n)" "0 < n" "n < 2 ^ 53" by blast
      then show "amount_error a = None"
        by (simp add: amount_error_def safe_integer_def)
    qed
  qed (simp add: amount_error_def)
  moreover have "length s < 1 \<longleftrightarrow> s = []" for s :: string by (cases s) auto
  ultimately show ?thesis
    by (auto simp: item_valid_def itemFormSchema_def no_item_errors_def date_error_def category_error_def
        description_error_def Suc_le_eq split: if_splits)
qed

subsection \<open>Properties and state of the form\<close>

type_synonym panel_mode = uploader_mode

record 'c form_props =
  fp_mode :: panel_mode
  fp_onSubmit :: 'c
  fp_onSaveAndContinue :: "'c option"
  fp_categories :: "(string \<times> string) list"
  fp_apiError :: "string option"
  fp_isPending :: bool
  fp_isSaveDisabled :: "bool option"
  fp_isSaveButtonLoading :: "bool option"
  fp_saveButtonLabel :: "string option"
  fp_readOnly :: bool
  fp_defaultValues :: "item_values option"
  fp_reportPeriodStart :: "string option"
  fp_reportPeriodEnd :: "string option"

record 'c item_form =
  form_values :: item_values
  form_defaults :: item_values
  form_errors :: item_errors
  prevIsDirty :: bool
  periodWarningDialogOpen :: bool
  pendingSubmitCallback :: "('c \<times> item_values) option"

definition initial_values :: "'c form_props \<Rightarrow> item_values" where
  "initial_values p = (case fp_defaultValues p of Some v \<Rightarrow> v | None \<Rightarrow> blank_item)"

definition mounted_form :: "'c form_props \<Rightarrow> 'c item_form" where
  "mounted_form p = \<lparr>form_values = initial_values p, form_defaults = initial_values p,
     form_errors = no_item_errors, prevIsDirty = False, periodWarningDialogOpen = False,
     pendingSubmitCallback = None\<rparr>"

definition form_reset :: "'c form_props \<Rightarrow> 'c item_form \<Rightarrow> 'c item_form" where
  \<comment> \<open>the function the form puts into \<open>resetRef\<close>\<close>
  "form_reset p s =
     s\<lparr>form_values := initial_values p, form_defaults := initial_values p, form_errors := no_item_errors\<rparr>"

definition form_change :: "item_values \<Rightarrow> 'c item_form \<Rightarrow> 'c item_form" where
  "form_change v s = s\<lparr>form_values := v\<rparr>"

definition notify_dirty ::
  "(item_values \<Rightarrow> item_values \<Rightarrow> bool) \<Rightarrow> 'c item_form \<Rightarrow> bool option \<times> 'c item_form" where
  \<comment> \<open>the effect after a commit: the argument of \<open>onDirtyChange\<close>, if it is called\<close>
  "notify_dirty differs s =
     (let isDirty = differs (form_values s) (form_defaults s) in
      if prevIsDirty s \<noteq> isDirty then (Some isDirty, s\<lparr>prevIsDirty := isDirty\<rparr>) else (None, s))"

subsection \<open>Saving\<close>

definition isOutsidePeriod :: "'c form_props \<Rightarrow> string \<Rightarrow> bool" where
  "isOutsidePeriod p expenseDate =
     (if fp_mode p = ViewMode then False
      else (case (fp_reportPeriodStart p, fp_reportPeriodEnd p) of
              (Some s, Some e) \<Rightarrow>
                if s = [] \<or> e = [] \<or> expenseDate = [] then False
                else expenseDate < slice10 s \<or> slice10 e < expenseDate
            | _ \<Rightarrow> False))"

type_synonym 'c form_result = "('c \<times> item_values) list \<times> 'c item_form"

definition executeSaveWithPeriodCheck ::
  "'c form_props \<Rightarrow> item_values \<Rightarrow> 'c \<Rightarrow> 'c item_form \<Rightarrow> 'c form_result" where
  "executeSaveWithPeriodCheck p data callback s =
     (if isOutsidePeriod p (iv_expenseDate data)
      then ([], s\<lparr>pendingSubmitCallback := Some (callback, data), periodWarningDialogOpen := True\<rparr>)
      else ([(callback, data)], s))"

definition form_handleSubmit ::
  "(item_values \<Rightarrow> 'c item_form \<Rightarrow> 'c form_result) \<Rightarrow> 'c item_form \<Rightarrow> 'c form_result" where
  \<comment> \<open>the library's \<open>handleSubmit\<close> with the resolver of the schema\<close>
  "form_handleSubmit onValid s =
     (let s1 = s\<lparr>form_errors := itemFormSchema (form_values s)\<rparr>
      in if item_valid (form_values s) then onValid (form_values s) s1 else ([], s1))"

definition form_handleSaveAndContinue :: "'c form_props \<Rightarrow> 'c item_form \<Rightarrow> 'c form_result" where
  "form_handleSaveAndContinue p =
     form_handleSubmit (\<lambda>data s.
       case fp_onSaveAndContinue p of
         Some c \<Rightarrow> executeSaveWithPeriodCheck p data c s
       | None \<Rightarrow> ([], s))"

definition handleFormSubmit :: "'c form_props \<Rightarrow> 'c item_form \<Rightarrow> 'c form_result" where
  "handleFormSubmit p = form_handleSubmit (\<lambda>data s. executeSaveWithPeriodCheck p data (fp_onSubmit p) s)"

definition handlePeriodWarningConfirm :: "'c item_form \<Rightarrow> 'c form_result" where
  "handlePeriodWarningConfirm s =
     (let s1 = s\<lparr>periodWarningDialogOpen := False\<rparr> in
      case pendingSubmitCallback s1 of
        Some c \<Rightarrow> ([c], s1\<lparr>pendingSubmitCallback := None\<rparr>)
      | None \<Rightarrow> ([], s1))"

definition handlePeriodWarningCancel :: "'c item_form \<Rightarrow> 'c item_form" where
  "handlePeriodWarningCancel s = s\<lparr>periodWarningDialogOpen := False, pendingSubmitCallback := None\<rparr>"

subsection \<open>Rendering\<close>

datatype form_event = EFormSubmit | ESaveAndContinue | EFormCancel | EFieldChange | EWarn dialog_event

definition warning_dialog :: "bool \<Rightarrow> dialog_props" where
  "warning_dialog isOpen =
     \<lparr>dl_open = isOpen, dl_title = ''Check your input'',
      dl_message = ''The item date is outside the period of the report. Check your input.'',
      dl_confirmLabel = ''Save'', dl_confirmColor = ''primary'', dl_cancelLabel = ''Cancel'',
      dl_inputField = None, dl_loading = False, dl_apiError = None\<rparr>"

definition saveDisabled :: "'c form_props \<Rightarrow> bool" where
  "saveDisabled p = (case fp_isSaveDisabled p of Some b \<Rightarrow> b | None \<Rightarrow> fp_isPending p)"

definition isReadOnly :: "'c form_props \<Rightarrow> bool" where
  "isReadOnly p \<longleftrightarrow> fp_mode p = ViewMode \<or> fp_readOnly p"

definition item_text_field :: "'c form_props \<Rightarrow> string \<Rightarrow> string \<Rightarrow> string option \<Rightarrow> form_event jsx" where
  "item_text_field p name label err =
     El ''Box'' [(''readOnly'', ABool (isReadOnly p)), (''disabled'', ABool (fp_isPending p \<and> \<not> isReadOnly p))]
       [appTextField \<lparr>tf_name = name, tf_label = label, tf_errorMessage = err, tf_required = True,
          tf_rest = []\<rparr> EFieldChange]"

definition item_form_buttons :: "'c form_props \<Rightarrow> form_event jsx list" where
  "item_form_buttons p =
     (if fp_mode p = ViewMode then []
      else
        [submitButton (case fp_saveButtonLabel p of Some l \<Rightarrow> l | None \<Rightarrow> ''Save'')
           (case fp_isSaveButtonLoading p of Some b \<Rightarrow> b | None \<Rightarrow> fp_isPending p) (saveDisabled p)
           (Some EFormSubmit),
         when_jsx (fp_mode p = AddMode \<and> fp_onSaveAndContinue p \<noteq> None)
           (El ''Button'' [(''onClick'', AEv ESaveAndContinue), (''disabled'', ABool (saveDisabled p))]
              [Txt ''Save and add another'']),
         El ''Button'' [(''onClick'', AEv EFormCancel)] [Txt ''Cancel'']])"

definition render_item_form :: "'c form_props \<Rightarrow> 'c item_form \<Rightarrow> dialog \<Rightarrow> form_event jsx" where
  "render_item_form p s d =
     El ''form'' [(''data-testid'', AStr ''item-form'')]
       ([formAlert (fp_apiError p) ''error'',
         item_text_field p ''expenseDate'' ''Date'' (ie_expenseDate (form_errors s)),
         item_text_field p ''amount'' ''Amount'' (ie_amount (form_errors s)),
         appSelect \<lparr>se_name = ''categoryId'', se_label = ''Category'', se_options = fp_categories p,
           se_value = iv_categoryId (form_values s), se_placeholder = None,
           se_errorMessage = ie_categoryId (form_errors s), se_required = True,
           se_disabled = (fp_isPending p \<and> \<not> isReadOnly p), se_readOnly = isReadOnly p\<rparr> EFieldChange,
         item_text_field p ''description'' ''Description'' (ie_description (form_errors s))]
        @ item_form_buttons p
        @ [when_jsx (periodWarningDialogOpen s) (map_events EWarn (render_dialog (warning_dialog True) d))])"

lemma clickable_item_form_buttons:
  "set (concat (map clickable (item_form_buttons p))) =
     (if fp_mode p = ViewMode then {}
      else {EFormCancel} \<union>
        (if saveDisabled p then {}
         else (if (case fp_isSaveButtonLoading p of Some b \<Rightarrow> b | None \<Rightarrow> fp_isPending p) then {} else {EFormSubmit})
              \<union> (if fp_mode p = AddMode \<and> fp_onSaveAndContinue p \<noteq> None then {ESaveAndContinue} else {})))"
  by (auto simp: item_form_buttons_def submitButton_def own_events_def ev_attr_def when_jsx_def)

subsection \<open>Runs of the form\<close>

definition form_event_step :: "form_event \<Rightarrow> 'c form_props \<Rightarrow> 'c item_form \<Rightarrow> 'c form_result" where
  \<comment> \<open>the handler of an event; a cancelled form is the parent's business\<close>
  "form_event_step e p s =
     (case e of
        EFormSubmit \<Rightarrow> handleFormSubmit p s
      | ESaveAndContinue \<Rightarrow> form_handleSaveAndContinue p s
      | EWarn EConfirm \<Rightarrow> handlePeriodWarningConfirm s
      | EWarn EClose \<Rightarrow> ([], handlePeriodWarningCancel s)
      | _ \<Rightarrow> ([], s))"

inductive form_reach :: "'c item_form \<Rightarrow> bool" where
  form_mounted: "form_reach (mounted_form p)"
| form_changed: "form_reach s \<Longrightarrow> form_reach (form_change v s)"
| form_was_reset: "form_reach s \<Longrightarrow> form_reach (form_reset p s)"
| form_notified: "form_reach s \<Longrightarrow> form_reach (snd (notify_dirty differs s))"
| form_event: "form_reach s \<Longrightarrow> form_reach (snd (form_event_step e p s))"

definition warning_inv :: "'c item_form \<Rightarrow> bool" where
  "warning_inv s \<longleftrightarrow>
     (case pendingSubmitCallback s of
        None \<Rightarrow> \<not> periodWarningDialogOpen s
      | Some (c, v) \<Rightarrow> periodWarningDialogOpen s \<and> item_valid v)"

lemma warning_inv_execute:
  "warning_inv s \<Longrightarrow> item_valid v \<Longrightarrow> warning_inv (snd (executeSaveWithPeriodCheck p v c s))"
  by (simp add: executeSaveWithPeriodCheck_def warning_inv_def split: option.splits prod.splits)

lemma warning_inv_handlers:
  assumes "warning_inv s"
  shows "warning_inv (snd (handleFormSubmit p s))" "warning_inv (snd (form_handleSaveAndContinue p s))"
    "warning_inv (snd (handlePeriodWarningConfirm s))" "warning_inv (handlePeriodWarningCancel s)"
proof -
  have e: "warning_inv (s\<lparr>form_errors := x\<rparr>)" for x
    using assms by (simp add: warning_inv_def split: option.splits prod.splits)
  show "warning_inv (snd (handleFormSubmit p s))"
    using e by (simp add: handleFormSubmit_def form_handleSubmit_def Let_def warning_inv_execute)
  show "warning_inv (snd (form_handleSaveAndContinue p s))"
    using e by (simp add: form_handleSaveAndContinue_def form_handleSubmit_def Let_def warning_inv_execute
        split: option.split)
  show "warning_inv (snd (handlePeriodWarningConfirm s))" "warning_inv (handlePeriodWarningCancel s)"
    by (simp_all add: handlePeriodWarningConfirm_def handlePeriodWarningCancel_def warning_inv_def Let_def
        split: option.split)
qed

lemma form_reach_inv: "form_reach s \<Longrightarrow> warning_inv s"
proof (induction rule: form_reach.induct)
  case (form_event s e p)
  then show ?case
    by (simp add: form_event_step_def warning_inv_handlers split: form_event.split dialog_event.split)
qed (simp_all add: warning_inv_def mounted_form_def form_change_def form_reset_def notify_dirty_def Let_def
    split: option.splits prod.splits)

lemma save_calls:
  "fst (handleFormSubmit p s) =
     (if item_valid (form_values s) \<and> \<not> isOutsidePeriod p (iv_expenseDate (form_values s))
      then [(fp_onSubmit p, form_values s)] else [])"
  by (simp add: handleFormSubmit_def form_handleSubmit_def executeSaveWithPeriodCheck_def Let_def)

subsection \<open>Properties\<close>

text \<open>
  The warning compares calendar dates: for dates in ISO form, also when the API sends the period as
  timestamps, the form warns exactly when the item date lies before the first or after the last day of
  the period; it never warns in view mode or without a period.
\<close>

theorem period_warning_is_calendar_order:
  assumes "printable_date d" and "printable_date a" and "printable_date b"
    and "fp_reportPeriodStart p = Some (iso_date a @ ta)" and "fp_reportPeriodEnd p = Some (iso_date b @ tb)"
  shows "isOutsidePeriod p (iso_date d) \<longleftrightarrow> fp_mode p \<noteq> ViewMode \<and> (d < a \<or> b < d)"
proof -
  have ne: "iso_date x \<noteq> []" for x using length_iso_date [of x] by (metis list.size(3) zero_neq_numeral)
  have "slice10 (iso_date x @ t) = iso_date x" for x t by (simp add: slice10_def)
  then show ?thesis
    using assms ne by (simp add: isOutsidePeriod_def iso_date_less_iff)
qed

definition demo_form_props :: "string \<Rightarrow> string \<Rightarrow> nat form_props" where
  "demo_form_props a b =
     \<lparr>fp_mode = AddMode, fp_onSubmit = 0, fp_onSaveAndContinue = Some 1, fp_categories = [],
      fp_apiError = None, fp_isPending = False, fp_isSaveDisabled = None, fp_isSaveButtonLoading = None,
      fp_saveButtonLabel = None, fp_readOnly = False, fp_defaultValues = None,
      fp_reportPeriodStart = Some a, fp_reportPeriodEnd = Some b\<rparr>"

theorem period_warning_is_calendar_order_witness:
  "isOutsidePeriod (demo_form_props (iso_date (Civil 2026 4 1) @ ''T00:00:00Z'') (iso_date (Civil 2026 4 30) @ []))
     (iso_date (Civil 2026 10 9)) \<and>
   \<not> isOutsidePeriod (demo_form_props (iso_date (Civil 2026 4 1) @ ''T00:00:00Z'') (iso_date (Civil 2026 4 30) @ []))
     (iso_date (Civil 2026 4 30))"
  by (subst (1 2) period_warning_is_calendar_order [where a = "Civil 2026 4 1" and b = "Civil 2026 4 30"
        and ta = "''T00:00:00Z''" and tb = "[]"])
    (simp_all add: demo_form_props_def less_civil_date_def less_eq_civil_date_def)

definition save_callback :: "form_event \<Rightarrow> 'c form_props \<Rightarrow> 'c option" where
  \<comment> \<open>the callback of the parent that a save button is for\<close>
  "save_callback e p =
     (case e of EFormSubmit \<Rightarrow> Some (fp_onSubmit p) | ESaveAndContinue \<Rightarrow> fp_onSaveAndContinue p | _ \<Rightarrow> None)"

lemma save_click:
  assumes "save_callback e p = Some c"
  shows "form_event_step e p s =
    (let s1 = s\<lparr>form_errors := itemFormSchema (form_values s)\<rparr>
     in if item_valid (form_values s) then executeSaveWithPeriodCheck p (form_values s) c s1 else ([], s1))"
  using assms
  by (auto simp: save_callback_def form_event_step_def handleFormSubmit_def form_handleSaveAndContinue_def
      form_handleSubmit_def Let_def split: form_event.splits)

lemma other_events:
  assumes "save_callback e p = None" "e \<noteq> EWarn EConfirm"
  shows "fst (form_event_step e p s) = []"
  using assms
  by (auto simp: save_callback_def form_event_step_def form_handleSaveAndContinue_def form_handleSubmit_def Let_def
      split: form_event.splits dialog_event.splits)

lemma warning_confirmed:
  assumes "warning_inv s" "(c, v) \<in> set (fst (form_event_step (EWarn EConfirm) p s))"
  shows "item_valid v \<and> periodWarningDialogOpen s \<and> pendingSubmitCallback s = Some (c, v)"
  using assms
  by (auto simp: form_event_step_def handlePeriodWarningConfirm_def warning_inv_def Let_def split: option.splits)



text \<open>
  What the schema accepts: a form is valid exactly when a date and a category are given, the amount
  is a positive whole number that a double holds exactly, and the description has 1 to 500 characters;
  the amount of the request is then that number.
\<close>

theorem item_schema_accepts:
  "(item_valid v \<longleftrightarrow> iv_expenseDate v \<noteq> [] \<and> iv_categoryId v \<noteq> [] \<and>
      (\<exists>n. iv_amount v = Amount (of_int n) \<and> 0 < n \<and> n < 2 ^ 53 \<and> amount_yen (iv_amount v) = n) \<and>
      1 \<le> length (iv_description v) \<and> length (iv_description v) \<le> 500)"
  unfolding item_valid_iff by (auto simp: amount_yen_def)

end
