(* ===== verification/Item_Slide_Panel.thy ===== *)
theory Item_Slide_Panel
  imports Item_Form
begin

text \<open>
  The slide panel of an item (frontend/src/pages/reports/ItemSlidePanel.tsx): saving a new item and then
  uploading its pending files one after the other, stopping those uploads, the confirmation before
  unsaved input is discarded, and what the panel passes to its children. The save of the add mode is an
  asynchronous function: a run of it is suspended at a request, with what it captured when it started,
  and continues when the request settles. Each run creates one abort controller, whose number also
  names the run. Calls to the parent, requests and cache invalidations are logged in order.
\<close>

subsection \<open>Properties and state\<close>

record panel_props =
  pp_open :: bool
  pp_mode :: panel_mode
  pp_reportId :: string
  pp_item :: "expense_item option"
  pp_reportStatus :: report_status
  pp_isOwner :: bool
  pp_categories :: "(string \<times> string) list"
  pp_apiError :: "string option"
  pp_isPending :: bool
  pp_reportPeriodStart :: "string option"
  pp_reportPeriodEnd :: "string option"
  pp_isUploading :: bool
  pp_isDeleting :: bool
  pp_isSequentialUploading :: bool
  pp_sequentialUploadProgress :: "(nat \<times> nat) option"
  pp_submits :: bool

datatype after_submit = AfterSave | AfterContinue

datatype stage = Creating | Sending string nat nat

record run =
  rn_signal :: nat
  rn_reportId :: string
  rn_files :: "upload_file list"
  rn_after :: after_submit
  rn_input :: create_item_input
  rn_stage :: stage

datatype panel_out =
    OClose
  | OSaveSuccess
  | OSaveAndContinue
  | OItemSubmit item_values
  | OInvalidate query_key
  | OFormReset
  | OCancelUpload
  | OCancelDelete
  | OPostItem create_item_input
  | OPostAttachment string upload_file nat

record panel =
  itemApiError :: "string option"
  creating :: "nat option"
  internalIsUploading :: bool
  internalIsDeleting :: bool
  isSequentialUploading :: bool
  sequentialUploadProgress :: "nat \<times> nat"
  isDiscardDialogOpen :: bool
  isFormDirty :: bool
  panelFiles :: "upload_file list"
  attachmentAddModeResetKey :: nat
  sequentialAbortControllerRef :: "nat option"
  next_signal :: nat
  aborted_signals :: "nat list"
  abortToast :: "bool \<times> string"
  apiToast :: "bool \<times> toast_severity \<times> string"
  pendingPostToastAction :: "run option"
  runs :: "run list"
  outs :: "panel_out list"

definition mounted_panel :: panel where
  "mounted_panel =
     \<lparr>itemApiError = None, creating = None, internalIsUploading = False, internalIsDeleting = False,
      isSequentialUploading = False, sequentialUploadProgress = (0, 0), isDiscardDialogOpen = False,
      isFormDirty = False, panelFiles = [], attachmentAddModeResetKey = 0,
      sequentialAbortControllerRef = None, next_signal = 0, aborted_signals = [],
      abortToast = (False, []), apiToast = (False, TSuccess, []), pendingPostToastAction = None,
      runs = [], outs = []\<rparr>"

definition emit :: "panel_out \<Rightarrow> panel \<Rightarrow> panel" where
  "emit x s = s\<lparr>outs := outs s @ [x]\<rparr>"

abbreviation "msg_upload_stopped \<equiv> ''The upload was stopped''"
abbreviation "msg_delete_stopped \<equiv> ''The deletion was stopped''"
abbreviation "msg_item_added \<equiv> ''The item was added''"
abbreviation "msg_item_failed \<equiv> ''The item could not be saved''"

subsection \<open>Derived values\<close>

definition resolvedIsSequentialUploading :: "panel_props \<Rightarrow> panel \<Rightarrow> bool" where
  "resolvedIsSequentialUploading pr s \<longleftrightarrow> pp_isSequentialUploading pr \<or> isSequentialUploading s"

definition isSaveDisabled :: "panel_props \<Rightarrow> panel \<Rightarrow> bool" where
  "isSaveDisabled pr s \<longleftrightarrow>
     pp_isPending pr \<or> creating s \<noteq> None \<or> pp_isUploading pr \<or> internalIsUploading s \<or>
     pp_isDeleting pr \<or> internalIsDeleting s \<or> resolvedIsSequentialUploading pr s"

definition sequentialProgressLabel :: "panel_props \<Rightarrow> panel \<Rightarrow> string" where
  "sequentialProgressLabel pr s =
     (if resolvedIsSequentialUploading pr s then
        (case (case pp_sequentialUploadProgress pr of Some x \<Rightarrow> x | None \<Rightarrow> sequentialUploadProgress s) of
           (completed, all) \<Rightarrow>
             ''Uploading... ('' @ show_nat completed @ ''/'' @ show_nat all @ '' done)'')
      else [])"

definition isDirty :: "panel_props \<Rightarrow> panel \<Rightarrow> bool" where
  \<comment> \<open>also when the browser asks before the page is left (\<open>beforeunload\<close>)\<close>
  "isDirty pr s \<longleftrightarrow>
     (if pp_mode pr = AddMode then isFormDirty s \<or> 0 < length (panelFiles s) else isFormDirty s)"

definition panel_defaultValues :: "panel_props \<Rightarrow> item_values option" where
  "panel_defaultValues pr =
     (case pp_item pr of
        None \<Rightarrow> None
      | Some item \<Rightarrow> Some
          \<lparr>iv_expenseDate = slice10 (it_expense_date item), iv_amount = Amount (of_int (it_amount item)),
           iv_categoryId = cat_id (it_category item), iv_description = it_description item\<rparr>)"

definition canModify :: "panel_props \<Rightarrow> bool" where
  "canModify pr \<longleftrightarrow> pp_isOwner pr \<and> pp_reportStatus pr = Draft \<and> pp_mode pr \<noteq> ViewMode"

definition formMode :: "panel_props \<Rightarrow> panel_mode" where
  "formMode pr = (if canModify pr then pp_mode pr else ViewMode)"

subsection \<open>Saving a new item\<close>

definition resetDirtyState :: "panel \<Rightarrow> panel" where
  "resetDirtyState s =
     (let s1 = emit OFormReset (s\<lparr>isFormDirty := False, panelFiles := []\<rparr>)
      in s1\<lparr>attachmentAddModeResetKey := Suc (attachmentAddModeResetKey s1)\<rparr>)"

definition afterSubmit :: "run \<Rightarrow> panel \<Rightarrow> panel" where
  "afterSubmit r s = (case rn_after r of AfterSave \<Rightarrow> emit OSaveSuccess s | AfterContinue \<Rightarrow> emit OSaveAndContinue s)"

definition end_run :: "run \<Rightarrow> panel \<Rightarrow> panel" where
  \<comment> \<open>the \<open>finally\<close> block, after which the run is over\<close>
  "end_run r s =
     s\<lparr>sequentialAbortControllerRef := None, runs := filter (\<lambda>q. rn_signal q \<noteq> rn_signal r) (runs s)\<rparr>"

definition handleAddModeSubmit ::
  "panel_props \<Rightarrow> upload_file list \<Rightarrow> item_values \<Rightarrow> after_submit \<Rightarrow> panel \<Rightarrow> panel" where
  \<comment> \<open>up to the first request; the second argument is the list of pending files that the callback of the
    render has captured\<close>
  "handleAddModeSubmit pr files data cont s =
     (let s1 = s\<lparr>itemApiError := None\<rparr>;
          s2 = (case sequentialAbortControllerRef s1 of
                  Some c \<Rightarrow> s1\<lparr>aborted_signals := aborted_signals s1 @ [c]\<rparr>
                | None \<Rightarrow> s1);
          c = next_signal s2;
          s3 = s2\<lparr>sequentialAbortControllerRef := Some c, next_signal := Suc c\<rparr>;
          input = \<lparr>if_expense_date = iv_expenseDate data, if_amount = amount_yen (iv_amount data),
                   if_category_id = iv_categoryId data, if_description = iv_description data,
                   ci_reportId = pp_reportId pr\<rparr>;
          r = \<lparr>rn_signal = c, rn_reportId = pp_reportId pr, rn_files = files, rn_after = cont,
               rn_input = input, rn_stage = Creating\<rparr>
      in emit (OPostItem input) (s3\<lparr>creating := Some c, runs := runs s3 @ [r]\<rparr>))"

definition item_saved :: "run \<Rightarrow> panel \<Rightarrow> panel" where
  \<comment> \<open>success toast, invalidation, reset, callback\<close>
  "item_saved r s =
     (let s1 = s\<lparr>apiToast := (True, TSuccess, msg_item_added)\<rparr>;
          s2 = emit (OInvalidate (detail_key (rn_reportId r))) s1
      in afterSubmit r (resetDirtyState s2))"

definition post_toast_effect :: "panel \<Rightarrow> panel" where
  \<comment> \<open>the effect on the toast: what a partial failure left to do once its toast is shown\<close>
  "post_toast_effect s =
     (case pendingPostToastAction s of
        Some r \<Rightarrow>
          if fst (apiToast s)
          then emit (OInvalidate (detail_key (rn_reportId r)))
                 (afterSubmit r (resetDirtyState (s\<lparr>pendingPostToastAction := None\<rparr>)))
          else s
      | None \<Rightarrow> s)"

definition all_sent :: "run \<Rightarrow> nat \<Rightarrow> panel \<Rightarrow> panel" where
  "all_sent r failedCount s =
     (let s1 = s\<lparr>isSequentialUploading := False\<rparr> in
      if failedCount > 0
      then post_toast_effect (end_run r (s1\<lparr>pendingPostToastAction := Some r,
             apiToast := (True, TWarning,
               show_nat failedCount @ '' attachments could not be uploaded. Try again'')\<rparr>))
      else end_run r (item_saved r s1))"

definition upload_stopped :: "run \<Rightarrow> panel \<Rightarrow> panel" where
  "upload_stopped r s =
     end_run r (s\<lparr>abortToast := (True, msg_upload_stopped), isSequentialUploading := False\<rparr>)"

definition set_stage :: "run \<Rightarrow> stage \<Rightarrow> panel \<Rightarrow> panel" where
  "set_stage r st s =
     s\<lparr>runs := map (\<lambda>q. if rn_signal q = rn_signal r then r\<lparr>rn_stage := st\<rparr> else q) (runs s)\<rparr>"

definition next_file :: "run \<Rightarrow> string \<Rightarrow> nat \<Rightarrow> nat \<Rightarrow> panel \<Rightarrow> panel" where
  \<comment> \<open>the head of the loop at index \<open>i\<close>, up to the next request\<close>
  "next_file r newItemId i failedCount s =
     (if length (rn_files r) \<le> i then all_sent r failedCount s
      else if rn_signal r \<in> set (aborted_signals s) then upload_stopped r s
      else emit (OPostAttachment (attachments_path (rn_reportId r) newItemId) (rn_files r ! i) (rn_signal r))
             (set_stage r (Sending newItemId i failedCount) s))"

definition item_created :: "run \<Rightarrow> string \<Rightarrow> panel \<Rightarrow> panel" where
  "item_created r newItemId s =
     (if length (rn_files r) = 0 then end_run r (item_saved r s)
      else next_file r newItemId 0 0
             (s\<lparr>isSequentialUploading := True, sequentialUploadProgress := (0, length (rn_files r))\<rparr>))"

definition create_failed :: "run \<Rightarrow> js_error \<Rightarrow> panel \<Rightarrow> panel" where
  "create_failed r err s = end_run r (s\<lparr>itemApiError := Some (message_or err msg_item_failed)\<rparr>)"

definition find_run :: "nat \<Rightarrow> panel \<Rightarrow> run option" where
  "find_run c s = find (\<lambda>r. rn_signal r = c) (runs s)"

definition create_settles :: "nat \<Rightarrow> js_error + jsval \<Rightarrow> panel \<Rightarrow> panel" where
  \<comment> \<open>the creation request of a run settles: first the callbacks of the mutation, then the run\<close>
  "create_settles c res s =
     (case find_run c s of
        None \<Rightarrow> s
      | Some r \<Rightarrow>
          if rn_stage r \<noteq> Creating then s
          else
            let s1 = (if creating s = Some c then s\<lparr>creating := None\<rparr> else s)
            in case res of
                 Inl err \<Rightarrow> create_failed r err s1
               | Inr v \<Rightarrow>
                   let s2 = foldl (\<lambda>t k. emit (OInvalidate k) t) s1 (mu_invalidates useCreateItem (rn_input r))
                   in (case js_get v ''id'' of
                         Inl err \<Rightarrow> create_failed r err s2
                       | Inr i \<Rightarrow> item_created r (js_to_string i) s2))"

definition upload_settles :: "nat \<Rightarrow> js_error + jsval \<Rightarrow> panel \<Rightarrow> panel" where
  "upload_settles c res s =
     (case find_run c s of
        None \<Rightarrow> s
      | Some r \<Rightarrow>
          (case rn_stage r of
             Creating \<Rightarrow> s
           | Sending item i failedCount \<Rightarrow>
               (case res of
                  Inr _ \<Rightarrow> next_file r item (i + 1) failedCount
                             (s\<lparr>sequentialUploadProgress := (i + 1, length (rn_files r))\<rparr>)
                | Inl err \<Rightarrow>
                    if is_AbortError err then upload_stopped r s
                    else next_file r item (i + 1) (failedCount + 1) s)))"

subsection \<open>Handlers\<close>

datatype panel_callback = PanelSubmit panel_mode "upload_file list" | PanelSaveAndContinue "upload_file list"

fun panel_callback_runs :: "panel_props \<Rightarrow> panel_callback \<times> item_values \<Rightarrow> panel \<Rightarrow> panel" where
  \<comment> \<open>\<open>handleSubmit\<close> and \<open>handleSaveAndContinue\<close> with what they captured\<close>
  "panel_callback_runs pr (PanelSubmit mode files, data) s =
     (if mode = AddMode then handleAddModeSubmit pr files data AfterSave s
      else if pp_submits pr then emit (OItemSubmit data) s
      else emit OSaveSuccess s)"
| "panel_callback_runs pr (PanelSaveAndContinue files, data) s =
     handleAddModeSubmit pr files data AfterContinue s"

definition abortSequentialUpload :: "panel \<Rightarrow> panel" where
  "abortSequentialUpload s =
     (case sequentialAbortControllerRef s of
        Some c \<Rightarrow> s\<lparr>aborted_signals := aborted_signals s @ [c], sequentialAbortControllerRef := None,
                    isSequentialUploading := False\<rparr>
      | None \<Rightarrow> s)"

definition handleDiscard :: "panel \<Rightarrow> panel" where
  "handleDiscard s =
     (let s1 = abortSequentialUpload (emit OCancelDelete (emit OCancelUpload s));
          s2 = emit OFormReset (s1\<lparr>isDiscardDialogOpen := False\<rparr>);
          s3 = s2\<lparr>isFormDirty := False, panelFiles := [],
                  attachmentAddModeResetKey := Suc (attachmentAddModeResetKey s2)\<rparr>
      in emit OClose s3)"

definition handleDiscardCancel :: "panel \<Rightarrow> panel" where
  "handleDiscardCancel s = s\<lparr>isDiscardDialogOpen := False\<rparr>"

definition handleCloseAttempt :: "panel_props \<Rightarrow> panel \<Rightarrow> panel" where
  "handleCloseAttempt pr s =
     (if resolvedIsSequentialUploading pr s
      then emit OClose ((abortSequentialUpload s)\<lparr>abortToast := (True, msg_upload_stopped)\<rparr>)
      else if isDirty pr s then s\<lparr>isDiscardDialogOpen := True\<rparr>
      else emit OClose (emit OCancelDelete (emit OCancelUpload s)))"

definition open_effect :: "panel_props \<Rightarrow> panel \<Rightarrow> panel" where
  "open_effect pr s = (if \<not> pp_open pr then resetDirtyState s else s)"

fun panel_hears :: "panel_call \<Rightarrow> panel \<Rightarrow> panel" where
  \<comment> \<open>the callbacks given to the attachment area\<close>
  "panel_hears (PUploadingChange b) s = s\<lparr>internalIsUploading := b\<rparr>"
| "panel_hears (PDeletingChange b) s = s\<lparr>internalIsDeleting := b\<rparr>"
| "panel_hears PUploadAborted s = s\<lparr>abortToast := (True, msg_upload_stopped)\<rparr>"
| "panel_hears PDeleteAborted s = s\<lparr>abortToast := (True, msg_delete_stopped)\<rparr>"
| "panel_hears (PPendingFilesChange fs) s = s\<lparr>panelFiles := fs\<rparr>"

definition form_dirty_changes :: "bool \<Rightarrow> panel \<Rightarrow> panel" where
  "form_dirty_changes b s = s\<lparr>isFormDirty := b\<rparr>"

datatype panel_toast = AbortToast | ApiToast

definition close_panel_toast :: "panel_toast \<Rightarrow> panel \<Rightarrow> panel" where
  "close_panel_toast k s =
     (case k of
        AbortToast \<Rightarrow> s\<lparr>abortToast := (False, snd (abortToast s))\<rparr>
      | ApiToast \<Rightarrow> s\<lparr>apiToast := (False, snd (apiToast s))\<rparr>)"

subsection \<open>Rendering\<close>

definition panel_title :: "panel_mode \<Rightarrow> string" where
  "panel_title m = (case m of AddMode \<Rightarrow> ''Add an item'' | EditMode \<Rightarrow> ''Edit the item'' | ViewMode \<Rightarrow> ''Item details'')"

definition panel_form_props :: "panel_props \<Rightarrow> panel \<Rightarrow> panel_callback form_props" where
  "panel_form_props pr s =
     \<lparr>fp_mode = formMode pr, fp_onSubmit = PanelSubmit (pp_mode pr) (panelFiles s),
      fp_onSaveAndContinue =
        (if pp_mode pr = AddMode then Some (PanelSaveAndContinue (panelFiles s)) else None),
      fp_categories = pp_categories pr,
      fp_apiError = (case itemApiError s of Some e \<Rightarrow> Some e | None \<Rightarrow> pp_apiError pr),
      fp_isPending = pp_isPending pr, fp_isSaveDisabled = Some (isSaveDisabled pr s),
      fp_isSaveButtonLoading =
        Some (resolvedIsSequentialUploading pr s \<or> pp_isPending pr \<or> creating s \<noteq> None),
      fp_saveButtonLabel =
        (if sequentialProgressLabel pr s = [] then None else Some (sequentialProgressLabel pr s)),
      fp_readOnly = resolvedIsSequentialUploading pr s, fp_defaultValues = panel_defaultValues pr,
      fp_reportPeriodStart = pp_reportPeriodStart pr, fp_reportPeriodEnd = pp_reportPeriodEnd pr\<rparr>"

definition discard_dialog :: dialog_props where
  "discard_dialog =
     \<lparr>dl_open = True, dl_title = ''Discard the changes?'',
      dl_message = ''The input is not saved. Discarding it loses the changes.'',
      dl_confirmLabel = ''Discard'', dl_confirmColor = ''error'', dl_cancelLabel = ''Cancel'',
      dl_inputField = None, dl_loading = False, dl_apiError = None\<rparr>"

datatype panel_event =
    EClosePanel
  | EPanelForm form_event
  | EPanelArea area_event
  | EDiscardDialog dialog_event
  | EAbortToastClose
  | EApiToastClose

definition panel_area_variant :: "panel_props \<Rightarrow> panel \<Rightarrow> area_variant" where
  "panel_area_variant pr s =
     attachmentArea (Some (pp_mode pr)) (map_option it_id (pp_item pr)) (attachmentAddModeResetKey s)"

definition render_panel ::
  "panel_props \<Rightarrow> panel \<Rightarrow> panel_callback item_form \<Rightarrow> dialog \<Rightarrow> area_event jsx \<Rightarrow> dialog \<Rightarrow> panel_event jsx" where
  "render_panel pr s form formDialog area discardDialog =
     El ''fragment'' []
       [El ''Drawer'' [(''open'', ABool (pp_open pr)), (''onClose'', AEv EClosePanel)]
          [El ''Box'' []
             [El ''Typography'' [] [Txt (panel_title (pp_mode pr))],
              El ''IconButton'' [(''aria-label'', AStr ''Close''), (''onClick'', AEv EClosePanel)] []],
           map_events EPanelForm (render_item_form (panel_form_props pr s) form formDialog),
           map_events EPanelArea area],
        when_jsx (isDiscardDialogOpen s)
          (map_events EDiscardDialog (render_dialog discard_dialog discardDialog)),
        appToast (fst (abortToast s)) TError (snd (abortToast s)) EAbortToastClose None,
        appToast (fst (apiToast s)) (fst (snd (apiToast s))) (snd (snd (apiToast s))) EApiToastClose None]"

subsection \<open>Steps\<close>

text \<open>
  A save is started from an enabled button of the form, or by confirming the period warning, which calls
  the callback of the render in which the button was clicked; theory \<open>Panel_System\<close> shows that both
  happen only while nothing is being created or sent. In a \<open>calm\<close> run the user starts one only when
  every earlier run is over, that is, when the requests of a stopped run have been rejected.
\<close>

definition may_start :: "panel \<Rightarrow> bool" where
  "may_start s \<longleftrightarrow> creating s = None \<and> \<not> isSequentialUploading s"

lemma enabled_may_start: "\<not> isSaveDisabled pr s \<Longrightarrow> may_start s"
  by (simp add: isSaveDisabled_def may_start_def resolvedIsSequentialUploading_def)

inductive panel_reach :: "bool \<Rightarrow> panel \<Rightarrow> bool" for calm :: bool where
  panel_mounted: "panel_reach calm mounted_panel"
| save: "panel_reach calm s \<Longrightarrow> may_start s \<Longrightarrow> calm \<longrightarrow> runs s = [] \<Longrightarrow>
     panel_reach calm (panel_callback_runs pr (cb, data) s)"
| creation: "panel_reach calm s \<Longrightarrow> panel_reach calm (create_settles c res s)"
| upload: "panel_reach calm s \<Longrightarrow> panel_reach calm (upload_settles c res s)"
| close_attempt: "panel_reach calm s \<Longrightarrow> panel_reach calm (handleCloseAttempt pr s)"
| discarded: "panel_reach calm s \<Longrightarrow> isDiscardDialogOpen s \<Longrightarrow> panel_reach calm (handleDiscard s)"
| kept_open: "panel_reach calm s \<Longrightarrow> panel_reach calm (handleDiscardCancel s)"
| opened_or_closed: "panel_reach calm s \<Longrightarrow> panel_reach calm (open_effect pr s)"
| area_calls: "panel_reach calm s \<Longrightarrow> panel_reach calm (panel_hears x s)"
| dirty_changes: "panel_reach calm s \<Longrightarrow> panel_reach calm (form_dirty_changes b s)"
| toasts_close: "panel_reach calm s \<Longrightarrow> panel_reach calm (close_panel_toast k s)"

text \<open>What the runs depend on, and the operations that leave it alone.\<close>

definition core where
  "core s = (runs s, sequentialAbortControllerRef s, isSequentialUploading s, creating s, aborted_signals s,
     next_signal s)"

lemma coreI:
  "runs t = runs s \<Longrightarrow> sequentialAbortControllerRef t = sequentialAbortControllerRef s \<Longrightarrow>
   isSequentialUploading t = isSequentialUploading s \<Longrightarrow> creating t = creating s \<Longrightarrow>
   aborted_signals t = aborted_signals s \<Longrightarrow> next_signal t = next_signal s \<Longrightarrow> core t = core s"
  by (simp add: core_def)

lemma core_eqD:
  assumes "core t = core s"
  shows "runs t = runs s" "sequentialAbortControllerRef t = sequentialAbortControllerRef s"
    "isSequentialUploading t = isSequentialUploading s" "creating t = creating s"
    "aborted_signals t = aborted_signals s" "next_signal t = next_signal s"
  using assms by (simp_all add: core_def)

lemma core_emit [simp]: "core (emit x s) = core s"
  by (simp add: core_def emit_def)

lemma core_resetDirtyState [simp]: "core (resetDirtyState s) = core s"
  by (simp add: core_def emit_def resetDirtyState_def Let_def)

lemma core_afterSubmit [simp]: "core (afterSubmit r s) = core s"
  by (simp add: afterSubmit_def split: after_submit.split)

lemma core_item_saved [simp]: "core (item_saved r s) = core s"
  by (simp add: item_saved_def Let_def, simp add: core_def)

lemma core_post_toast [simp]: "core (post_toast_effect s) = core s"
proof -
  have "core (s\<lparr>pendingPostToastAction := None\<rparr>) = core s" by (simp add: core_def)
  then show ?thesis by (simp add: post_toast_effect_def split: option.split)
qed

lemma core_invalidations [simp]: "core (foldl (\<lambda>t k. emit (OInvalidate k) t) s ks) = core s"
  by (induction ks arbitrary: s) simp_all

lemmas core_emitD [simp] = core_eqD [OF core_emit]
lemmas core_resetD [simp] = core_eqD [OF core_resetDirtyState]
lemmas core_afterD [simp] = core_eqD [OF core_afterSubmit]
lemmas core_savedD [simp] = core_eqD [OF core_item_saved]
lemmas core_toastD [simp] = core_eqD [OF core_post_toast]
lemmas core_foldD [simp] = core_eqD [OF core_invalidations]

lemma core_quiet:
  "core (handleDiscardCancel s) = core s" "core (open_effect pr s) = core s" "core (panel_hears x s) = core s"
  "core (form_dirty_changes b s) = core s" "core (close_panel_toast k s) = core s"
  by (cases x; cases k; simp_all add: core_def handleDiscardCancel_def open_effect_def form_dirty_changes_def
      close_panel_toast_def)+

text \<open>How a run ends or goes on, in terms of the core.\<close>

lemma end_run_core [simp]:
  "runs (end_run r s) = filter (\<lambda>q. rn_signal q \<noteq> rn_signal r) (runs s)"
  "sequentialAbortControllerRef (end_run r s) = None"
  "isSequentialUploading (end_run r s) = isSequentialUploading s" "creating (end_run r s) = creating s"
  "aborted_signals (end_run r s) = aborted_signals s" "next_signal (end_run r s) = next_signal s"
  "outs (end_run r s) = outs s"
  by (simp_all add: end_run_def)

lemma all_sent_core [simp]:
  "runs (all_sent r n s) = filter (\<lambda>q. rn_signal q \<noteq> rn_signal r) (runs s)"
  "sequentialAbortControllerRef (all_sent r n s) = None" "\<not> isSequentialUploading (all_sent r n s)"
  "creating (all_sent r n s) = creating s" "aborted_signals (all_sent r n s) = aborted_signals s"
  "next_signal (all_sent r n s) = next_signal s"
  by (simp_all add: all_sent_def Let_def)

lemma upload_stopped_core [simp]:
  "runs (upload_stopped r s) = filter (\<lambda>q. rn_signal q \<noteq> rn_signal r) (runs s)"
  "sequentialAbortControllerRef (upload_stopped r s) = None" "\<not> isSequentialUploading (upload_stopped r s)"
  "creating (upload_stopped r s) = creating s" "aborted_signals (upload_stopped r s) = aborted_signals s"
  "next_signal (upload_stopped r s) = next_signal s" "outs (upload_stopped r s) = outs s"
  by (simp_all add: upload_stopped_def)

lemma set_stage_core [simp]:
  "runs (set_stage r st s) = map (\<lambda>q. if rn_signal q = rn_signal r then r\<lparr>rn_stage := st\<rparr> else q) (runs s)"
  "sequentialAbortControllerRef (set_stage r st s) = sequentialAbortControllerRef s"
  "isSequentialUploading (set_stage r st s) = isSequentialUploading s"
  "creating (set_stage r st s) = creating s" "aborted_signals (set_stage r st s) = aborted_signals s"
  "next_signal (set_stage r st s) = next_signal s" "outs (set_stage r st s) = outs s"
  by (simp_all add: set_stage_def)

lemma next_file_cases:
  obtains (finished) "length (rn_files r) \<le> i" "next_file r item i n s = all_sent r n s"
  | (stopped) "i < length (rn_files r)" "rn_signal r \<in> set (aborted_signals s)" "next_file r item i n s = upload_stopped r s"
  | (goes_on) "i < length (rn_files r)" "rn_signal r \<notin> set (aborted_signals s)"
      "next_file r item i n s =
         emit (OPostAttachment (attachments_path (rn_reportId r) item) (rn_files r ! i) (rn_signal r))
           (set_stage r (Sending item i n) s)"
  by (cases "length (rn_files r) \<le> i"; cases "rn_signal r \<in> set (aborted_signals s)")
    (auto simp: next_file_def)

lemma find_run_Some: "find_run c s = Some r \<Longrightarrow> r \<in> set (runs s) \<and> rn_signal r = c"
  by (auto simp: find_run_def find_Some_iff)

text \<open>A settled creation: the run ends, or it starts to send.\<close>

definition run_advances :: "run \<Rightarrow> panel \<Rightarrow> panel \<Rightarrow> bool" where
  "run_advances r s t \<longleftrightarrow>
     aborted_signals t = aborted_signals s \<and> next_signal t = next_signal s \<and>
     (runs t = filter (\<lambda>q. rn_signal q \<noteq> rn_signal r) (runs s) \<and> sequentialAbortControllerRef t = None \<and>
        (isSequentialUploading t \<longrightarrow> isSequentialUploading s \<and> rn_stage r = Creating) \<or>
      (\<exists>item i n. rn_signal r \<notin> set (aborted_signals s) \<and>
        runs t = map (\<lambda>q. if rn_signal q = rn_signal r then r\<lparr>rn_stage := Sending item i n\<rparr> else q) (runs s) \<and>
        sequentialAbortControllerRef t = sequentialAbortControllerRef s \<and>
        (if rn_stage r = Creating then isSequentialUploading t
         else isSequentialUploading t = isSequentialUploading s)))"

lemma next_file_advances:
  assumes "runs u = runs s" "sequentialAbortControllerRef u = sequentialAbortControllerRef s"
    "aborted_signals u = aborted_signals s" "next_signal u = next_signal s"
    "if rn_stage r = Creating then isSequentialUploading u
     else isSequentialUploading u = isSequentialUploading s"
  shows "run_advances r s (next_file r item i n u)"
proof (cases rule: next_file_cases [of r i item n u])
  case goes_on
  then show ?thesis using assms by (auto simp: run_advances_def)
qed (use assms in \<open>simp_all add: run_advances_def\<close>)

lemma end_run_advances:
  assumes "runs u = runs s" "aborted_signals u = aborted_signals s" "next_signal u = next_signal s"
    "isSequentialUploading u = isSequentialUploading s" "rn_stage r = Creating"
  shows "run_advances r s (end_run r u)"
  using assms by (simp add: run_advances_def)

lemma create_settles_advances:
  assumes "find_run c s = Some r" "rn_stage r = Creating"
  shows "run_advances r s (create_settles c res s)"
    and "creating (create_settles c res s) = (if creating s = Some c then None else creating s)"
proof -
  define s1 where "s1 = (if creating s = Some c then s\<lparr>creating := None\<rparr> else s)"
  define s2 where "s2 = foldl (\<lambda>t k. emit (OInvalidate k) t) s1 (mu_invalidates useCreateItem (rn_input r))"
  have e: "create_settles c res s =
      (case res of Inl err \<Rightarrow> create_failed r err s1
       | Inr v \<Rightarrow> (case js_get v ''id'' of Inl err \<Rightarrow> create_failed r err s2
                   | Inr i \<Rightarrow> item_created r (js_to_string i) s2))"
    using assms by (simp add: create_settles_def Let_def s1_def s2_def split: sum.split)
  have s1: "runs s1 = runs s" "sequentialAbortControllerRef s1 = sequentialAbortControllerRef s"
    "aborted_signals s1 = aborted_signals s" "next_signal s1 = next_signal s"
    "isSequentialUploading s1 = isSequentialUploading s"
    "creating s1 = (if creating s = Some c then None else creating s)"
    by (simp_all add: s1_def)
  have s2: "runs s2 = runs s" "sequentialAbortControllerRef s2 = sequentialAbortControllerRef s"
    "aborted_signals s2 = aborted_signals s" "next_signal s2 = next_signal s"
    "isSequentialUploading s2 = isSequentialUploading s" "creating s2 = creating s1"
    by (simp_all add: s2_def s1)
  have f: "run_advances r s (create_failed r err u)" "creating (create_failed r err u) = creating u"
    if "runs u = runs s" "aborted_signals u = aborted_signals s" "next_signal u = next_signal s"
      "isSequentialUploading u = isSequentialUploading s" for err u
    unfolding create_failed_def using that assms(2) by (auto intro!: end_run_advances)
  have n: "creating (next_file r item i k u) = creating u" for item i k u
    by (cases rule: next_file_cases [of r i item k u]) simp_all
  have g: "run_advances r s (item_created r x s2)" "creating (item_created r x s2) = creating s2" for x
    using s2 assms(2) by (auto simp: item_created_def n intro!: end_run_advances next_file_advances)
  show "run_advances r s (create_settles c res s)"
    unfolding e by (auto simp: f g s1 s2 split: sum.split)
  show "creating (create_settles c res s) = (if creating s = Some c then None else creating s)"
    unfolding e by (simp add: f g s1 s2 split: sum.split)
qed

lemma create_settles_other:
  "find_run c s = None \<or> (\<exists>r. find_run c s = Some r \<and> rn_stage r \<noteq> Creating) \<Longrightarrow> create_settles c res s = s"
  by (auto simp: create_settles_def)

lemma upload_settles_advances:
  assumes "find_run c s = Some r" "rn_stage r = Sending item i n"
  shows "run_advances r s (upload_settles c res s)" and "creating (upload_settles c res s) = creating s"
proof -
  have e: "upload_settles c res s =
      (case res of
         Inr _ \<Rightarrow> next_file r item (i + 1) n (s\<lparr>sequentialUploadProgress := (i + 1, length (rn_files r))\<rparr>)
       | Inl err \<Rightarrow> if is_AbortError err then upload_stopped r s else next_file r item (i + 1) (n + 1) s)"
    using assms by (simp add: upload_settles_def)
  have k: "creating (next_file r item j m u) = creating u" for j m u
    by (cases rule: next_file_cases [of r j item m u]) simp_all
  have st: "run_advances r s (upload_stopped r s)" by (simp add: run_advances_def)
  show "run_advances r s (upload_settles c res s)"
    unfolding e using st assms(2) by (auto split: sum.split intro!: next_file_advances)
  show "creating (upload_settles c res s) = creating s"
    unfolding e by (auto simp: k split: sum.split)
qed

lemma upload_settles_other:
  "find_run c s = None \<or> (\<exists>r. find_run c s = Some r \<and> rn_stage r = Creating) \<Longrightarrow> upload_settles c res s = s"
  by (auto simp: upload_settles_def)

subsection \<open>At most one creation\<close>

definition creation_inv :: "panel \<Rightarrow> bool" where
  "creation_inv s \<longleftrightarrow>
     distinct (map rn_signal (runs s)) \<and> (\<forall>r \<in> set (runs s). rn_signal r < next_signal s) \<and>
     (\<forall>r \<in> set (runs s). rn_stage r = Creating \<longrightarrow> creating s = Some (rn_signal r))"

lemma creation_inv_core: "core t = core s \<Longrightarrow> creation_inv t = creation_inv s"
  by (simp add: creation_inv_def core_def)

lemma distinct_map_filter: "distinct (map f xs) \<Longrightarrow> distinct (map f (filter P xs))"
  by (induction xs) auto

lemma creation_inv_advances:
  assumes "creation_inv s" "run_advances r s t" "r \<in> set (runs s)"
    "creating t = (if rn_stage r = Creating then None else creating s)"
  shows "creation_inv t"
proof -
  let ?upd = "\<lambda>st. map (\<lambda>q. if rn_signal q = rn_signal r then r\<lparr>rn_stage := st\<rparr> else q) (runs s)"
  have d: "distinct (map rn_signal (runs s))" and b: "\<forall>q \<in> set (runs s). rn_signal q < next_signal s"
    and c: "\<And>q. q \<in> set (runs s) \<Longrightarrow> rn_stage q = Creating \<Longrightarrow> creating s = Some (rn_signal q)"
    using assms(1) by (auto simp: creation_inv_def)
  have c': "creating t = Some (rn_signal q)"
    if "q \<in> set (runs s)" "rn_stage q = Creating" "rn_signal q \<noteq> rn_signal r" for q
    using c [OF that(1,2)] c [OF assms(3)] that(3) assms(4) by auto
  have m: "map rn_signal (?upd st) = map rn_signal (runs s)" for st by simp
  from assms(2) consider
    (f) "runs t = filter (\<lambda>q. rn_signal q \<noteq> rn_signal r) (runs s)" "next_signal t = next_signal s"
  | (u) item i n where "runs t = ?upd (Sending item i n)" "next_signal t = next_signal s"
    unfolding run_advances_def by blast
  then show ?thesis
  proof cases
    case f
    then show ?thesis using d b c' by (auto simp: creation_inv_def distinct_map_filter)
  next
    case u
    have "distinct (map rn_signal (runs t))" unfolding u(1) m by (rule d)
    then show ?thesis using u b c' assms(3) by (auto simp: creation_inv_def)
  qed
qed

lemma creation_inv_submit:
  assumes "creation_inv s" "creating s = None"
  shows "creation_inv (handleAddModeSubmit pr files data cont s)"
proof -
  have "rn_signal r \<noteq> next_signal s" if "r \<in> set (runs s)" for r
    using assms(1) that by (auto simp: creation_inv_def)
  moreover have "rn_stage r \<noteq> Creating" if "r \<in> set (runs s)" for r
    using assms that by (auto simp: creation_inv_def)
  ultimately show ?thesis using assms(1)
    by (auto simp: creation_inv_def handleAddModeSubmit_def Let_def less_Suc_eq split: option.split)
qed

lemma creation_inv_abort: "creation_inv (abortSequentialUpload s) = creation_inv s"
  by (simp add: creation_inv_def abortSequentialUpload_def split: option.split)

lemma creation_inv_emit [simp]: "creation_inv (emit x s) = creation_inv s"
  by (rule creation_inv_core [OF core_emit])

lemma creation_inv_close:
  "creation_inv (handleCloseAttempt pr s) = creation_inv s" "creation_inv (handleDiscard s) = creation_inv s"
proof -
  have "creation_inv (u\<lparr>abortToast := x\<rparr>) = creation_inv u" "creation_inv (u\<lparr>isDiscardDialogOpen := b\<rparr>) = creation_inv u"
    "creation_inv (u\<lparr>isFormDirty := b, panelFiles := fs, attachmentAddModeResetKey := k\<rparr>) = creation_inv u" for u x b fs k
    by (simp_all add: creation_inv_def)
  then show "creation_inv (handleCloseAttempt pr s) = creation_inv s" "creation_inv (handleDiscard s) = creation_inv s"
    by (simp_all add: handleCloseAttempt_def handleDiscard_def Let_def creation_inv_abort)
qed

lemma creation_inv_create_settles: "creation_inv s \<Longrightarrow> creation_inv (create_settles c res s)"
proof (cases "\<exists>r. find_run c s = Some r \<and> rn_stage r = Creating")
  case True
  then obtain r where r: "find_run c s = Some r" "rn_stage r = Creating" by blast
  assume inv: "creation_inv s"
  have m: "r \<in> set (runs s)" "rn_signal r = c" using find_run_Some [OF r(1)] by auto
  then have "creating s = Some c" using inv r(2) by (auto simp: creation_inv_def)
  then show ?thesis
    using creation_inv_advances [OF inv create_settles_advances(1) [OF r] m(1)] create_settles_advances(2) [OF r] r(2)
    by simp
next
  case False
  then have "find_run c s = None \<or> (\<exists>r. find_run c s = Some r \<and> rn_stage r \<noteq> Creating)" by auto
  then show "creation_inv s \<Longrightarrow> ?thesis" by (simp add: create_settles_other)
qed

lemma creation_inv_upload_settles: "creation_inv s \<Longrightarrow> creation_inv (upload_settles c res s)"
proof (cases "\<exists>r item i n. find_run c s = Some r \<and> rn_stage r = Sending item i n")
  case True
  then obtain r item i n where r: "find_run c s = Some r" "rn_stage r = Sending item i n" by blast
  assume inv: "creation_inv s"
  have m: "r \<in> set (runs s)" using find_run_Some [OF r(1)] by auto
  show ?thesis
    using creation_inv_advances [OF inv upload_settles_advances(1) [OF r] m] upload_settles_advances(2) [OF r] r(2)
    by simp
next
  case False
  then have "find_run c s = None \<or> (\<exists>r. find_run c s = Some r \<and> rn_stage r = Creating)"
    by (metis stage.exhaust option.exhaust)
  then show "creation_inv s \<Longrightarrow> ?thesis" by (simp add: upload_settles_other)
qed

lemma save_cases:
  obtains (adds) files cont where
      "\<And>data u. panel_callback_runs pr (cb, data) u = handleAddModeSubmit pr files data cont u"
  | (tells) "\<And>data u. core (panel_callback_runs pr (cb, data) u) = core u"
proof (cases cb)
  case (PanelSubmit mode files)
  then show ?thesis by (cases "mode = AddMode") (auto intro: adds tells)
qed (auto intro: adds)

lemma panel_reach_creation_inv: "panel_reach calm s \<Longrightarrow> creation_inv s"
proof (induction rule: panel_reach.induct)
  case panel_mounted
  then show ?case by (simp add: creation_inv_def mounted_panel_def)
next
  case (save s pr cb data)
  have "creating s = None" using save.hyps by (simp add: may_start_def)
  then have add: "creation_inv (handleAddModeSubmit pr files data cont s)" for files cont
    by (rule creation_inv_submit [OF save.IH])
  show ?case
  proof (cases rule: save_cases [of pr cb])
    case (adds files cont)
    then show ?thesis by (simp add: add)
  next
    case tells
    then show ?thesis using creation_inv_core [OF tells] save.IH by simp
  qed
qed (simp_all add: creation_inv_create_settles creation_inv_upload_settles creation_inv_close
    creation_inv_core [OF core_quiet(1)] creation_inv_core [OF core_quiet(2)] creation_inv_core [OF core_quiet(3)]
    creation_inv_core [OF core_quiet(4)] creation_inv_core [OF core_quiet(5)])

subsection \<open>One save at a time\<close>

definition calm_inv :: "panel \<Rightarrow> bool" where
  "calm_inv s \<longleftrightarrow>
     (\<forall>c \<in> set (aborted_signals s). c < next_signal s) \<and>
     (runs s = [] \<and> sequentialAbortControllerRef s = None \<and> \<not> isSequentialUploading s \<or>
      (\<exists>r. runs s = [r] \<and> rn_signal r < next_signal s \<and>
         (if rn_signal r \<in> set (aborted_signals s)
          then sequentialAbortControllerRef s = None \<and> \<not> isSequentialUploading s
          else sequentialAbortControllerRef s = Some (rn_signal r) \<and>
               (isSequentialUploading s \<longleftrightarrow> rn_stage r \<noteq> Creating))))"

lemma calm_inv_core: "core t = core s \<Longrightarrow> calm_inv t = calm_inv s"
  by (simp add: calm_inv_def core_def)

lemma calm_inv_advances:
  assumes "calm_inv s" "run_advances r s t" "r \<in> set (runs s)"
  shows "calm_inv t"
proof -
  have one: "runs s = [r]" using assms(1,3) by (auto simp: calm_inv_def)
  then have inv: "\<forall>c \<in> set (aborted_signals s). c < next_signal s" "rn_signal r < next_signal s"
    "if rn_signal r \<in> set (aborted_signals s)
     then sequentialAbortControllerRef s = None \<and> \<not> isSequentialUploading s
     else sequentialAbortControllerRef s = Some (rn_signal r) \<and> (isSequentialUploading s \<longleftrightarrow> rn_stage r \<noteq> Creating)"
    using assms(1) by (auto simp: calm_inv_def)
  from assms(2) show ?thesis
    using one inv unfolding run_advances_def calm_inv_def by (auto split: if_splits)
qed

lemma calm_inv_submit:
  assumes "calm_inv s" "runs s = []"
  shows "calm_inv (handleAddModeSubmit pr files data cont s)"
  using assms by (auto simp: calm_inv_def handleAddModeSubmit_def Let_def less_Suc_eq)

lemma calm_inv_abort: "calm_inv s \<Longrightarrow> calm_inv (abortSequentialUpload s)"
  by (auto simp: calm_inv_def abortSequentialUpload_def split: option.split if_splits)

lemma calm_inv_emit [simp]: "calm_inv (emit x s) = calm_inv s"
  by (rule calm_inv_core [OF core_emit])

lemma calm_inv_close:
  assumes "calm_inv s"
  shows "calm_inv (handleCloseAttempt pr s)" "calm_inv (handleDiscard s)"
proof -
  have u: "calm_inv (u\<lparr>abortToast := x\<rparr>) = calm_inv u" "calm_inv (u\<lparr>isDiscardDialogOpen := b\<rparr>) = calm_inv u"
    "calm_inv (u\<lparr>isFormDirty := b, panelFiles := fs, attachmentAddModeResetKey := k\<rparr>) = calm_inv u" for u x b fs k
    by (simp_all add: calm_inv_def)
  then show "calm_inv (handleCloseAttempt pr s)" "calm_inv (handleDiscard s)"
    using assms by (simp_all add: handleCloseAttempt_def handleDiscard_def Let_def calm_inv_abort)
qed

lemma calm_inv_settles:
  assumes "calm_inv s"
  shows "calm_inv (create_settles c res s)" "calm_inv (upload_settles c res s)"
proof -
  show "calm_inv (create_settles c res s)"
  proof (cases "\<exists>r. find_run c s = Some r \<and> rn_stage r = Creating")
    case True
    then obtain r where r: "find_run c s = Some r" "rn_stage r = Creating" by blast
    show ?thesis
      using calm_inv_advances [OF assms create_settles_advances(1) [OF r]] find_run_Some [OF r(1)] by blast
  next
    case False
    then have "create_settles c res s = s" by (intro create_settles_other) auto
    then show ?thesis using assms by simp
  qed
  show "calm_inv (upload_settles c res s)"
  proof (cases "\<exists>r item i n. find_run c s = Some r \<and> rn_stage r = Sending item i n")
    case True
    then obtain r item i n where r: "find_run c s = Some r" "rn_stage r = Sending item i n" by blast
    show ?thesis
      using calm_inv_advances [OF assms upload_settles_advances(1) [OF r]] find_run_Some [OF r(1)] by blast
  next
    case False
    then have "upload_settles c res s = s" by (intro upload_settles_other) (metis stage.exhaust option.exhaust)
    then show ?thesis using assms by simp
  qed
qed

lemma panel_reach_calm_inv:
  assumes "panel_reach calm s" "calm"
  shows "calm_inv s"
  using assms
proof (induction rule: panel_reach.induct)
  case panel_mounted
  then show ?case by (simp add: calm_inv_def mounted_panel_def)
next
  case (save s pr cb data)
  show ?case
  proof (cases rule: save_cases [of pr cb])
    case (adds files cont)
    then show ?thesis using save by (simp add: calm_inv_submit)
  next
    case tells
    then show ?thesis using calm_inv_core [OF tells] save by simp
  qed
qed (simp_all add: calm_inv_settles calm_inv_close
    calm_inv_core [OF core_quiet(1)] calm_inv_core [OF core_quiet(2)] calm_inv_core [OF core_quiet(3)]
    calm_inv_core [OF core_quiet(4)] calm_inv_core [OF core_quiet(5)])

subsection \<open>Requests of a run\<close>

definition posted :: "panel \<Rightarrow> panel_out list" where
  \<comment> \<open>the attachments sent so far\<close>
  "posted s = filter (\<lambda>x. case x of OPostAttachment _ _ _ \<Rightarrow> True | _ \<Rightarrow> False) (outs s)"

lemma posted_emit [simp]:
  "posted (emit x s) = posted s @ (case x of OPostAttachment _ _ _ \<Rightarrow> [x] | _ \<Rightarrow> [])"
  by (simp add: posted_def emit_def split: panel_out.split)

lemma posted_cong: "outs t = outs s \<Longrightarrow> posted t = posted s"
  by (simp add: posted_def)

lemma posted_resetDirtyState [simp]: "posted (resetDirtyState s) = posted s"
  by (simp add: posted_def resetDirtyState_def emit_def Let_def)

lemma posted_afterSubmit [simp]: "posted (afterSubmit r s) = posted s"
  by (simp add: afterSubmit_def split: after_submit.split)

lemma posted_item_saved [simp]: "posted (item_saved r s) = posted s"
  by (simp add: item_saved_def Let_def, simp add: posted_def)

lemma posted_end_run [simp]: "posted (end_run r s) = posted s"
  by (simp add: posted_def)

lemma posted_post_toast [simp]: "posted (post_toast_effect s) = posted s"
proof -
  have "posted (s\<lparr>pendingPostToastAction := None\<rparr>) = posted s" by (simp add: posted_def)
  then show ?thesis by (simp add: post_toast_effect_def split: option.split)
qed

lemma posted_all_sent [simp]: "posted (all_sent r n s) = posted s"
proof -
  have "posted (s\<lparr>isSequentialUploading := False, pendingPostToastAction := x, apiToast := y\<rparr>) = posted s"
    "posted (s\<lparr>isSequentialUploading := False\<rparr>) = posted s" for x y
    by (simp_all add: posted_def)
  then show ?thesis by (simp add: all_sent_def Let_def)
qed

lemma posted_upload_stopped [simp]: "posted (upload_stopped r s) = posted s"
  by (rule posted_cong) simp

lemma posted_set_stage [simp]: "posted (set_stage r st s) = posted s"
  by (rule posted_cong) simp

lemma posted_invalidations [simp]: "posted (foldl (\<lambda>t k. emit (OInvalidate k) t) s ks) = posted s"
  by (induction ks arbitrary: s) simp_all

lemma next_file_stopped_posts:
  "rn_signal r \<in> set (aborted_signals s) \<Longrightarrow> posted (next_file r item i n s) = posted s"
  by (cases rule: next_file_cases [of r i item n s]) simp_all

lemma stopped_runs_post_nothing:
  assumes "c \<in> set (aborted_signals s)"
  shows "posted (upload_settles c res s) = posted s" "posted (create_settles c res s) = posted s"
proof -
  have p: "posted (s\<lparr>sequentialUploadProgress := x\<rparr>) = posted s" for x by (simp add: posted_def)
  show "posted (upload_settles c res s) = posted s"
    using assms find_run_Some
    by (auto simp: upload_settles_def next_file_stopped_posts p split: option.split stage.split sum.split)
  have q: "posted (create_failed r err u) = posted u" for r err u
    by (simp add: create_failed_def, simp add: posted_def)
  have g: "posted (item_created r i u) = posted u" if "c \<in> set (aborted_signals u)" "rn_signal r = c" for r i u
    using that by (simp add: item_created_def next_file_stopped_posts, simp add: posted_def)
  have h: "posted (s\<lparr>creating := x\<rparr>) = posted s" for x by (simp add: posted_def)
  show "posted (create_settles c res s) = posted s"
    using assms find_run_Some by (auto simp: create_settles_def q g h Let_def split: option.split sum.split)
qed

lemma find_run_set_stage:
  assumes "find_run c s = Some q" "rn_signal r = c"
  shows "find_run c (set_stage r st s) = Some (r\<lparr>rn_stage := st\<rparr>)"
proof -
  have "find (\<lambda>r. rn_signal r = c) (map (\<lambda>q. if rn_signal q = c then r\<lparr>rn_stage := st\<rparr> else q) xs) =
      (case find (\<lambda>r. rn_signal r = c) xs of None \<Rightarrow> None | Some _ \<Rightarrow> Some (r\<lparr>rn_stage := st\<rparr>))" for xs
    using assms(2) by (induction xs) auto
  with assms show ?thesis by (simp add: find_run_def)
qed

lemma find_run_emit [simp]: "find_run c (emit x s) = find_run c s"
  by (simp add: find_run_def)

lemma find_run_ended: "rn_signal r = c \<Longrightarrow> find_run c (all_sent r n s) = None"
  "rn_signal r = c \<Longrightarrow> find_run c (end_run r s) = None"
  by (auto simp: find_run_def find_None_iff)

definition after_out :: "run \<Rightarrow> panel_out" where
  "after_out r = (case rn_after r of AfterSave \<Rightarrow> OSaveSuccess | AfterContinue \<Rightarrow> OSaveAndContinue)"

definition afters :: "run \<Rightarrow> panel \<Rightarrow> nat" where
  \<comment> \<open>how often the callback of a run was called\<close>
  "afters r s = length (filter ((=) (after_out r)) (outs s))"

lemma afterSubmit_emit: "afterSubmit r s = emit (after_out r) s"
  by (simp add: afterSubmit_def after_out_def split: after_submit.split)

lemma afters_emit [simp]: "afters r (emit x s) = afters r s + (if x = after_out r then 1 else 0)"
  by (simp add: afters_def emit_def)

lemma afters_cong: "outs t = outs s \<Longrightarrow> afters r t = afters r s"
  by (simp add: afters_def)

lemma other_outs [simp]:
  "after_out r \<noteq> OInvalidate k" "after_out r \<noteq> OFormReset" "after_out r \<noteq> OPostAttachment p f c"
  "OInvalidate k \<noteq> after_out r" "OFormReset \<noteq> after_out r" "OPostAttachment p f c \<noteq> after_out r"
  by (simp_all add: after_out_def split: after_submit.split)

lemma resetDirtyState_effects [simp]:
  "afters r (resetDirtyState s) = afters r s" "panelFiles (resetDirtyState s) = []"
  "apiToast (resetDirtyState s) = apiToast s" "pendingPostToastAction (resetDirtyState s) = pendingPostToastAction s"
proof -
  have "afters r (u\<lparr>attachmentAddModeResetKey := k\<rparr>) = afters r u"
    "afters r (u\<lparr>isFormDirty := b, panelFiles := fs\<rparr>) = afters r u" for u k b fs
    by (simp_all add: afters_def)
  then show "afters r (resetDirtyState s) = afters r s" by (simp add: resetDirtyState_def Let_def)
qed (simp_all add: resetDirtyState_def emit_def Let_def)

lemma emit_fields [simp]:
  "panelFiles (emit x s) = panelFiles s" "apiToast (emit x s) = apiToast s"
  "pendingPostToastAction (emit x s) = pendingPostToastAction s" "abortToast (emit x s) = abortToast s"
  by (simp_all add: emit_def)

lemma item_saved_effects [simp]:
  "afters r (item_saved r s) = Suc (afters r s)" "panelFiles (item_saved r s) = []"
  "apiToast (item_saved r s) = (True, TSuccess, msg_item_added)"
proof -
  have "afters r (s\<lparr>apiToast := x\<rparr>) = afters r s" for x by (simp add: afters_def)
  then show "afters r (item_saved r s) = Suc (afters r s)"
    by (simp add: item_saved_def Let_def afterSubmit_emit)
qed (simp_all add: item_saved_def Let_def afterSubmit_emit)

definition save_toast :: "nat \<Rightarrow> bool \<times> toast_severity \<times> string" where
  "save_toast failures =
     (if failures = 0 then (True, TSuccess, msg_item_added)
      else (True, TWarning, show_nat failures @ '' attachments could not be uploaded. Try again''))"

lemma end_run_fields [simp]:
  "panelFiles (end_run r s) = panelFiles s" "apiToast (end_run r s) = apiToast s"
  "afters q (end_run r s) = afters q s" "pendingPostToastAction (end_run r s) = pendingPostToastAction s"
  by (simp_all add: end_run_def afters_def)

lemma all_sent_effects:
  "afters r (all_sent r n s) = Suc (afters r s)" "panelFiles (all_sent r n s) = []"
  "apiToast (all_sent r n s) = save_toast n"
proof -
  have u: "afters r (s\<lparr>isSequentialUploading := b\<rparr>) = afters r s"
    "afters r (s\<lparr>isSequentialUploading := b, pendingPostToastAction := x, apiToast := y\<rparr>) = afters r s"
    "afters r (v\<lparr>pendingPostToastAction := x\<rparr>) = afters r v" for b x y v
    by (simp_all add: afters_def)
  show "afters r (all_sent r n s) = Suc (afters r s)" "panelFiles (all_sent r n s) = []"
    "apiToast (all_sent r n s) = save_toast n"
    by (simp_all add: all_sent_def Let_def u post_toast_effect_def afterSubmit_emit save_toast_def)
qed

definition post_of :: "run \<Rightarrow> string \<Rightarrow> upload_file \<Rightarrow> panel_out" where
  "post_of r item f = OPostAttachment (attachments_path (rn_reportId r) item) f (rn_signal r)"

abbreviation failures :: "(js_error + jsval) list \<Rightarrow> nat" where
  "failures rs \<equiv> length (filter isl rs)"

definition not_aborted :: "(js_error + jsval) list \<Rightarrow> bool" where
  "not_aborted rs \<longleftrightarrow> list_all (\<lambda>x. case x of Inl err \<Rightarrow> \<not> is_AbortError err | Inr _ \<Rightarrow> True) rs"

definition uploads_settle :: "nat \<Rightarrow> (js_error + jsval) list \<Rightarrow> panel \<Rightarrow> panel" where
  "uploads_settle c rs s = foldl (\<lambda>t x. upload_settles c x t) s rs"

lemma upload_settles_next:
  assumes "find_run c s = Some r" "rn_stage r = Sending item i n" "not_aborted [x]"
  shows "\<exists>u. upload_settles c x s = next_file r item (Suc i) (n + failures [x]) u \<and>
    posted u = posted s \<and> afters r u = afters r s \<and> find_run c u = find_run c s \<and>
    aborted_signals u = aborted_signals s"
proof (cases x)
  case (Inl err)
  then show ?thesis using assms by (auto simp: upload_settles_def not_aborted_def)
next
  case (Inr v)
  let ?u = "s\<lparr>sequentialUploadProgress := (i + 1, length (rn_files r))\<rparr>"
  have "posted ?u = posted s" "afters r ?u = afters r s" "find_run c ?u = find_run c s"
    "aborted_signals ?u = aborted_signals s"
    by (simp_all add: posted_def afters_def find_run_def)
  then show ?thesis using assms Inr by (auto simp: upload_settles_def)
qed

lemma uploads_complete:
  assumes "find_run c s = Some r" "rn_stage r = Sending item i n" "c \<notin> set (aborted_signals s)"
    "length rs = length (rn_files r) - i" "i < length (rn_files r)" "not_aborted rs"
  shows "posted (uploads_settle c rs s) = posted s @ map (post_of r item) (drop (Suc i) (rn_files r)) \<and>
    find_run c (uploads_settle c rs s) = None \<and> afters r (uploads_settle c rs s) = Suc (afters r s) \<and>
    panelFiles (uploads_settle c rs s) = [] \<and> apiToast (uploads_settle c rs s) = save_toast (n + failures rs)"
  using assms
proof (induction rs arbitrary: s r i n)
  case (Cons x rs)
  have sig: "rn_signal r = c" using find_run_Some [OF Cons.prems(1)] by simp
  have na: "not_aborted [x]" "not_aborted rs" using Cons.prems(6) by (auto simp: not_aborted_def)
  obtain k u where u: "upload_settles c x s = next_file r item (Suc i) k u" "posted u = posted s"
    "afters r u = afters r s" "find_run c u = find_run c s" "aborted_signals u = aborted_signals s"
    and k: "n + failures (x # rs) = k + failures rs"
    using upload_settles_next [OF Cons.prems(1,2) na(1)] by fastforce
  have step: "uploads_settle c (x # rs) s = uploads_settle c rs (upload_settles c x s)"
    by (simp add: uploads_settle_def)
  show ?case
  proof (cases "Suc i < length (rn_files r)")
    case False
    have "Suc (length rs) = length (rn_files r) - i" using Cons.prems(4) by simp
    then have "length rs = 0" using False Cons.prems(5) by arith
    then have e: "rs = []" "drop (Suc i) (rn_files r) = []" "upload_settles c x s = all_sent r k u"
      using False u(1) by (simp_all add: next_file_def)
    show ?thesis
      unfolding step k by (simp only: e) (simp add: uploads_settle_def u all_sent_effects find_run_ended sig)
  next
    case True
    let ?r = "r\<lparr>rn_stage := Sending item (Suc i) k\<rparr>"
    let ?t = "upload_settles c x s"
    have t: "?t = emit (post_of r item (rn_files r ! Suc i)) (set_stage r (Sending item (Suc i) k) u)"
      using True u Cons.prems(3) sig by (simp add: next_file_def post_of_def)
    have f: "find_run c ?t = Some ?r"
      unfolding t using find_run_set_stage [of c u r r] u(4) Cons.prems(1) sig by simp
    have a: "aborted_signals ?t = aborted_signals s" by (simp add: t u)
    have p: "posted ?t = posted s @ [post_of r item (rn_files r ! Suc i)]"
      by (simp add: t u post_of_def)
    have o: "afters r ?t = afters r s"
      using afters_cong [of "set_stage r (Sending item (Suc i) k) u" u r]
      by (simp add: t u post_of_def)
    have same: "post_of ?r = post_of r" "afters ?r = afters r" "rn_files ?r = rn_files r"
      by (auto simp: post_of_def afters_def after_out_def fun_eq_iff)
    have d: "drop (Suc i) (rn_files r) = rn_files r ! Suc i # drop (Suc (Suc i)) (rn_files r)"
      using True by (simp add: Cons_nth_drop_Suc)
    have "Suc i < length (rn_files ?r)" "length rs = length (rn_files ?r) - Suc i"
      using True Cons.prems(4) by auto
    with Cons.IH [where s = ?t and r = ?r and i = "Suc i" and n = k, OF f] show ?thesis
      using Cons.prems(3) na(2) unfolding step k same a p o d by auto
  qed
qed simp

subsection \<open>Properties\<close>

text \<open>
  C10. A double click cannot create an item twice: in every reachable state at most one creation request
  is in flight, and while one is, the save buttons of the form are disabled.
\<close>

theorem one_creation_at_a_time:
  assumes "panel_reach calm s"
  shows "length (filter (\<lambda>r. rn_stage r = Creating) (runs s)) \<le> 1 \<and>
    (filter (\<lambda>r. rn_stage r = Creating) (runs s) \<noteq> [] \<longrightarrow>
       isSaveDisabled pr s \<and>
       set (concat (map clickable (item_form_buttons (panel_form_props pr s)))) \<subseteq> {EFormCancel})"
proof -
  let ?xs = "filter (\<lambda>r. rn_stage r = Creating) (runs s)"
  have inv: "creation_inv s" by (rule panel_reach_creation_inv [OF assms])
  have d: "distinct (map rn_signal ?xs)" using inv by (simp add: creation_inv_def distinct_map_filter)
  have same: "creating s = Some (rn_signal r)" if "r \<in> set ?xs" for r
    using inv that by (auto simp: creation_inv_def)
  have "length ?xs \<le> 1"
  proof (cases ?xs)
    case (Cons a ys)
    have "ys = []"
    proof (cases ys)
      case (Cons b zs)
      then have "rn_signal a = rn_signal b" using same [of a] same [of b] \<open>?xs = a # ys\<close> by simp
      then show ?thesis using d \<open>?xs = a # ys\<close> Cons by simp
    qed simp
    then show ?thesis using Cons by simp
  qed simp
  moreover have "isSaveDisabled pr s" if "?xs \<noteq> []"
  proof -
    from that obtain r where "r \<in> set ?xs" by (cases ?xs) auto
    from same [OF this] show ?thesis by (simp add: isSaveDisabled_def)
  qed
  moreover have "set (concat (map clickable (item_form_buttons (panel_form_props pr s)))) \<subseteq> {EFormCancel}"
    if "isSaveDisabled pr s"
    using that unfolding clickable_item_form_buttons by (simp add: saveDisabled_def panel_form_props_def)
  ultimately show ?thesis by blast
qed

text \<open>
  C8. Closing the panel stops the uploads of a save, provided saves do not overlap: in every state reached
  with one save at a time in which attachments are being sent, a closing attempt aborts the signal of the
  running request, ends the uploading state, says so and closes the panel; whatever the requests then
  give, no further attachment is sent.
\<close>

theorem closing_stops_uploads:
  assumes "panel_reach True s" and "isSequentialUploading s"
  shows "let t = handleCloseAttempt pr s in
    (\<exists>r. runs t = [r] \<and> rn_stage r \<noteq> Creating \<and> rn_signal r \<in> set (aborted_signals t)) \<and>
    \<not> isSequentialUploading t \<and> abortToast t = (True, msg_upload_stopped) \<and> outs t = outs s @ [OClose] \<and>
    (\<forall>r \<in> set (runs t). \<forall>res. posted (upload_settles (rn_signal r) res t) = posted t)"
proof -
  have "calm_inv s" by (rule panel_reach_calm_inv [OF assms(1)]) simp
  then obtain r where r: "runs s = [r]" "rn_stage r \<noteq> Creating" "sequentialAbortControllerRef s = Some (rn_signal r)"
    using assms(2) unfolding calm_inv_def by (auto split: if_splits)
  define t where "t = handleCloseAttempt pr s"
  have t: "t = emit OClose ((s\<lparr>aborted_signals := aborted_signals s @ [rn_signal r],
      sequentialAbortControllerRef := None, isSequentialUploading := False\<rparr>)\<lparr>abortToast := (True, msg_upload_stopped)\<rparr>)"
    using assms(2) r(3) by (simp add: t_def handleCloseAttempt_def resolvedIsSequentialUploading_def abortSequentialUpload_def)
  have rt: "runs t = [r]" "rn_signal r \<in> set (aborted_signals t)" by (simp_all add: t r(1))
  moreover have "\<not> isSequentialUploading t" "abortToast t = (True, msg_upload_stopped)" "outs t = outs s @ [OClose]"
    by (simp_all add: t, simp add: emit_def)
  moreover have "posted (upload_settles (rn_signal r) res t) = posted t" for res
    by (rule stopped_runs_post_nothing(1) [OF rt(2)])
  ultimately show ?thesis using r(2) unfolding t_def by (simp add: Let_def)
qed

text \<open>
  C7. A saved item gets all its files: once the item exists, the files of the save are sent to it one
  after the other in their order, each exactly once, whether or not the earlier ones failed; then the
  run is over, the list of pending files is empty, the callback of the save has been called exactly
  once, and the toast says success, or warns with the number of files that failed.
\<close>

theorem save_sends_every_file:
  assumes "find_run c s = Some r" and "rn_stage r = Creating" and "c \<notin> set (aborted_signals s)"
    and "js_get v ''id'' = Inr i" and "rn_files r \<noteq> []"
    and "length rs = length (rn_files r)" and "not_aborted rs"
  shows "let t = uploads_settle c rs (create_settles c (Inr v) s) in
    posted t = posted s @ map (post_of r (js_to_string i)) (rn_files r) \<and>
    find_run c t = None \<and> panelFiles t = [] \<and> afters r t = Suc (afters r s) \<and>
    apiToast t = save_toast (failures rs)"
proof -
  have sig: "rn_signal r = c" using find_run_Some [OF assms(1)] by simp
  define s1 where "s1 = (if creating s = Some c then s\<lparr>creating := None\<rparr> else s)"
  define s2 where "s2 = foldl (\<lambda>t k. emit (OInvalidate k) t) s1 (mu_invalidates useCreateItem (rn_input r))"
  define s3 where "s3 = s2\<lparr>isSequentialUploading := True, sequentialUploadProgress := (0, length (rn_files r))\<rparr>"
  let ?item = "js_to_string i"
  let ?r = "r\<lparr>rn_stage := Sending ?item 0 0\<rparr>"
  have inv: "afters r (foldl (\<lambda>t k. emit (OInvalidate k) t) u ks) = afters r u" for u ks
    by (induction ks arbitrary: u) simp_all
  have s1: "posted s1 = posted s" "afters r s1 = afters r s" "runs s1 = runs s" "aborted_signals s1 = aborted_signals s"
    by (simp_all add: s1_def posted_def afters_def)
  have s3: "posted s3 = posted s" "afters r s3 = afters r s" "find_run c s3 = Some r" "aborted_signals s3 = aborted_signals s"
  proof -
    show "posted s3 = posted s" using posted_cong [of s3 s2] s1 by (simp add: s3_def s2_def)
    show "afters r s3 = afters r s" using afters_cong [of s3 s2 r] s1 by (simp add: s3_def s2_def inv)
    show "find_run c s3 = Some r" "aborted_signals s3 = aborted_signals s"
      using assms(1) s1 by (simp_all add: find_run_def s3_def s2_def)
  qed
  let ?t = "create_settles c (Inr v) s"
  have "?t = item_created r ?item s2"
    using assms(1,2,4) by (simp add: create_settles_def s1_def s2_def Let_def)
  then have t: "?t = emit (post_of r ?item (rn_files r ! 0)) (set_stage r (Sending ?item 0 0) s3)"
    using assms(3,5) sig s3(4) by (simp add: item_created_def s3_def [symmetric] next_file_def post_of_def)
  have f: "find_run c ?t = Some ?r" unfolding t using find_run_set_stage [OF s3(3) sig] by simp
  have p: "posted ?t = posted s @ [post_of r ?item (rn_files r ! 0)]" by (simp add: t s3 post_of_def)
  have o: "afters r ?t = afters r s"
    using afters_cong [of "set_stage r (Sending ?item 0 0) s3" s3 r] by (simp add: t s3 post_of_def)
  have same: "post_of ?r = post_of r" "afters ?r = afters r" "rn_files ?r = rn_files r"
    by (auto simp: post_of_def afters_def after_out_def fun_eq_iff)
  have d: "map (post_of r ?item) (rn_files r) =
      post_of r ?item (rn_files r ! 0) # map (post_of r ?item) (drop (Suc 0) (rn_files r))"
    using assms(5) by (cases "rn_files r") auto
  have "c \<notin> set (aborted_signals ?t)" using assms(3) s3(4) by (simp add: t)
  with uploads_complete [where s = ?t and r = ?r and item = ?item and i = 0 and n = 0 and rs = rs, OF f] show ?thesis
    using assms(5-7) unfolding same p o d by (simp add: Let_def)
qed

definition demo_panel_props :: panel_props where
  "demo_panel_props =
     \<lparr>pp_open = True, pp_mode = AddMode, pp_reportId = ''r1'', pp_item = None, pp_reportStatus = Draft,
      pp_isOwner = True, pp_categories = [], pp_apiError = None, pp_isPending = False,
      pp_reportPeriodStart = None, pp_reportPeriodEnd = None, pp_isUploading = False, pp_isDeleting = False,
      pp_isSequentialUploading = False, pp_sequentialUploadProgress = None, pp_submits = True\<rparr>"

definition demo_values :: item_values where
  "demo_values = \<lparr>iv_expenseDate = ''2026-04-01'', iv_amount = Amount 1200, iv_categoryId = ''c'',
     iv_description = ''taxi''\<rparr>"

definition demo_file :: "nat \<Rightarrow> upload_file" where
  "demo_file n = \<lparr>f_ident = n, f_name = ''a'', f_type = ''image/png'', f_size = 10\<rparr>"

definition demo_item :: jsval where
  "demo_item = JObj [(''id'', JStr ''i1'')]"

definition demo_saving :: "upload_file list \<Rightarrow> panel \<Rightarrow> panel" where
  "demo_saving fs s =
     (let u = panel_hears (PPendingFilesChange fs) s
      in panel_callback_runs demo_panel_props (PanelSubmit AddMode fs, demo_values) u)"

lemma demo_saving_reach:
  assumes "panel_reach calm s" "\<not> isSaveDisabled demo_panel_props s" "calm \<longrightarrow> runs s = []"
  shows "panel_reach calm (demo_saving fs s)"
proof -
  let ?u = "panel_hears (PPendingFilesChange fs) s"
  have "may_start ?u" "runs ?u = runs s"
    using enabled_may_start [OF assms(2)] by (simp_all add: may_start_def)
  then show ?thesis
    unfolding demo_saving_def Let_def using assms by (intro save area_calls) auto
qed

lemma demo_saving_first: "panel_reach calm (demo_saving fs mounted_panel)"
  by (rule demo_saving_reach [OF panel_mounted])
    (simp_all add: isSaveDisabled_def resolvedIsSequentialUploading_def mounted_panel_def demo_panel_props_def)

theorem one_creation_at_a_time_witness:
  "isSaveDisabled demo_panel_props (demo_saving [] mounted_panel) \<and>
   length (filter (\<lambda>r. rn_stage r = Creating) (runs (demo_saving [] mounted_panel))) = 1"
proof -
  have "length (filter (\<lambda>r. rn_stage r = Creating) (runs (demo_saving [] mounted_panel))) = 1"
    by (simp add: demo_saving_def handleAddModeSubmit_def mounted_panel_def Let_def)
  moreover from this have "filter (\<lambda>r. rn_stage r = Creating) (runs (demo_saving [] mounted_panel)) \<noteq> []"
    by auto
  ultimately show ?thesis
    using one_creation_at_a_time [OF demo_saving_first, of "[]" demo_panel_props] by blast
qed

definition demo_sending :: panel where
  "demo_sending = create_settles 0 (Inr demo_item) (demo_saving [demo_file 7, demo_file 8] mounted_panel)"

lemma demo_sending_reach: "panel_reach calm demo_sending"
  unfolding demo_sending_def by (intro creation demo_saving_first)

lemma demo_sending_fields:
  "isSequentialUploading demo_sending" "aborted_signals demo_sending = []"
  "map rn_signal (runs demo_sending) = [0]" "outs demo_sending \<noteq> []"
  by code_simp+

theorem closing_stops_uploads_witness:
  "\<not> isSequentialUploading (handleCloseAttempt demo_panel_props demo_sending) \<and>
   outs (handleCloseAttempt demo_panel_props demo_sending) = outs demo_sending @ [OClose]"
  using closing_stops_uploads [OF demo_sending_reach demo_sending_fields(1), of demo_panel_props]
  by (simp add: Let_def)

theorem save_sends_every_file_witness:
  "let s = demo_saving [demo_file 7, demo_file 8] mounted_panel;
       t = uploads_settle 0 [Inl (OtherError ''e'' ''m''), Inr JNull] (create_settles 0 (Inr demo_item) s)
   in apiToast t = save_toast 1 \<and> length (posted t) = 2"
proof -
  let ?s = "demo_saving [demo_file 7, demo_file 8] mounted_panel"
  obtain r where r: "find_run 0 ?s = Some r" "rn_stage r = Creating" "rn_files r = [demo_file 7, demo_file 8]"
    by (simp add: demo_saving_def handleAddModeSubmit_def mounted_panel_def Let_def find_run_def)
  have a: "0 \<notin> set (aborted_signals ?s)" and p: "posted ?s = []"
    by (simp_all add: demo_saving_def handleAddModeSubmit_def mounted_panel_def Let_def posted_def emit_def)
  have i: "js_get demo_item ''id'' = Inr (JStr ''i1'')" by (simp add: demo_item_def)
  have "not_aborted [Inl (OtherError ''e'' ''m''), Inr JNull]"
    by (simp add: not_aborted_def is_AbortError_def)
  then show ?thesis
    using save_sends_every_file [OF r(1,2) a i, of "[Inl (OtherError ''e'' ''m''), Inr JNull]"] r(3) p
    by (simp add: Let_def)
qed

lemma empty_save_completes:
  assumes "find_run c s = Some r" "rn_stage r = Creating" "js_get v ''id'' = Inr i" "rn_files r = []"
  shows "let t = create_settles c (Inr v) s in
    panelFiles t = [] \<and> posted t = posted s \<and> apiToast t = (True, TSuccess, msg_item_added) \<and>
    afters r t = Suc (afters r s) \<and> find_run c t = None"
proof -
  have sig: "rn_signal r = c" using find_run_Some [OF assms(1)] by simp
  have inv: "afters r (foldl (\<lambda>t k. emit (OInvalidate k) t) u ks) = afters r u" for u ks
    by (induction ks arbitrary: u) simp_all
  have "posted (s\<lparr>creating := None\<rparr>) = posted s" "afters r (s\<lparr>creating := None\<rparr>) = afters r s"
    by (simp_all add: posted_def afters_def)
  then show ?thesis
    using assms by (simp add: create_settles_def Let_def item_created_def inv find_run_ended sig)
qed

text \<open>
  Files that are added while the creation request is in flight are lost: the run has captured the
  list of the click, so when it started without files, it reports success, sends none of the files that
  were added since, and empties the list.
\<close>

theorem files_added_while_saving_are_lost:
  assumes "find_run c s = Some r" and "rn_stage r = Creating" and "js_get v ''id'' = Inr i" and "rn_files r = []"
  shows "let t = create_settles c (Inr v) (panel_hears (PPendingFilesChange fs) s) in
    panelFiles t = [] \<and> posted t = posted s \<and> apiToast t = (True, TSuccess, msg_item_added) \<and>
    afters r t = Suc (afters r s)"
proof -
  let ?u = "panel_hears (PPendingFilesChange fs) s"
  have f: "find_run c ?u = Some r" using assms(1) by (simp add: find_run_def)
  have "posted ?u = posted s" "afters r ?u = afters r s" by (simp_all add: posted_def afters_def)
  then show ?thesis using empty_save_completes [OF f assms(2-4)] by (simp add: Let_def)
qed

theorem files_added_while_saving_are_lost_witness:
  "panelFiles (create_settles 0 (Inr demo_item)
     (panel_hears (PPendingFilesChange [demo_file 9]) (demo_saving [] mounted_panel))) = []"
proof -
  obtain r where r: "find_run 0 (demo_saving [] mounted_panel) = Some r" "rn_stage r = Creating" "rn_files r = []"
    by (simp add: demo_saving_def handleAddModeSubmit_def mounted_panel_def Let_def find_run_def)
  have i: "js_get demo_item ''id'' = Inr (JStr ''i1'')" by (simp add: demo_item_def)
  show ?thesis
    using files_added_while_saving_are_lost [OF r(1,2) i r(3), of "[demo_file 9]"] by (simp add: Let_def)
qed

text \<open>
  Discarding cannot take back a save that has begun: the creation request is not aborted, and when
  it succeeds after the panel was discarded and closed, the run still reports success, resets the form
  and calls the parent back as after any save.
\<close>

theorem discarded_save_completes:
  assumes "find_run c s = Some r" and "rn_stage r = Creating" and "js_get v ''id'' = Inr i" and "rn_files r = []"
  shows "outs (handleDiscard s) = outs s @ [OCancelUpload, OCancelDelete, OFormReset, OClose] \<and>
    (let t = create_settles c (Inr v) (handleDiscard s) in
      apiToast t = (True, TSuccess, msg_item_added) \<and> afters r t = Suc (afters r s))"
proof -
  let ?u = "handleDiscard s"
  have o: "outs ?u = outs s @ [OCancelUpload, OCancelDelete, OFormReset, OClose]" and "runs ?u = runs s"
    by (simp_all add: handleDiscard_def abortSequentialUpload_def emit_def Let_def split: option.split)
  then have "find_run c ?u = Some r" using assms(1) by (simp add: find_run_def)
  moreover have "afters r ?u = afters r s"
    unfolding afters_def o by (auto simp: after_out_def split: after_submit.split)
  ultimately show ?thesis using empty_save_completes [of c ?u r v i] assms(2-4) o by (simp add: Let_def)
qed

theorem discarded_save_completes_witness:
  "OSaveSuccess \<in> set (outs (create_settles 0 (Inr demo_item) (handleDiscard (demo_saving [] mounted_panel))))"
proof -
  let ?s = "demo_saving [] mounted_panel"
  obtain r where r: "find_run 0 ?s = Some r" "rn_stage r = Creating" "rn_files r = []" "rn_after r = AfterSave"
    by (simp add: demo_saving_def handleAddModeSubmit_def mounted_panel_def Let_def find_run_def)
  have i: "js_get demo_item ''id'' = Inr (JStr ''i1'')" by (simp add: demo_item_def)
  have "afters r (create_settles 0 (Inr demo_item) (handleDiscard ?s)) \<noteq> 0"
    using discarded_save_completes [OF r(1,2) i r(3)] by (simp add: Let_def)
  then show ?thesis using r(4) by (auto simp: afters_def after_out_def filter_empty_conv)
qed

definition demo_overlap :: panel where
  "demo_overlap =
     create_settles 1 (Inr demo_item)
       (upload_settles 0 (Inl (OtherError ''AbortError'' ''aborted''))
         (demo_saving [demo_file 5, demo_file 6] (handleCloseAttempt demo_panel_props demo_sending)))"

text \<open>
  Without one save at a time, closing may leave uploads running: when the rejection of a stopped
  upload arrives after the next save has begun, the \<open>finally\<close> of the old run clears the ref of the new
  one, so a closing attempt while the new run sends its files says that the upload was stopped and closes the panel,
  but aborts nothing, and the run goes on to send its next file.
\<close>

theorem overlapping_saves_cannot_be_stopped:
  "panel_reach False demo_overlap \<and> isSequentialUploading demo_overlap \<and>
   (let t = handleCloseAttempt demo_panel_props demo_overlap in
      abortToast t = (True, msg_upload_stopped) \<and> last (outs t) = OClose \<and>
      map rn_signal (runs t) = [1] \<and> 1 \<notin> set (aborted_signals t) \<and>
      length (posted (upload_settles 1 (Inr JNull) t)) = Suc (length (posted t)))"
proof -
  have n: "\<not> isSaveDisabled demo_panel_props (handleCloseAttempt demo_panel_props demo_sending)"
    by code_simp
  have "panel_reach False demo_overlap"
    unfolding demo_overlap_def
    by (rule creation, rule upload, rule demo_saving_reach [OF close_attempt [OF demo_sending_reach] n]) simp
  moreover have "isSequentialUploading demo_overlap" by code_simp
  moreover have "let t = handleCloseAttempt demo_panel_props demo_overlap in
      abortToast t = (True, msg_upload_stopped) \<and> last (outs t) = OClose \<and>
      map rn_signal (runs t) = [1] \<and> 1 \<notin> set (aborted_signals t) \<and>
      length (posted (upload_settles 1 (Inr JNull) t)) = Suc (length (posted t))"
    by code_simp
  ultimately show ?thesis by blast
qed

definition area_tells :: "parent_call list \<Rightarrow> panel_call list" where
  "area_tells cs = panel_calls (foldl (\<lambda>a c. area_uploader_call c a) mounted_area cs)"

definition panel_hears_all :: "panel_call list \<Rightarrow> panel \<Rightarrow> panel" where
  "panel_hears_all cs s = foldl (\<lambda>t c. panel_hears c t) s cs"

text \<open>
  An upload whose control goes away before it settles leaves the panel unable to save: the control
  reports the start and the abort, but never the end of the upload, so every later form of the panel has
  its save buttons disabled.
\<close>

theorem unmounted_upload_disables_saving:
  assumes "pr_mode upr = EditMode" and "pr_itemId upr = Some i" and "i \<noteq> []" and "validateFile f = None"
  shows "let u = handleFile upr f (mounted_uploader upr);
             v = unmount_uploader (u\<lparr>up_hook := upload_step RunFn (up_hook u)\<rparr>)
         in calls_made v = [UploadingChange True, UploadAborted] \<and>
            isSaveDisabled pr (panel_hears_all (area_tells (calls_made v)) s)"
proof -
  let ?u = "handleFile upr f (mounted_uploader upr)"
  let ?v = "unmount_uploader (?u\<lparr>up_hook := upload_step RunFn (up_hook ?u)\<rparr>)"
  have r: "calls_made (revoke_all w) = calls_made w" for w
  proof -
    have "calls_made (foldl (\<lambda>s u. revoke u s) w us) = calls_made w" for us
      by (induction us arbitrary: w) simp_all
    then show ?thesis by (simp add: revoke_all_def)
  qed
  have "calls_made ?v = [UploadingChange True, UploadAborted]"
    using assms by (simp add: handleFile_def startUpload_def unmount_uploader_def r mounted_uploader_def
        call_def upload_step_def hook_defs fresh_hook_def Let_def)
  moreover have "isSaveDisabled pr (panel_hears_all (area_tells [UploadingChange True, UploadAborted]) s)"
    by (simp add: area_tells_def panel_hears_all_def isSaveDisabled_def mounted_area_def tell_def)
  ultimately show ?thesis by (simp add: Let_def)
qed

theorem unmounted_upload_disables_saving_witness:
  "let upr = \<lparr>pr_reportId = ''r'', pr_itemId = Some ''i'', pr_mode = EditMode\<rparr>;
       u = handleFile upr (demo_file 1) (mounted_uploader upr);
       v = unmount_uploader (u\<lparr>up_hook := upload_step RunFn (up_hook u)\<rparr>)
   in isSaveDisabled demo_panel_props (panel_hears_all (area_tells (calls_made v)) mounted_panel)"
  unfolding Let_def
  by (rule unmounted_upload_disables_saving [where i = "''i''", unfolded Let_def, THEN conjunct2])
    (simp_all add: validateFile_def demo_file_def ALLOWED_MIME_TYPES_def MAX_FILE_SIZE_BYTES_def)

end
