(* ===== verification/Report_Actions.thy ===== *)
theory Report_Actions
  imports Ui_Parts
begin

text \<open>
  What a report shows and offers (frontend/src/pages/reports/: OwnerActions, ReportActionBar,
  WorkflowActions, ItemListHeader, ItemListSection, ItemTable, ReportInfoCard, ReportBasicInfo,
  ReportWorkflowInfo, ReportReferenceLink). The formatting of dates and numbers for the locale of the
  browser is a parameter. The action bar is given all its callbacks, as the page does.
\<close>

subsection \<open>Buttons\<close>

datatype report_event =
    EEdit
  | ESubmitReport
  | EDelete
  | EResubmit
  | EApprove
  | EReject
  | EPay
  | EAddItem
  | EItemClick string
  | EEditItem string
  | EDeleteItem string

datatype pending_action = PendSubmit | PendDelete | PendApprove | PendReject | PendPay

abbreviation button :: "string \<Rightarrow> 'e \<Rightarrow> bool \<Rightarrow> 'e jsx list \<Rightarrow> 'e jsx" where
  "button color e disabled cs \<equiv>
     El ''Button'' [(''color'', AStr color), (''onClick'', AEv e), (''disabled'', ABool disabled)] cs"

definition ownerActions :: "report_status \<Rightarrow> nat \<Rightarrow> pending_action option \<Rightarrow> report_event jsx" where
  "ownerActions status itemCount pendingAction =
     (case status of
        Draft \<Rightarrow>
          El ''div'' []
            [button ''primary'' EEdit (pendingAction \<noteq> None) [Txt ''Edit''],
             button ''primary'' ESubmitReport (itemCount = 0 \<or> pendingAction \<noteq> None)
               [when_jsx (pendingAction = Some PendSubmit) (El ''span'' [(''data-testid'', AStr ''spinner'')] []),
                Txt ''Submit''],
             button ''error'' EDelete (pendingAction \<noteq> None) [Txt ''Delete'']]
      | Rejected \<Rightarrow> El ''div'' [] [button ''primary'' EResubmit False [Txt ''Resubmit'']]
      | _ \<Rightarrow> NullJsx)"

definition reportActionBar ::
  "report_status \<Rightarrow> bool \<Rightarrow> string \<Rightarrow> nat \<Rightarrow> pending_action option \<Rightarrow> report_event jsx" where
  "reportActionBar status isOwner currentUserRole itemCount pendingAction =
     (if status = Paid then NullJsx
      else if isOwner \<and> (status = Draft \<or> status = Rejected)
      then El ''div'' [(''data-testid'', AStr ''report-action-bar'')]
             [ownerActions status itemCount pendingAction]
      else if \<not> isOwner \<and> currentUserRole = ''approver'' \<and> status = Submitted
      then El ''div'' [(''data-testid'', AStr ''report-action-bar'')]
             [El ''div'' [(''data-testid'', AStr ''workflow-actions'')]
               [button ''primary'' EApprove (pendingAction \<noteq> None) [Txt ''Approve''],
                button ''error'' EReject (pendingAction \<noteq> None) [Txt ''Reject'']]]
      else if \<not> isOwner \<and> currentUserRole = ''accounting'' \<and> status = Approved
      then El ''div'' [(''data-testid'', AStr ''report-action-bar'')]
             [El ''div'' [(''data-testid'', AStr ''workflow-actions'')]
               [button ''primary'' EPay (pendingAction \<noteq> None) [Txt ''Mark as paid'']]]
      else NullJsx)"

definition workflowActions :: "report_status \<Rightarrow> role \<Rightarrow> bool \<Rightarrow> pending_action option \<Rightarrow> report_event jsx" where
  "workflowActions status currentUserRole isOwner pendingAction =
     (if isOwner then NullJsx
      else if currentUserRole = Approver \<and> status = Submitted
      then El ''div'' []
             [button ''primary'' EApprove (pendingAction \<noteq> None)
                [when_jsx (pendingAction = Some PendApprove) (El ''span'' [(''data-testid'', AStr ''approve-spinner'')] []),
                 Txt ''Approve''],
              button ''error'' EReject (pendingAction \<noteq> None)
                [when_jsx (pendingAction = Some PendReject) (El ''span'' [(''data-testid'', AStr ''reject-spinner'')] []),
                 Txt ''Reject'']]
      else if currentUserRole = Accounting \<and> status = Approved
      then El ''div'' []
             [button ''primary'' EPay (pendingAction \<noteq> None)
                [when_jsx (pendingAction = Some PendPay) (El ''span'' [(''data-testid'', AStr ''pay-spinner'')] []),
                 Txt ''Mark as paid'']]
      else NullJsx)"

subsection \<open>Items\<close>

record locale_format =
  lc_dateTime :: "string \<Rightarrow> string"
  lc_date :: "string \<Rightarrow> string"
  lc_number :: "int \<Rightarrow> string"

definition itemListHeader :: "nat \<Rightarrow> bool \<Rightarrow> report_event jsx" where
  "itemListHeader itemCount canAddItem =
     El ''div'' [(''data-testid'', AStr ''item-list-header'')]
       [El ''h3'' [] [Txt (''Items ('' @ show_nat itemCount @ '')'')],
        when_jsx canAddItem (El ''Button'' [(''onClick'', AEv EAddItem)] [Txt ''Add an item''])]"

definition item_row :: "locale_format \<Rightarrow> bool \<Rightarrow> expense_item \<Rightarrow> report_event jsx" where
  "item_row lc canEditItems item =
     El ''TableRow'' [(''data-testid'', AStr (''item-row-'' @ it_id item)), (''onClick'', AEv (EItemClick (it_id item)))]
       [El ''TableCell'' [] [Txt (lc_date lc (it_expense_date item))],
        El ''TableCell'' [] [Txt (''Y'' @ lc_number lc (it_amount item))],
        El ''TableCell'' [] [Txt (cat_name_ja (it_category item))],
        El ''TableCell'' [] [Txt (it_description item)],
        El ''TableCell'' [] [Txt (show_nat (length (it_attachments item)))],
        when_jsx canEditItems
          (El ''TableCell'' []
            [El ''Button'' [(''onClick'', AEv (EEditItem (it_id item))), (''stopPropagation'', ABool True)] [Txt ''Edit''],
             El ''Button'' [(''onClick'', AEv (EDeleteItem (it_id item))), (''stopPropagation'', ABool True)] [Txt ''Delete'']])]"

definition itemTable :: "locale_format \<Rightarrow> bool \<Rightarrow> expense_item list \<Rightarrow> report_event jsx" where
  "itemTable lc canEditItems items =
     El ''Table'' [(''data-testid'', AStr ''item-table'')]
       [El ''TableHead'' []
          ([El ''TableCell'' [] [Txt t]. t \<leftarrow> [''Date'', ''Amount'', ''Category'', ''Description'', ''Attachments'']]
           @ [when_jsx canEditItems (El ''TableCell'' [] [Txt ''Actions''])]),
        El ''TableBody'' [] (map (item_row lc canEditItems) items)]"

definition itemListSection :: "locale_format \<Rightarrow> expense_item list \<Rightarrow> bool \<Rightarrow> report_status \<Rightarrow> report_event jsx" where
  "itemListSection lc items isOwner status =
     (let canEditItems = isOwner \<and> status = Draft in
      El ''div'' [(''data-testid'', AStr ''item-list-section'')]
        [itemListHeader (length items) canEditItems,
         if length items = 0 then El ''div'' [] [El ''p'' [] [Txt ''No items have been added yet'']]
         else itemTable lc canEditItems items])"

subsection \<open>Report information\<close>

definition formatDateSlash :: "string \<Rightarrow> string" where
  "formatDateSlash isoStr = map (\<lambda>c. if c = CHR ''-'' then CHR ''/'' else c) (slice10 isoStr)"

definition hasWorkflowInfo :: "report_detail \<Rightarrow> bool" where
  "hasWorkflowInfo r \<longleftrightarrow>
     truthy_opt (rd_submitted_at r) \<or> rd_approved_by r \<noteq> None \<or> rd_rejected_by r \<noteq> None \<or> rd_paid_by r \<noteq> None"

definition opt_text :: "string \<Rightarrow> (string \<Rightarrow> string) \<Rightarrow> string option \<Rightarrow> 'e jsx" where
  \<comment> \<open>\<open>{value && <Typography>label: {f(value)}</Typography>}\<close>\<close>
  "opt_text label f v =
     (case v of None \<Rightarrow> NullJsx | Some t \<Rightarrow> if t = [] then NullJsx else El ''Typography'' [] [Txt (label @ f t)])"

definition workflow_person ::
  "string \<Rightarrow> user_summary option \<Rightarrow> 'e jsx list \<Rightarrow> 'e jsx" where
  "workflow_person label who rest =
     (case who of None \<Rightarrow> NullJsx
      | Some u \<Rightarrow> El ''Box'' [] (El ''Typography'' [] [Txt (label @ us_name u)] # rest))"

definition reportInfoCard :: "locale_format \<Rightarrow> report_detail \<Rightarrow> 'e jsx" where
  "reportInfoCard lc r =
     El ''div'' [(''data-testid'', AStr ''report-info-card'')]
       [El ''div'' []
          [El ''h2'' [] [Txt (rd_title r)], statusChip (rd_status r),
           El ''p'' [] [Txt (''Period: '' @ formatDateSlash (rd_period_start r) @ '' - '' @ formatDateSlash (rd_period_end r))],
           El ''p'' [] [Txt (''Total: Y'' @ lc_number lc (rd_total_amount r))],
           El ''p'' [] [Txt (''Submitter: '' @ us_name (rd_submitter r))],
           El ''p'' [] [Txt (''Created: '' @ lc_dateTime lc (rd_created_at r))]],
        (case rd_reference_report_id r of None \<Rightarrow> NullJsx
         | Some i \<Rightarrow> when_jsx (i \<noteq> []) (El ''Link'' [(''to'', AStr (''/reports/'' @ i))] [Txt ''Show the original report''])),
        when_jsx (hasWorkflowInfo r)
          (El ''Paper'' []
            [opt_text ''Submitted: '' (lc_dateTime lc) (rd_submitted_at r),
             workflow_person ''Approver: '' (rd_approved_by r)
               [opt_text ''Approved: '' (lc_dateTime lc) (rd_approved_at r),
                opt_text ''Comment: '' id (rd_approval_comment r)],
             workflow_person ''Rejected by: '' (rd_rejected_by r)
               [opt_text ''Rejected: '' (lc_dateTime lc) (rd_rejected_at r),
                opt_text ''Reason: '' id (rd_rejection_reason r)],
             workflow_person ''Paid by: '' (rd_paid_by r)
               [opt_text ''Paid: '' (lc_dateTime lc) (rd_paid_at r)]])]"

definition reportBasicInfo ::
  "locale_format \<Rightarrow> string \<Rightarrow> report_status \<Rightarrow> string \<Rightarrow> string \<Rightarrow> int \<Rightarrow> string \<Rightarrow> string \<Rightarrow> 'e jsx" where
  "reportBasicInfo lc title status periodStart periodEnd totalAmount submitterName createdAt =
     El ''div'' []
       [El ''h2'' [] [Txt title], statusChip status,
        El ''p'' [] [Txt (''Period: '' @ periodStart @ '' - '' @ periodEnd)],
        El ''p'' [] [Txt (''Total: Y'' @ lc_number lc totalAmount)],
        El ''p'' [] [Txt (''Submitter: '' @ submitterName)],
        El ''p'' [] [Txt (''Created: '' @ lc_dateTime lc createdAt)]]"

record workflow_info =
  wi_submittedAt :: "string option"
  wi_approverName :: "string option"
  wi_approvedAt :: "string option"
  wi_approvalComment :: "string option"
  wi_rejectorName :: "string option"
  wi_rejectedAt :: "string option"
  wi_rejectionReason :: "string option"
  wi_paidByName :: "string option"
  wi_paidAt :: "string option"

abbreviation txt_opt :: "string option \<Rightarrow> 'e jsx" where
  "txt_opt s \<equiv> El ''p'' [] (case s of None \<Rightarrow> [] | Some t \<Rightarrow> [Txt t])"

definition reportWorkflowInfo :: "report_status \<Rightarrow> workflow_info \<Rightarrow> 'e jsx" where
  "reportWorkflowInfo status w =
     (if status = Draft then NullJsx
      else El ''div'' []
        [opt_text ''Submitted: '' id (wi_submittedAt w),
         when_jsx (truthy_opt (wi_approvedAt w))
           (El ''div'' [] [txt_opt (wi_approverName w), txt_opt (wi_approvedAt w),
              when_jsx (truthy_opt (wi_approvalComment w)) (txt_opt (wi_approvalComment w))]),
         when_jsx (truthy_opt (wi_rejectedAt w))
           (El ''div'' [] [txt_opt (wi_rejectorName w), txt_opt (wi_rejectedAt w),
              when_jsx (truthy_opt (wi_rejectionReason w)) (txt_opt (wi_rejectionReason w))]),
         when_jsx (truthy_opt (wi_paidAt w))
           (El ''div'' [] [txt_opt (wi_paidByName w), txt_opt (wi_paidAt w)])])"

definition reportReferenceLink :: "string option \<Rightarrow> string option \<Rightarrow> 'e jsx" where
  "reportReferenceLink referenceReportId referenceReportTitle =
     (case referenceReportId of None \<Rightarrow> NullJsx
      | Some i \<Rightarrow> if i = [] then NullJsx
                  else El ''Link'' [(''to'', AStr (''/reports/'' @ i))]
                         (case referenceReportTitle of None \<Rightarrow> [] | Some t \<Rightarrow> [Txt t]))"

subsection \<open>What is offered\<close>

lemma offered_button [simp]:
  "offered ''onClick'' (button color e disabled cs) = (if disabled then [] else [e]) @ concat (map clickable cs)"
  by (simp add: own_events_def)

lemma action_bar_offers:
  "set (clickable (reportActionBar status isOwner r n pend)) =
     (if isOwner \<and> status = Draft \<and> pend = None then {EEdit, EDelete} \<union> (if n = 0 then {} else {ESubmitReport})
      else if isOwner \<and> status = Rejected then {EResubmit}
      else if \<not> isOwner \<and> r = ''approver'' \<and> status = Submitted \<and> pend = None then {EApprove, EReject}
      else if \<not> isOwner \<and> r = ''accounting'' \<and> status = Approved \<and> pend = None then {EPay} else {})"
  by (cases status) (auto simp: reportActionBar_def ownerActions_def own_events_def)

lemma item_row_offers:
  "set (clickable (item_row lc b item)) =
     insert (EItemClick (it_id item)) (if b then {EEditItem (it_id item), EDeleteItem (it_id item)} else {})"
  by (auto simp: item_row_def own_events_def)

lemma item_section_offers:
  "set (clickable (itemListSection lc items isOwner status)) =
     (if isOwner \<and> status = Draft
      then insert EAddItem (\<Union>i \<in> it_id ` set items. {EItemClick i, EEditItem i, EDeleteItem i})
      else EItemClick ` it_id ` set items)"
proof -
  have e: "clickable (El ''TableCell'' [] [Txt t] :: report_event jsx) = []" for t by (simp add: own_events_def)
  have t: "set (clickable (itemTable lc b items)) =
      (\<Union>i \<in> set items. set (clickable (item_row lc b i)))" for b
    by (auto simp: itemTable_def own_events_def e)
  show ?thesis
    by (auto simp: itemListSection_def Let_def itemListHeader_def own_events_def t item_row_offers)
qed

lemma role_name_iff:
  "role_name r = ''approver'' \<longleftrightarrow> r = Approver" "role_name r = ''accounting'' \<longleftrightarrow> r = Accounting"
  by (cases r; simp)+

subsection \<open>Properties\<close>

text \<open>
  C22. The buttons keep the duties apart. Whatever is pending, the action bar and the item list offer:
  editing, submitting, deleting and changing items only to the owner of a draft; resubmitting only to
  the owner of a rejected report; approving and rejecting only to an approver, and paying only to
  accounting, never to the owner, and only in the state before; and nothing to change on a paid report.
\<close>

theorem actions_keep_duties_apart:
  assumes "e \<in> set (clickable (reportActionBar status isOwner (role_name r) n pend)) \<union>
             set (clickable (itemListSection lc items isOwner status))"
  shows "(e \<in> {EEdit, ESubmitReport, EDelete, EAddItem} \<union> range EEditItem \<union> range EDeleteItem \<longrightarrow>
            isOwner \<and> status = Draft) \<and>
    (e = ESubmitReport \<longrightarrow> 0 < n) \<and>
    (e = EResubmit \<longrightarrow> isOwner \<and> status = Rejected) \<and>
    (e \<in> {EApprove, EReject} \<longrightarrow> \<not> isOwner \<and> r = Approver \<and> status = Submitted \<and> pend = None) \<and>
    (e = EPay \<longrightarrow> \<not> isOwner \<and> r = Accounting \<and> status = Approved \<and> pend = None) \<and>
    (status = Paid \<longrightarrow> e \<in> EItemClick ` it_id ` set items)"
  using assms unfolding action_bar_offers item_section_offers role_name_iff by (auto split: if_splits)

theorem actions_keep_duties_apart_witness:
  "\<exists>own r. EApprove \<in> set (clickable (reportActionBar Submitted own (role_name r) 1 None)) \<and>
     \<not> own \<and> r = Approver"
proof -
  have m: "EApprove \<in> set (clickable (reportActionBar Submitted False (role_name Approver) 1 None))"
    unfolding action_bar_offers by simp
  then have "\<not> False \<and> Approver = Approver"
    using actions_keep_duties_apart [of EApprove Submitted False Approver 1 None undefined "[]"] by blast
  with m show ?thesis by blast
qed

text \<open>
  The separate workflow component and the action bar agree: for every report that is not the user's
  own, the buttons of \<open>WorkflowActions\<close> and of \<open>ReportActionBar\<close> offer the same events.
\<close>

theorem workflow_components_agree:
  "set (clickable (workflowActions status r False pend)) =
   set (clickable (reportActionBar status False (role_name r) n pend))"
  unfolding action_bar_offers
  by (cases r; cases status) (auto simp: workflowActions_def own_events_def)

end
