(* ===== verification/Report_Detail.thy ===== *)
theory Report_Detail
  imports Report_Actions Item_Slide_Panel Error_Messages
begin

text \<open>
  The detail page of a report (frontend/src/pages/reports/ReportDetailPage.tsx): its dialogs, the
  mutations it starts and what their callbacks do, the state of the slide panel, and what it renders. The
  data of its queries is given with every render. A started mutation is in flight until it settles; the
  callbacks of the hook run before those given to \<open>mutate\<close>. The \<open>isPending\<close> of a mutation is that one
  of its kind is in flight.
\<close>

subsection \<open>State\<close>

datatype dialog_action = DSubmit | DDelete

datatype workflow_action = WApprove | WReject | WPay

fun workflow_pending :: "workflow_action \<Rightarrow> pending_action" where
  "workflow_pending WApprove = PendApprove"
| "workflow_pending WReject = PendReject"
| "workflow_pending WPay = PendPay"

datatype page_mutation =
    MSubmit versioned_input
  | MDelete string
  | MApprove approve_input
  | MReject reject_input
  | MPay versioned_input
  | MCreateItem create_item_input
  | MUpdateItem update_item_input
  | MDeleteItem "string \<times> string"

datatype page_out =
    PMutate page_mutation
  | PInvalidate query_key
  | PNavigate string "(toast_severity \<times> string) option"

record page_data =
  pd_report :: report_detail
  pd_user :: "auth_user option"
  pd_categories :: "category list"

type_synonym page_toast = "bool \<times> toast_severity \<times> string"

record page =
  dialogAction :: "dialog_action option"
  page_toast :: page_toast
  workflowPendingAction :: "workflow_action option"
  workflowDialogAction :: "workflow_action option"
  rejectDialogApiError :: "string option"
  conflictDetected :: bool
  deletingItemId :: "string option"
  panelState :: "panel_mode option"
  lastMode :: panel_mode
  selectedItem :: "expense_item option"
  page_itemApiError :: "string option"
  formKey :: nat
  muts :: "(nat \<times> page_mutation) list"
  next_mut :: nat
  page_outs :: "page_out list"

definition mounted_page :: page where
  "mounted_page =
     \<lparr>dialogAction = None, page_toast = (False, TError, []), workflowPendingAction = None,
      workflowDialogAction = None, rejectDialogApiError = None, conflictDetected = False,
      deletingItemId = None, panelState = None, lastMode = AddMode, selectedItem = None,
      page_itemApiError = None, formKey = 0, muts = [], next_mut = 0, page_outs = []\<rparr>"

definition pout :: "page_out \<Rightarrow> page \<Rightarrow> page" where
  "pout x s = s\<lparr>page_outs := page_outs s @ [x]\<rparr>"

definition start :: "page_mutation \<Rightarrow> page \<Rightarrow> page" where
  \<comment> \<open>\<open>mutate\<close>\<close>
  "start m s = pout (PMutate m) (s\<lparr>muts := muts s @ [(next_mut s, m)], next_mut := Suc (next_mut s)\<rparr>)"

definition show_toast :: "toast_severity \<Rightarrow> string \<Rightarrow> page \<Rightarrow> page" where
  "show_toast sev msg s = s\<lparr>page_toast := (True, sev, msg)\<rparr>"

definition is_owner :: "page_data \<Rightarrow> bool" where
  \<comment> \<open>\<open>user?.id === report.submitter?.id\<close>; the submitter is always there\<close>
  "is_owner pd \<longleftrightarrow>
     (case pd_user pd of None \<Rightarrow> False | Some u \<Rightarrow> au_id u = us_id (rd_submitter (pd_report pd)))"

definition location_toast :: "(toast_severity \<times> string) option \<Rightarrow> page \<Rightarrow> page" where
  \<comment> \<open>the effect on \<open>location.state\<close>\<close>
  "location_toast t s = (case t of Some (sev, msg) \<Rightarrow> show_toast sev msg s | None \<Rightarrow> s)"

subsection \<open>Errors\<close>

abbreviation or_else :: "string \<Rightarrow> string \<Rightarrow> string" where
  \<comment> \<open>\<open>a || b\<close>\<close>
  "or_else a b \<equiv> (if a = [] then b else a)"

definition handleActionError :: "js_error \<Rightarrow> string \<Rightarrow> page \<Rightarrow> page" where
  "handleActionError err fallbackMsg s =
     (case err of
        ApiClientError m status _ _ \<Rightarrow>
          if status = 409
          then show_toast TWarning (or_else m msg_conflict) (s\<lparr>conflictDetected := True\<rparr>)
          else show_toast TError (or_else m fallbackMsg) s
      | _ \<Rightarrow> show_toast TError (message_or err (or_else fallbackMsg msg_internal_error)) s)"

subsection \<open>Handlers that start a mutation\<close>

definition version_of :: "page_data \<Rightarrow> versioned_input" where
  "version_of pd = \<lparr>vi_id = rd_id (pd_report pd), vi_updated_at = rd_updated_at (pd_report pd)\<rparr>"

definition handleSubmitConfirm :: "page_data \<Rightarrow> page \<Rightarrow> page" where
  "handleSubmitConfirm pd s = start (MSubmit (version_of pd)) s"

definition handleDeleteConfirm :: "page_data \<Rightarrow> page \<Rightarrow> page" where
  "handleDeleteConfirm pd s = start (MDelete (rd_id (pd_report pd))) s"

definition handleDialogConfirm :: "page_data \<Rightarrow> page \<Rightarrow> page" where
  "handleDialogConfirm pd s =
     (case dialogAction s of
        Some DSubmit \<Rightarrow> handleSubmitConfirm pd s
      | Some DDelete \<Rightarrow> handleDeleteConfirm pd s
      | None \<Rightarrow> s)"

definition handleWorkflowDialogConfirm :: "page_data \<Rightarrow> string option \<Rightarrow> page \<Rightarrow> page" where
  "handleWorkflowDialogConfirm pd typed s =
     (let r = pd_report pd in
      case workflowDialogAction s of
        Some WApprove \<Rightarrow>
          start (MApprove \<lparr>vi_id = rd_id r, vi_updated_at = rd_updated_at r, ai_comment = typed\<rparr>)
            (s\<lparr>workflowDialogAction := None, workflowPendingAction := Some WApprove\<rparr>)
      | Some WReject \<Rightarrow>
          start (MReject \<lparr>vi_id = rd_id r, vi_updated_at = rd_updated_at r,
                   ri_reason = (case typed of Some x \<Rightarrow> x | None \<Rightarrow> [])\<rparr>)
            (s\<lparr>workflowPendingAction := Some WReject\<rparr>)
      | Some WPay \<Rightarrow>
          start (MPay (version_of pd)) (s\<lparr>workflowDialogAction := None, workflowPendingAction := Some WPay\<rparr>)
      | None \<Rightarrow> s)"

definition handleWorkflowDialogCancel :: "page \<Rightarrow> page" where
  "handleWorkflowDialogCancel s = s\<lparr>rejectDialogApiError := None, workflowDialogAction := None\<rparr>"

definition handleDeleteItemConfirm :: "page_data \<Rightarrow> page \<Rightarrow> page" where
  "handleDeleteItemConfirm pd s =
     (case deletingItemId s of
        None \<Rightarrow> s
      | Some i \<Rightarrow> start (MDeleteItem (rd_id (pd_report pd), i)) (s\<lparr>deletingItemId := None\<rparr>))"

definition handleItemSubmit :: "page_data \<Rightarrow> item_values \<Rightarrow> page \<Rightarrow> page" where
  "handleItemSubmit pd data s =
     (let s1 = s\<lparr>page_itemApiError := None\<rparr> in
      if panelState s = Some AddMode
      then start (MCreateItem
             \<lparr>if_expense_date = iv_expenseDate data, if_amount = amount_yen (iv_amount data),
              if_category_id = iv_categoryId data, if_description = iv_description data,
              ci_reportId = rd_id (pd_report pd)\<rparr>) s1
      else if panelState s = Some EditMode
      then (case selectedItem s of
              Some item \<Rightarrow> start (MUpdateItem
                \<lparr>if_expense_date = iv_expenseDate data, if_amount = amount_yen (iv_amount data),
                 if_category_id = iv_categoryId data, if_description = iv_description data,
                 ui_updated_at = it_updated_at item, ui_reportId = rd_id (pd_report pd),
                 ui_itemId = it_id item\<rparr>) s1
            | None \<Rightarrow> s1)
      else s1)"

subsection \<open>Handlers of the panel\<close>

definition handleAddItem :: "page \<Rightarrow> page" where
  "handleAddItem s =
     s\<lparr>selectedItem := None, page_itemApiError := None, lastMode := AddMode, panelState := Some AddMode\<rparr>"

definition open_item :: "panel_mode \<Rightarrow> page_data \<Rightarrow> string \<Rightarrow> page \<Rightarrow> page" where
  \<comment> \<open>the common body of \<open>handleItemClick\<close> and \<open>handleEditItem\<close>: the panel is closed in a render of its own,
    then opened\<close>
  "open_item mode pd itemId s =
     (let s1 = s\<lparr>selectedItem := find (\<lambda>it. it_id it = itemId) (rd_items (pd_report pd)),
                 page_itemApiError := None, formKey := Suc (formKey s)\<rparr>;
          s2 = s1\<lparr>panelState := None\<rparr>
      in s2\<lparr>lastMode := mode, panelState := Some mode\<rparr>)"

definition handleItemClick :: "page_data \<Rightarrow> string \<Rightarrow> page \<Rightarrow> page" where
  "handleItemClick = open_item ViewMode"

definition handleEditItem :: "page_data \<Rightarrow> string \<Rightarrow> page \<Rightarrow> page" where
  "handleEditItem = open_item EditMode"

definition panel_exited :: "page \<Rightarrow> page" where
  \<comment> \<open>\<open>onTransitionExited\<close>\<close>
  "panel_exited s = s\<lparr>selectedItem := None, page_itemApiError := None\<rparr>"

fun page_hears :: "page_data \<Rightarrow> panel_out \<Rightarrow> page \<Rightarrow> page" where
  \<comment> \<open>the callbacks given to the panel\<close>
  "page_hears pd OClose s = s\<lparr>panelState := None\<rparr>"
| "page_hears pd OSaveSuccess s = s\<lparr>panelState := None\<rparr>"
| "page_hears pd OSaveAndContinue s =
     s\<lparr>selectedItem := None, formKey := Suc (formKey s), lastMode := AddMode, panelState := Some AddMode\<rparr>"
| "page_hears pd (OItemSubmit data) s = handleItemSubmit pd data s"
| "page_hears pd _ s = s"

definition action_event :: "page_data \<Rightarrow> report_event \<Rightarrow> page \<Rightarrow> page" where
  \<comment> \<open>the callbacks given to the action bar and to the item list\<close>
  "action_event pd e s =
     (case e of
        EEdit \<Rightarrow> pout (PNavigate (''/reports/'' @ rd_id (pd_report pd) @ ''/edit'') None) s
      | ESubmitReport \<Rightarrow> s\<lparr>dialogAction := Some DSubmit\<rparr>
      | EDelete \<Rightarrow> s\<lparr>dialogAction := Some DDelete\<rparr>
      | EResubmit \<Rightarrow> pout (PNavigate (''/reports/new?ref='' @ rd_id (pd_report pd)) None) s
      | EApprove \<Rightarrow> s\<lparr>workflowDialogAction := Some WApprove\<rparr>
      | EReject \<Rightarrow> s\<lparr>rejectDialogApiError := None, workflowDialogAction := Some WReject\<rparr>
      | EPay \<Rightarrow> s\<lparr>workflowDialogAction := Some WPay\<rparr>
      | EAddItem \<Rightarrow> handleAddItem s
      | EItemClick i \<Rightarrow> handleItemClick pd i s
      | EEditItem i \<Rightarrow> handleEditItem pd i s
      | EDeleteItem i \<Rightarrow> s\<lparr>deletingItemId := Some i\<rparr>)"

subsection \<open>Mutations settle\<close>

fun hook_invalidates :: "page_mutation \<Rightarrow> query_key list" where
  "hook_invalidates (MSubmit i) = mu_invalidates useSubmitReport i"
| "hook_invalidates (MDelete i) = mu_invalidates useDeleteReport i"
| "hook_invalidates (MApprove i) = mu_invalidates useApproveReport i"
| "hook_invalidates (MReject i) = mu_invalidates useRejectReport i"
| "hook_invalidates (MPay i) = mu_invalidates useMarkAsPaid i"
| "hook_invalidates (MCreateItem i) = mu_invalidates useCreateItem i"
| "hook_invalidates (MUpdateItem i) = mu_invalidates useUpdateItem i"
| "hook_invalidates (MDeleteItem i) = mu_invalidates useDeleteItem i"

fun mutation_succeeded :: "page_mutation \<Rightarrow> page \<Rightarrow> page" where
  "mutation_succeeded (MSubmit i) s =
     show_toast TSuccess ''The report was submitted''
       ((pout (PInvalidate (detail_key (vi_id i))) s)\<lparr>dialogAction := None\<rparr>)"
| "mutation_succeeded (MDelete i) s =
     pout (PNavigate ''/reports'' (Some (TSuccess, ''The report was deleted''))) s"
| "mutation_succeeded (MApprove i) s =
     show_toast TSuccess ''The report was approved'' (s\<lparr>workflowPendingAction := None\<rparr>)"
| "mutation_succeeded (MReject i) s =
     show_toast TSuccess ''The report was rejected''
       (s\<lparr>workflowPendingAction := None, workflowDialogAction := None, rejectDialogApiError := None\<rparr>)"
| "mutation_succeeded (MPay i) s =
     show_toast TSuccess ''The payment was recorded'' (s\<lparr>workflowPendingAction := None\<rparr>)"
| "mutation_succeeded (MCreateItem i) s = show_toast TSuccess ''The item was added'' (s\<lparr>panelState := None\<rparr>)"
| "mutation_succeeded (MUpdateItem i) s = show_toast TSuccess ''The item was updated'' (s\<lparr>panelState := None\<rparr>)"
| "mutation_succeeded (MDeleteItem i) s = show_toast TSuccess ''The item was deleted'' s"

fun mutation_failed :: "js_error \<Rightarrow> page_mutation \<Rightarrow> page \<Rightarrow> page" where
  "mutation_failed err (MSubmit i) s = handleActionError err ''The report could not be submitted'' (s\<lparr>dialogAction := None\<rparr>)"
| "mutation_failed err (MDelete i) s = handleActionError err ''The report could not be deleted'' (s\<lparr>dialogAction := None\<rparr>)"
| "mutation_failed err (MApprove i) s =
     show_toast TError (message_or err ''The report could not be approved'') (s\<lparr>workflowPendingAction := None\<rparr>)"
| "mutation_failed err (MReject i) s =
     s\<lparr>workflowPendingAction := None,
       rejectDialogApiError := Some (message_or err ''The report could not be rejected'')\<rparr>"
| "mutation_failed err (MPay i) s =
     show_toast TError (message_or err ''The payment could not be recorded'') (s\<lparr>workflowPendingAction := None\<rparr>)"
| "mutation_failed err (MCreateItem i) s =
     s\<lparr>page_itemApiError := Some (message_or err ''The item could not be added'')\<rparr>"
| "mutation_failed err (MUpdateItem i) s =
     s\<lparr>page_itemApiError := Some (message_or err ''The item could not be updated'')\<rparr>"
| "mutation_failed err (MDeleteItem i) s = show_toast TError (message_or err ''The item could not be deleted'') s"

definition page_settles :: "nat \<Rightarrow> js_error + jsval \<Rightarrow> page \<Rightarrow> page" where
  "page_settles k res s =
     (case map_of (muts s) k of
        None \<Rightarrow> s
      | Some m \<Rightarrow>
          let s1 = s\<lparr>muts := filter (\<lambda>x. fst x \<noteq> k) (muts s)\<rparr>
          in (case res of
                Inl err \<Rightarrow> mutation_failed err m s1
              | Inr _ \<Rightarrow> mutation_succeeded m
                  (foldl (\<lambda>t q. pout (PInvalidate q) t) s1 (hook_invalidates m))))"

subsection \<open>Rendering\<close>

fun is_submit where "is_submit (MSubmit _) = True" | "is_submit _ = False"
fun is_delete where "is_delete (MDelete _) = True" | "is_delete _ = False"
fun is_delete_item where "is_delete_item (MDeleteItem _) = True" | "is_delete_item _ = False"
fun is_item_save where
  "is_item_save (MCreateItem _) = True" | "is_item_save (MUpdateItem _) = True" | "is_item_save _ = False"

fun decision :: "page_mutation \<Rightarrow> workflow_action option" where
  "decision (MApprove _) = Some WApprove"
| "decision (MReject _) = Some WReject"
| "decision (MPay _) = Some WPay"
| "decision _ = None"

definition is_pending :: "(page_mutation \<Rightarrow> bool) \<Rightarrow> page \<Rightarrow> bool" where
  "is_pending P s \<longleftrightarrow> list_ex (\<lambda>x. P (snd x)) (muts s)"

definition action_dialog :: "page \<Rightarrow> dialog_props" where
  "action_dialog s =
     (let submitting = dialogAction s = Some DSubmit in
      \<lparr>dl_open = (dialogAction s \<noteq> None),
       dl_title = (if submitting then ''Submit the report?'' else ''Delete the report?''),
       dl_message = (if submitting then ''The report cannot be edited after it was submitted.''
                     else ''This cannot be undone.''),
       dl_confirmLabel = ''Yes'',
       dl_confirmColor = (if dialogAction s = Some DDelete then ''error'' else ''primary''),
       dl_cancelLabel = ''Cancel'', dl_inputField = None,
       dl_loading = (if submitting then is_pending is_submit s else is_pending is_delete s),
       dl_apiError = None\<rparr>)"

definition workflow_dialog :: "page \<Rightarrow> dialog_props" where
  "workflow_dialog s =
     (let w = workflowDialogAction s in
      \<lparr>dl_open = (w \<noteq> None),
       dl_title = (case w of Some WApprove \<Rightarrow> ''Approve this report?'' | Some WReject \<Rightarrow> ''Reject this report?''
                   | Some WPay \<Rightarrow> ''Record the payment of this report?'' | None \<Rightarrow> []),
       dl_message = [],
       dl_confirmLabel = (case w of Some WApprove \<Rightarrow> ''Approve'' | Some WReject \<Rightarrow> ''Reject'' | _ \<Rightarrow> ''Mark as paid''),
       dl_confirmColor = (if w = Some WReject then ''error'' else ''primary''),
       dl_cancelLabel = ''Cancel'',
       dl_inputField =
         (case w of
            Some WApprove \<Rightarrow> Some \<lparr>fi_label = ''Comment'', fi_placeholder = None, fi_required = False,
              fi_maxLength = 1000, fi_multiline = True, fi_errorMessage = None\<rparr>
          | Some WReject \<Rightarrow> Some \<lparr>fi_label = ''Reason'', fi_placeholder = None, fi_required = True,
              fi_maxLength = 1000, fi_multiline = True, fi_errorMessage = Some ''Enter the reason of the rejection''\<rparr>
          | _ \<Rightarrow> None),
       dl_loading =
         (case w of Some WApprove \<Rightarrow> is_pending (\<lambda>m. decision m = Some WApprove) s
          | Some WReject \<Rightarrow> is_pending (\<lambda>m. decision m = Some WReject) s
          | _ \<Rightarrow> is_pending (\<lambda>m. decision m = Some WPay) s),
       dl_apiError = (if w = Some WReject then rejectDialogApiError s else None)\<rparr>)"

definition delete_item_dialog :: "page \<Rightarrow> dialog_props" where
  "delete_item_dialog s =
     \<lparr>dl_open = (deletingItemId s \<noteq> None), dl_title = ''Delete this item?'', dl_message = ''This cannot be undone.'',
      dl_confirmLabel = ''Delete'', dl_confirmColor = ''error'', dl_cancelLabel = ''Cancel'',
      dl_inputField = None, dl_loading = is_pending is_delete_item s, dl_apiError = None\<rparr>"

definition page_panel_props :: "page_data \<Rightarrow> page \<Rightarrow> panel_props" where
  "page_panel_props pd s =
     (let r = pd_report pd in
      \<lparr>pp_open = (panelState s \<noteq> None),
       pp_mode = (case panelState s of None \<Rightarrow> lastMode s | Some m \<Rightarrow> m),
       pp_reportId = rd_id r, pp_item = selectedItem s, pp_reportStatus = rd_status r,
       pp_isOwner = is_owner pd,
       pp_categories = map (\<lambda>c. (cat_id c, cat_name_ja c)) (pd_categories pd),
       pp_apiError = page_itemApiError s, pp_isPending = is_pending is_item_save s,
       pp_reportPeriodStart = Some (rd_period_start r), pp_reportPeriodEnd = Some (rd_period_end r),
       pp_isUploading = False, pp_isDeleting = False, pp_isSequentialUploading = False,
       pp_sequentialUploadProgress = None, pp_submits = True\<rparr>)"

datatype page_event =
    EReport report_event
  | EActionDialog dialog_event
  | EWorkflowDialog dialog_event
  | EDeleteItemDialog dialog_event
  | EPanel panel_event
  | EReload
  | EPageToastClose

definition page_action_bar :: "page_data \<Rightarrow> page \<Rightarrow> report_event jsx" where
  "page_action_bar pd s =
     reportActionBar (rd_status (pd_report pd)) (is_owner pd)
       (case pd_user pd of Some u \<Rightarrow> role_name (au_role u) | None \<Rightarrow> [])
       (length (rd_items (pd_report pd))) (map_option workflow_pending (workflowPendingAction s))"

definition page_item_list :: "locale_format \<Rightarrow> page_data \<Rightarrow> report_event jsx" where
  "page_item_list lc pd = itemListSection lc (rd_items (pd_report pd)) (is_owner pd) (rd_status (pd_report pd))"

definition render_page ::
  "locale_format \<Rightarrow> page_data \<Rightarrow> page \<Rightarrow> panel_event jsx \<Rightarrow> dialog \<Rightarrow> dialog \<Rightarrow> dialog \<Rightarrow> page_event jsx" where
  "render_page lc pd s panel d1 d2 d3 =
     El ''Box'' []
       [when_jsx (conflictDetected s)
          (El ''Box'' []
            [El ''Typography'' [] [Txt ''This report was updated by another user.''],
             El ''Button'' [(''onClick'', AEv EReload)] [Txt ''Reload'']]),
        map_events EReport (reportInfoCard lc (pd_report pd)),
        map_events EReport (page_action_bar pd s),
        map_events EReport (page_item_list lc pd),
        map_events EPanel panel,
        map_events EActionDialog (render_dialog (action_dialog s) d1),
        map_events EWorkflowDialog (render_dialog (workflow_dialog s) d2),
        map_events EDeleteItemDialog (render_dialog (delete_item_dialog s) d3),
        appToast (fst (page_toast s)) (fst (snd (page_toast s))) (snd (snd (page_toast s))) EPageToastClose None]"

definition render_page_error :: "js_error \<Rightarrow> 'e \<Rightarrow> 'e jsx" where
  \<comment> \<open>what is shown when the report could not be fetched\<close>
  "render_page_error err noop =
     (let msg = message_or err msg_internal_error;
          back = El ''Link'' [(''to'', AStr ''/reports'')] [Txt ''Reports''];
          failed = El ''Box'' [] [appToast True TError msg noop None, El ''Typography'' [] [Txt msg], back]
      in case err of
           ApiClientError _ status _ _ \<Rightarrow>
             if status = 404
             then El ''Box'' [] [El ''Typography'' [] [Txt (the (server_message ''RESOURCE_NOT_FOUND''))], back]
             else failed
         | _ \<Rightarrow> failed)"

definition page_view :: "bool \<Rightarrow> js_error option \<Rightarrow> 'r option \<Rightarrow> ('r \<Rightarrow> 'e jsx) \<Rightarrow> 'e \<Rightarrow> 'e jsx" where
  \<comment> \<open>what the query of the report decides: the skeleton, the error, nothing, or the page\<close>
  "page_view isLoading error report page noop =
     (if isLoading then pageSkeleton SkCard None
      else case error of
          Some err \<Rightarrow> render_page_error err noop
        | None \<Rightarrow> (case report of None \<Rightarrow> NullJsx | Some r \<Rightarrow> page r))"

subsection \<open>Steps\<close>

text \<open>
  The events of a page whose data stays the same: buttons that are offered, clicks on the dialogs that
  are open, what the panel says (it submits an item only from a form with buttons), and mutations that settle.
\<close>

inductive page_reach :: "locale_format \<Rightarrow> page_data \<Rightarrow> page \<Rightarrow> bool" for lc :: locale_format and pd :: page_data where
  page_mounted: "page_reach lc pd mounted_page"
| page_action: "page_reach lc pd s \<Longrightarrow>
     e \<in> set (clickable (page_action_bar pd s)) \<union> set (clickable (page_item_list lc pd)) \<Longrightarrow>
     page_reach lc pd (action_event pd e s)"
| action_confirmed: "page_reach lc pd s \<Longrightarrow> dl_open (action_dialog s) \<Longrightarrow>
     OnConfirm x \<in> set (fst (click_dialog EConfirm (action_dialog s) d)) \<Longrightarrow> page_reach lc pd (handleDialogConfirm pd s)"
| action_cancelled: "page_reach lc pd s \<Longrightarrow> OnCancel \<in> set (fst (click_dialog EClose (action_dialog s) d)) \<Longrightarrow>
     page_reach lc pd (s\<lparr>dialogAction := None\<rparr>)"
| decision_confirmed: "page_reach lc pd s \<Longrightarrow> dl_open (workflow_dialog s) \<Longrightarrow>
     OnConfirm x \<in> set (fst (click_dialog EConfirm (workflow_dialog s) d)) \<Longrightarrow>
     page_reach lc pd (handleWorkflowDialogConfirm pd x s)"
| decision_cancelled: "page_reach lc pd s \<Longrightarrow> OnCancel \<in> set (fst (click_dialog EClose (workflow_dialog s) d)) \<Longrightarrow>
     page_reach lc pd (handleWorkflowDialogCancel s)"
| deletion_confirmed: "page_reach lc pd s \<Longrightarrow> page_reach lc pd (handleDeleteItemConfirm pd s)"
| deletion_cancelled: "page_reach lc pd s \<Longrightarrow> page_reach lc pd (s\<lparr>deletingItemId := None\<rparr>)"
| panel_says: "page_reach lc pd s \<Longrightarrow>
     (\<And>data. x = OItemSubmit data \<Longrightarrow>
        formMode (page_panel_props pd s) \<noteq> ViewMode \<and> \<not> pp_isPending (page_panel_props pd s)) \<Longrightarrow>
     page_reach lc pd (page_hears pd x s)"
| panel_gone: "page_reach lc pd s \<Longrightarrow> page_reach lc pd (panel_exited s)"
| mutation_settles: "page_reach lc pd s \<Longrightarrow> page_reach lc pd (page_settles k res s)"
| told: "page_reach lc pd s \<Longrightarrow> page_reach lc pd (location_toast t s)"

subsection \<open>Permissions\<close>

definition may_edit :: "page_data \<Rightarrow> bool" where
  "may_edit pd \<longleftrightarrow> is_owner pd \<and> rd_status (pd_report pd) = Draft"

definition may_decide :: "role \<Rightarrow> report_status \<Rightarrow> page_data \<Rightarrow> bool" where
  "may_decide r st pd \<longleftrightarrow> \<not> is_owner pd \<and> (\<exists>u. pd_user pd = Some u \<and> au_role u = r) \<and> rd_status (pd_report pd) = st"

fun may_workflow :: "page_data \<Rightarrow> workflow_action \<Rightarrow> bool" where
  "may_workflow pd WPay \<longleftrightarrow> may_decide Accounting Approved pd"
| "may_workflow pd _ \<longleftrightarrow> may_decide Approver Submitted pd"

definition item_ids :: "page_data \<Rightarrow> string set" where
  "item_ids pd = it_id ` set (rd_items (pd_report pd))"

fun permitted :: "page_data \<Rightarrow> page_mutation \<Rightarrow> bool" where
  "permitted pd (MSubmit i) \<longleftrightarrow> may_edit pd \<and> rd_items (pd_report pd) \<noteq> [] \<and> i = version_of pd"
| "permitted pd (MDelete i) \<longleftrightarrow> may_edit pd \<and> i = rd_id (pd_report pd)"
| "permitted pd (MApprove i) \<longleftrightarrow> may_decide Approver Submitted pd \<and> versioned_input.truncate i = version_of pd"
| "permitted pd (MReject i) \<longleftrightarrow> may_decide Approver Submitted pd \<and> versioned_input.truncate i = version_of pd \<and>
     js_trim (ri_reason i) \<noteq> []"
| "permitted pd (MPay i) \<longleftrightarrow> may_decide Accounting Approved pd \<and> i = version_of pd"
| "permitted pd (MCreateItem i) \<longleftrightarrow> may_edit pd \<and> ci_reportId i = rd_id (pd_report pd)"
| "permitted pd (MUpdateItem i) \<longleftrightarrow> may_edit pd \<and> ui_reportId i = rd_id (pd_report pd) \<and>
     (\<exists>it \<in> set (rd_items (pd_report pd)). ui_itemId i = it_id it \<and> ui_updated_at i = it_updated_at it)"
| "permitted pd (MDeleteItem x) \<longleftrightarrow> may_edit pd \<and> fst x = rd_id (pd_report pd) \<and> snd x \<in> item_ids pd"

definition requested :: "page \<Rightarrow> page_mutation set" where
  "requested s = {m. PMutate m \<in> set (page_outs s)}"

definition dialogs_inv :: "page_data \<Rightarrow> page \<Rightarrow> bool" where
  "dialogs_inv pd s \<longleftrightarrow>
     (dialogAction s \<noteq> None \<longrightarrow> may_edit pd) \<and> (dialogAction s = Some DSubmit \<longrightarrow> rd_items (pd_report pd) \<noteq> []) \<and>
     (\<forall>w. workflowDialogAction s = Some w \<longrightarrow> may_workflow pd w) \<and>
     (\<forall>i. deletingItemId s = Some i \<longrightarrow> may_edit pd \<and> i \<in> item_ids pd) \<and>
     (\<forall>it. selectedItem s = Some it \<longrightarrow> it \<in> set (rd_items (pd_report pd)))"

definition page_inv :: "page_data \<Rightarrow> page \<Rightarrow> bool" where
  "page_inv pd s \<longleftrightarrow> dialogs_inv pd s \<and> (\<forall>m \<in> requested s. permitted pd m)"

definition settled_from :: "page \<Rightarrow> page \<Rightarrow> bool" where
  \<comment> \<open>dialogs and the selection are kept or closed, and nothing is requested\<close>
  "settled_from s t \<longleftrightarrow>
     dialogAction t \<in> {dialogAction s, None} \<and> workflowDialogAction t \<in> {workflowDialogAction s, None} \<and>
     deletingItemId t \<in> {deletingItemId s, None} \<and> selectedItem t \<in> {selectedItem s, None} \<and>
     requested t = requested s"

lemma page_inv_settled: "page_inv pd s \<Longrightarrow> settled_from s t \<Longrightarrow> page_inv pd t"
  unfolding page_inv_def dialogs_inv_def settled_from_def by auto

lemma settled_refl: "settled_from s s"
  by (simp add: settled_from_def)

lemma settled_trans: "settled_from s t \<Longrightarrow> settled_from t u \<Longrightarrow> settled_from s u"
  unfolding settled_from_def by auto

lemma pout_fields [simp]:
  "dialogAction (pout x s) = dialogAction s" "workflowDialogAction (pout x s) = workflowDialogAction s"
  "deletingItemId (pout x s) = deletingItemId s" "selectedItem (pout x s) = selectedItem s"
  "muts (pout x s) = muts s" "next_mut (pout x s) = next_mut s" "panelState (pout x s) = panelState s"
  "workflowPendingAction (pout x s) = workflowPendingAction s" "conflictDetected (pout x s) = conflictDetected s"
  "requested (pout x s) = requested s \<union> (case x of PMutate m \<Rightarrow> {m} | _ \<Rightarrow> {})"
  by (auto simp: pout_def requested_def split: page_out.split)

lemma toast_fields [simp]:
  "dialogAction (show_toast v m s) = dialogAction s" "workflowDialogAction (show_toast v m s) = workflowDialogAction s"
  "deletingItemId (show_toast v m s) = deletingItemId s" "selectedItem (show_toast v m s) = selectedItem s"
  "muts (show_toast v m s) = muts s" "next_mut (show_toast v m s) = next_mut s" "requested (show_toast v m s) = requested s"
  "workflowPendingAction (show_toast v m s) = workflowPendingAction s" "panelState (show_toast v m s) = panelState s"
  "conflictDetected (show_toast v m s) = conflictDetected s" "page_toast (show_toast v m s) = (True, v, m)"
  by (simp_all add: show_toast_def requested_def)

lemma start_fields [simp]:
  "dialogAction (start m s) = dialogAction s" "workflowDialogAction (start m s) = workflowDialogAction s"
  "deletingItemId (start m s) = deletingItemId s" "selectedItem (start m s) = selectedItem s"
  "muts (start m s) = muts s @ [(next_mut s, m)]" "next_mut (start m s) = Suc (next_mut s)"
  "workflowPendingAction (start m s) = workflowPendingAction s" "requested (start m s) = insert m (requested s)"
  by (auto simp: start_def requested_def pout_def)

lemma requested_updates [simp]:
  "requested (s\<lparr>dialogAction := a\<rparr>) = requested s" "requested (s\<lparr>workflowDialogAction := b\<rparr>) = requested s"
  "requested (s\<lparr>workflowPendingAction := c\<rparr>) = requested s" "requested (s\<lparr>deletingItemId := d\<rparr>) = requested s"
  "requested (s\<lparr>muts := x\<rparr>) = requested s" "requested (s\<lparr>page_itemApiError := y\<rparr>) = requested s"
  "requested (s\<lparr>panelState := z\<rparr>) = requested s" "requested (s\<lparr>rejectDialogApiError := e\<rparr>) = requested s"
  "requested (s\<lparr>conflictDetected := v\<rparr>) = requested s" "requested (s\<lparr>selectedItem := i\<rparr>) = requested s"
  "requested (s\<lparr>formKey := k\<rparr>) = requested s" "requested (s\<lparr>lastMode := l\<rparr>) = requested s"
  by (simp_all add: requested_def)

lemma invalidations_fields [simp]:
  "settled_from s (foldl (\<lambda>t q. pout (PInvalidate q) t) s qs)"
  "muts (foldl (\<lambda>t q. pout (PInvalidate q) t) s qs) = muts s"
  "next_mut (foldl (\<lambda>t q. pout (PInvalidate q) t) s qs) = next_mut s"
  "workflowPendingAction (foldl (\<lambda>t q. pout (PInvalidate q) t) s qs) = workflowPendingAction s"
  "workflowDialogAction (foldl (\<lambda>t q. pout (PInvalidate q) t) s qs) = workflowDialogAction s"
  "conflictDetected (foldl (\<lambda>t q. pout (PInvalidate q) t) s qs) = conflictDetected s"
proof -
  have "settled_from s (pout (PInvalidate q) s)" for q s by (simp add: settled_from_def)
  then show "settled_from s (foldl (\<lambda>t q. pout (PInvalidate q) t) s qs)"
    by (induction qs arbitrary: s) (auto simp: settled_refl intro: settled_trans)
qed (induction qs arbitrary: s; simp)+

lemma settled_action_error: "settled_from s (handleActionError err m s)"
  by (cases err) (simp_all add: handleActionError_def settled_from_def)

lemma settled_callbacks: "settled_from s (mutation_failed err m s)" "settled_from s (mutation_succeeded m s)"
proof -
  have "settled_from s (s\<lparr>dialogAction := None\<rparr>)" by (simp add: settled_from_def)
  then show "settled_from s (mutation_failed err m s)"
    by (cases m) (auto intro: settled_trans settled_action_error, simp_all add: settled_from_def)
  show "settled_from s (mutation_succeeded m s)"
    by (cases m) (simp_all add: settled_from_def)
qed

lemma settled_page_settles: "settled_from s (page_settles k res s)"
proof (cases "map_of (muts s) k")
  case (Some m)
  let ?s = "s\<lparr>muts := filter (\<lambda>x. fst x \<noteq> k) (muts s)\<rparr>"
  have "settled_from s ?s" by (simp add: settled_from_def)
  moreover have "settled_from ?s (page_settles k res s)"
    using Some settled_callbacks settled_trans [OF invalidations_fields(1) settled_callbacks(2)]
    by (simp add: page_settles_def Let_def split: sum.split)
  ultimately show ?thesis by (rule settled_trans)
qed (simp add: page_settles_def settled_refl)

lemma page_inv_action:
  assumes "page_inv pd s"
    "e \<in> set (clickable (page_action_bar pd s)) \<union> set (clickable (page_item_list lc pd))"
  shows "page_inv pd (action_event pd e s)"
proof -
  let ?r = "case pd_user pd of Some u \<Rightarrow> role_name (au_role u) | None \<Rightarrow> []"
  have r: "?r = ''approver'' \<longleftrightarrow> (\<exists>u. pd_user pd = Some u \<and> au_role u = Approver)"
    "?r = ''accounting'' \<longleftrightarrow> (\<exists>u. pd_user pd = Some u \<and> au_role u = Accounting)"
    by (auto simp: role_name_iff split: option.split)
  have d: "page_inv pd (s\<lparr>dialogAction := Some x\<rparr>)" if "may_edit pd" "x = DSubmit \<Longrightarrow> rd_items (pd_report pd) \<noteq> []" for x
    using assms(1) that by (auto simp: page_inv_def dialogs_inv_def)
  have w: "page_inv pd (s\<lparr>workflowDialogAction := Some x\<rparr>)"
    "page_inv pd (s\<lparr>rejectDialogApiError := None, workflowDialogAction := Some x\<rparr>)" if "may_workflow pd x" for x
    using assms(1) that by (auto simp: page_inv_def dialogs_inv_def)
  have i: "page_inv pd (s\<lparr>deletingItemId := Some i\<rparr>)" if "may_edit pd" "i \<in> item_ids pd" for i
    using assms(1) that by (auto simp: page_inv_def dialogs_inv_def)
  have o: "page_inv pd (open_item m pd i s)" for m i
    using assms(1) by (auto simp: page_inv_def dialogs_inv_def open_item_def Let_def find_Some_iff)
  have a: "page_inv pd (handleAddItem s)"
    using assms(1) by (auto simp: page_inv_def dialogs_inv_def handleAddItem_def)
  have n: "page_inv pd (pout (PNavigate p t) s)" for p t
    using assms(1) by (simp add: page_inv_def dialogs_inv_def)
  show ?thesis
    using assms(2) unfolding page_action_bar_def page_item_list_def action_bar_offers item_section_offers r
    by (cases e)
      (auto simp: action_event_def n a o handleItemClick_def handleEditItem_def may_edit_def may_decide_def
        item_ids_def intro!: d w i split: if_splits)
qed

lemma confirmed_input:
  assumes "OnConfirm x \<in> set (fst (click_dialog EConfirm p d))" "dl_open p"
  shows "\<not> dl_loading p" "dl_inputField p = Some f \<Longrightarrow> fi_required f \<Longrightarrow> \<exists>v. x = Some v \<and> js_trim v \<noteq> []"
  using assms
  by (auto simp: click_dialog_def clickable_dialog handleConfirm_calls display_open shows_of_def
      split: if_splits option.splits)

lemma page_inv_decision:
  assumes "page_inv pd s" "dl_open (workflow_dialog s)"
    "OnConfirm x \<in> set (fst (click_dialog EConfirm (workflow_dialog s) d))"
  shows "page_inv pd (handleWorkflowDialogConfirm pd x s)"
proof (cases "workflowDialogAction s")
  case (Some w)
  have may: "may_workflow pd w" using assms(1) Some by (auto simp: page_inv_def dialogs_inv_def)
  have reason: "\<exists>v. x = Some v \<and> js_trim v \<noteq> []" if "w = WReject"
    using confirmed_input(2) [OF assms(3,2)] Some that by (simp add: workflow_dialog_def Let_def)
  show ?thesis
    using assms(1) may reason Some
    by (cases w)
      (auto simp: handleWorkflowDialogConfirm_def Let_def page_inv_def dialogs_inv_def version_of_def
        versioned_input.truncate_def)
qed (use assms(1) in \<open>simp add: handleWorkflowDialogConfirm_def Let_def\<close>)

lemma page_inv_item_submit:
  assumes "page_inv pd s" "formMode (page_panel_props pd s) \<noteq> ViewMode"
  shows "page_inv pd (handleItemSubmit pd data s)"
proof -
  have e: "may_edit pd"
    using assms(2) by (auto simp: formMode_def canModify_def page_panel_props_def Let_def may_edit_def split: if_splits)
  have s: "it \<in> set (rd_items (pd_report pd))" if "selectedItem s = Some it" for it
    using assms(1) that by (simp add: page_inv_def dialogs_inv_def)
  show ?thesis
    using assms(1) e s by (auto simp: handleItemSubmit_def Let_def page_inv_def dialogs_inv_def split: option.split)
qed

lemma page_reach_inv: "page_reach lc pd s \<Longrightarrow> page_inv pd s"
proof (induction rule: page_reach.induct)
  case page_mounted
  then show ?case by (simp add: page_inv_def dialogs_inv_def mounted_page_def requested_def)
next
  case (page_action s e)
  then show ?case by (blast intro: page_inv_action)
next
  case (action_confirmed s x d)
  then show ?case
    by (auto simp: handleDialogConfirm_def handleSubmitConfirm_def handleDeleteConfirm_def page_inv_def
        dialogs_inv_def split: option.split dialog_action.split)
next
  case (decision_confirmed s x d)
  then show ?case by (blast intro: page_inv_decision)
next
  case (panel_says s x)
  then show ?case
  proof (cases x)
    case (OItemSubmit data)
    then show ?thesis using panel_says page_inv_item_submit by simp
  qed (auto elim!: page_inv_settled simp: settled_from_def)
next
  case (deletion_confirmed s)
  then show ?case
    by (auto simp: handleDeleteItemConfirm_def page_inv_def dialogs_inv_def split: option.split)
next
  case (mutation_settles s k res)
  then show ?case using page_inv_settled settled_page_settles by blast
next
  case (told s t)
  then show ?case
    by (auto elim!: page_inv_settled simp: settled_from_def location_toast_def split: option.split)
qed (auto elim!: page_inv_settled simp: settled_from_def handleWorkflowDialogCancel_def panel_exited_def)

subsection \<open>Decisions in flight\<close>

definition decisions :: "page \<Rightarrow> (nat \<times> page_mutation) list" where
  "decisions s = filter (\<lambda>x. decision (snd x) \<noteq> None) (muts s)"

definition decision_inv :: "page \<Rightarrow> bool" where
  "decision_inv s \<longleftrightarrow>
     (case decisions s of
        [] \<Rightarrow> workflowPendingAction s = None
      | [(k, m)] \<Rightarrow> workflowPendingAction s = decision m \<and>
          workflowDialogAction s = (if decision m = Some WReject then Some WReject else None)
      | _ \<Rightarrow> False)"

definition ids_inv :: "page \<Rightarrow> bool" where
  "ids_inv s \<longleftrightarrow> distinct (map fst (muts s)) \<and> (\<forall>x \<in> set (muts s). fst x < next_mut s)"

lemma decision_inv_cases:
  assumes "decision_inv s"
  obtains (free) "decisions s = []" "workflowPendingAction s = None"
  | (busy) k m w where "decisions s = [(k, m)]" "decision m = Some w" "workflowPendingAction s = Some w"
      "workflowDialogAction s = (if w = WReject then Some WReject else None)"
proof (cases "decisions s")
  case (Cons x xs)
  obtain k m where x: "x = (k, m)" by (cases x)
  have "xs = []" using assms Cons x by (cases xs) (auto simp: decision_inv_def)
  moreover have "x \<in> set (decisions s)" using Cons by simp
  then obtain w where "decision m = Some w" using x by (auto simp: decisions_def)
  ultimately show ?thesis using assms Cons x by (intro busy [of k m w]) (auto simp: decision_inv_def)
qed (use assms in \<open>auto simp: decision_inv_def intro: free\<close>)

lemma decision_inv_same:
  assumes "decision_inv s" "decisions t = decisions s" "workflowPendingAction t = workflowPendingAction s"
    "workflowDialogAction t = workflowDialogAction s"
  shows "decision_inv t"
  using assms(1) unfolding decision_inv_def assms(2-4) .

lemma decision_inv_free:
  "decisions t = [] \<Longrightarrow> workflowPendingAction t = None \<Longrightarrow> decision_inv t"
  by (simp add: decision_inv_def)

lemma decisions_fields [simp]:
  "decisions (pout x s) = decisions s" "decisions (show_toast v m s) = decisions s"
  "decisions (start n s) = decisions s @ (if decision n = None then [] else [(next_mut s, n)])"
  "decisions (s\<lparr>workflowDialogAction := b\<rparr>) = decisions s" "decisions (s\<lparr>workflowPendingAction := c\<rparr>) = decisions s"
  "decisions (s\<lparr>deletingItemId := d\<rparr>) = decisions s" "decisions (s\<lparr>page_itemApiError := y\<rparr>) = decisions s"
  "decisions (s\<lparr>panelState := z\<rparr>) = decisions s" "decisions (s\<lparr>rejectDialogApiError := e\<rparr>) = decisions s"
  "decisions (s\<lparr>selectedItem := i\<rparr>) = decisions s" "decisions (s\<lparr>formKey := k\<rparr>) = decisions s"
  "decisions (s\<lparr>lastMode := l\<rparr>) = decisions s" "decisions (s\<lparr>dialogAction := a\<rparr>) = decisions s"
  by (simp_all add: decisions_def)

lemma decisions_muts: "muts t = muts s \<Longrightarrow> decisions t = decisions s"
  by (simp add: decisions_def)

lemma loading_rejection:
  assumes "decisions s = [(k, m)]" "decision m = Some w" "workflowDialogAction s = Some w"
  shows "dl_loading (workflow_dialog s)"
proof -
  have "(k, m) \<in> set (decisions s)" using assms(1) by simp
  then have "(k, m) \<in> set (muts s)" by (simp add: decisions_def)
  then have "is_pending (\<lambda>m. decision m = Some w) s"
    using assms(2) by (force simp: is_pending_def list_ex_iff)
  then show ?thesis using assms(3) by (cases w) (simp_all add: workflow_dialog_def Let_def)
qed

lemma decision_inv_confirm:
  assumes "decision_inv s" "\<not> dl_loading (workflow_dialog s)"
  shows "decision_inv (handleWorkflowDialogConfirm pd x s)"
proof (cases "workflowDialogAction s")
  case (Some w)
  from assms(1) have "decisions s = []" "workflowPendingAction s = None"
    using loading_rejection assms(2) Some by (cases rule: decision_inv_cases; auto split: if_splits)+
  then show ?thesis
    using Some by (cases w) (auto simp: handleWorkflowDialogConfirm_def Let_def decision_inv_def)
qed (use assms in \<open>simp add: handleWorkflowDialogConfirm_def Let_def\<close>)

lemma callbacks_keep_muts [simp]:
  "muts (mutation_failed err m s) = muts s" "muts (mutation_succeeded m s) = muts s"
  "next_mut (mutation_failed err m s) = next_mut s" "next_mut (mutation_succeeded m s) = next_mut s"
proof -
  have a: "muts (handleActionError err t u) = muts u" "next_mut (handleActionError err t u) = next_mut u" for t u
    by (cases err; simp add: handleActionError_def)+
  show "muts (mutation_failed err m s) = muts s" "next_mut (mutation_failed err m s) = next_mut s"
    by (cases m; simp add: a)+
  show "muts (mutation_succeeded m s) = muts s" "next_mut (mutation_succeeded m s) = next_mut s"
    by (cases m; simp)+
qed

lemma callbacks_decide:
  "decision m = None \<Longrightarrow> workflowPendingAction (mutation_failed err m s) = workflowPendingAction s \<and>
     workflowDialogAction (mutation_failed err m s) = workflowDialogAction s"
  "decision m = None \<Longrightarrow> workflowPendingAction (mutation_succeeded m s) = workflowPendingAction s \<and>
     workflowDialogAction (mutation_succeeded m s) = workflowDialogAction s"
  "decision m \<noteq> None \<Longrightarrow> workflowPendingAction (mutation_failed err m s) = None"
  "decision m \<noteq> None \<Longrightarrow> workflowPendingAction (mutation_succeeded m s) = None"
proof -
  have a: "workflowPendingAction (handleActionError err t u) = workflowPendingAction u"
    "workflowDialogAction (handleActionError err t u) = workflowDialogAction u" for t u
    by (cases err; simp add: handleActionError_def)+
  show "decision m = None \<Longrightarrow> workflowPendingAction (mutation_failed err m s) = workflowPendingAction s \<and>
     workflowDialogAction (mutation_failed err m s) = workflowDialogAction s"
    by (cases m) (simp_all add: a)
  show "decision m = None \<Longrightarrow> workflowPendingAction (mutation_succeeded m s) = workflowPendingAction s \<and>
     workflowDialogAction (mutation_succeeded m s) = workflowDialogAction s"
    by (cases m) simp_all
  show "decision m \<noteq> None \<Longrightarrow> workflowPendingAction (mutation_failed err m s) = None"
    "decision m \<noteq> None \<Longrightarrow> workflowPendingAction (mutation_succeeded m s) = None"
    by (cases m; simp)+
qed

lemma page_settles_eq:
  assumes "map_of (muts s) k = Some m"
  obtains u where "page_settles k res s = (case res of Inl err \<Rightarrow> mutation_failed err m u | Inr _ \<Rightarrow> mutation_succeeded m u)"
    "muts u = filter (\<lambda>x. fst x \<noteq> k) (muts s)" "next_mut u = next_mut s"
    "workflowPendingAction u = workflowPendingAction s" "workflowDialogAction u = workflowDialogAction s"
    "conflictDetected u = conflictDetected s"
  using assms by (cases res) (auto simp: page_settles_def Let_def)

lemma decision_inv_settles:
  assumes "decision_inv s" "ids_inv s"
  shows "decision_inv (page_settles k res s)"
proof (cases "map_of (muts s) k")
  case (Some m)
  obtain u where u: "page_settles k res s = (case res of Inl err \<Rightarrow> mutation_failed err m u | Inr _ \<Rightarrow> mutation_succeeded m u)"
    "muts u = filter (\<lambda>x. fst x \<noteq> k) (muts s)" "workflowPendingAction u = workflowPendingAction s"
    "workflowDialogAction u = workflowDialogAction s"
    using page_settles_eq [OF Some] by metis
  have d: "decisions (page_settles k res s) = filter (\<lambda>x. fst x \<noteq> k) (decisions s)"
    by (auto simp: u decisions_def intro: filter_cong split: sum.split)
  have in_muts: "(k, m) \<in> set (muts s)" using Some by (rule map_of_SomeD)
  show ?thesis
  proof (cases "decision m = None")
    case True
    have "fst x \<noteq> k" if "x \<in> set (decisions s)" for x
    proof
      assume "fst x = k"
      then have "x = (k, m)" using that in_muts assms(2) by (cases x) (auto simp: ids_inv_def decisions_def dest: eq_key_imp_eq_value)
      then show False using that True by (simp add: decisions_def)
    qed
    then have "decisions (page_settles k res s) = decisions s" using d by (simp add: filter_id_conv)
    with assms(1) show ?thesis
      by (rule decision_inv_same) (use u callbacks_decide(1,2) [OF True] in \<open>auto split: sum.split\<close>)
  next
    case False
    have "(k, m) \<in> set (decisions s)" using False in_muts by (simp add: decisions_def)
    with assms(1) have "decisions s = [(k, m)]" by (cases rule: decision_inv_cases) auto
    then show ?thesis
      using d u callbacks_decide(3,4) [OF False] by (intro decision_inv_free) (auto split: sum.split)
  qed
qed (use assms in \<open>simp add: page_settles_def\<close>)

lemma ids_inv_start: "ids_inv s \<Longrightarrow> ids_inv (start m s)"
  by (auto simp: ids_inv_def less_Suc_eq)

lemma ids_inv_same: "ids_inv s \<Longrightarrow> muts t = muts s \<Longrightarrow> next_mut t = next_mut s \<Longrightarrow> ids_inv t"
  by (simp add: ids_inv_def)

lemma ids_inv_settles: "ids_inv s \<Longrightarrow> ids_inv (page_settles k res s)"
proof (cases "map_of (muts s) k")
  case (Some m)
  assume inv: "ids_inv s"
  have "muts (page_settles k res s) = filter (\<lambda>x. fst x \<noteq> k) (muts s)" "next_mut (page_settles k res s) = next_mut s"
    by (rule page_settles_eq [OF Some, where res = res]; cases res; simp)+
  then show ?thesis using inv by (auto simp: ids_inv_def distinct_map_filter)
qed (simp add: page_settles_def)

lemma action_event_wf:
  "muts (action_event pd e s) = muts s" "next_mut (action_event pd e s) = next_mut s"
  "workflowPendingAction (action_event pd e s) = workflowPendingAction s"
  "e \<notin> {EApprove, EReject, EPay} \<Longrightarrow> workflowDialogAction (action_event pd e s) = workflowDialogAction s"
  by (cases e; simp add: action_event_def handleAddItem_def handleItemClick_def handleEditItem_def open_item_def Let_def)+

lemma page_hears_wf:
  "workflowPendingAction (page_hears pd x s) = workflowPendingAction s"
  "workflowDialogAction (page_hears pd x s) = workflowDialogAction s"
  "decisions (page_hears pd x s) = decisions s"
  "ids_inv s \<Longrightarrow> ids_inv (page_hears pd x s)"
proof -
  have s: "workflowPendingAction (handleItemSubmit pd d s) = workflowPendingAction s \<and>
    workflowDialogAction (handleItemSubmit pd d s) = workflowDialogAction s \<and>
    decisions (handleItemSubmit pd d s) = decisions s" for d
    by (auto simp: handleItemSubmit_def Let_def split: option.split)
  have i: "ids_inv (handleItemSubmit pd d s)" if "ids_inv s" for d
    using that by (auto simp: handleItemSubmit_def Let_def intro!: ids_inv_start intro: ids_inv_same split: option.split)
  show "workflowPendingAction (page_hears pd x s) = workflowPendingAction s"
    "workflowDialogAction (page_hears pd x s) = workflowDialogAction s" "decisions (page_hears pd x s) = decisions s"
    by (cases x; simp add: s)+
  show "ids_inv s \<Longrightarrow> ids_inv (page_hears pd x s)"
    by (cases x) (auto simp: i intro: ids_inv_same)
qed

lemma page_reach_decision_inv: "page_reach lc pd s \<Longrightarrow> decision_inv s \<and> ids_inv s"
proof (induction rule: page_reach.induct)
  case page_mounted
  then show ?case by (simp add: decision_inv_def ids_inv_def decisions_def mounted_page_def)
next
  case (page_action s e)
  have ids: "ids_inv (action_event pd e s)" using page_action.IH ids_inv_same action_event_wf(1,2) by blast
  have "decision_inv (action_event pd e s)"
  proof (cases "e \<in> {EApprove, EReject, EPay}")
    case True
    then have "workflowPendingAction s = None"
      using page_action.hyps(2)
      unfolding page_action_bar_def page_item_list_def action_bar_offers item_section_offers by (auto split: if_splits)
    moreover have "decisions s = []"
      using conjunct1 [OF page_action.IH] calculation by (cases rule: decision_inv_cases) auto
    ultimately show ?thesis
      by (intro decision_inv_free) (simp_all add: action_event_wf decisions_muts [OF action_event_wf(1)])
  next
    case False
    then show ?thesis
      using page_action.IH by (blast intro: decision_inv_same action_event_wf decisions_muts)
  qed
  with ids show ?case by blast
next
  case (action_confirmed s x d)
  then show ?case
    by (auto simp: handleDialogConfirm_def handleSubmitConfirm_def handleDeleteConfirm_def
        intro!: ids_inv_start elim: decision_inv_same split: option.split dialog_action.split)
next
  case (decision_confirmed s x d)
  have "\<not> dl_loading (workflow_dialog s)" by (rule confirmed_input(1)) (rule decision_confirmed.hyps(3,2))+
  then have "decision_inv (handleWorkflowDialogConfirm pd x s)" using decision_confirmed.IH decision_inv_confirm by blast
  moreover have "ids_inv (handleWorkflowDialogConfirm pd x s)"
    using decision_confirmed.IH
    by (auto simp: handleWorkflowDialogConfirm_def Let_def intro!: ids_inv_start intro: ids_inv_same
        split: option.split workflow_action.split)
  ultimately show ?case by blast
next
  case (decision_cancelled s d)
  have nl: "\<not> dl_loading (workflow_dialog s)"
    using decision_cancelled.hyps(2) by (auto simp: click_dialog_def clickable_dialog split: if_splits)
  have same: "decisions (handleWorkflowDialogCancel s) = decisions s"
    by (rule decisions_muts) (simp add: handleWorkflowDialogCancel_def)
  have "decision_inv s" using decision_cancelled.IH by blast
  then have "decision_inv (handleWorkflowDialogCancel s)"
  proof (cases rule: decision_inv_cases)
    case free
    then show ?thesis using same by (intro decision_inv_free) (simp_all add: handleWorkflowDialogCancel_def)
  next
    case (busy k m w)
    then have "w \<noteq> WReject" using loading_rejection nl by auto
    then show ?thesis using busy same by (simp add: decision_inv_def handleWorkflowDialogCancel_def)
  qed
  then show ?case using decision_cancelled.IH ids_inv_same [of s "handleWorkflowDialogCancel s"]
    by (simp add: handleWorkflowDialogCancel_def)
next
  case (deletion_confirmed s)
  then show ?case
    by (auto simp: handleDeleteItemConfirm_def intro!: ids_inv_start
        intro: ids_inv_same elim!: decision_inv_same split: option.split)
next
  case (panel_says s x)
  then show ?case using page_hears_wf decision_inv_same by blast
next
  case (mutation_settles s k res)
  then show ?case using decision_inv_settles ids_inv_settles by blast
next
  case (told s t)
  then show ?case
    by (auto simp: location_toast_def intro: ids_inv_same elim!: decision_inv_same split: option.split)
qed (auto simp: panel_exited_def decisions_def intro: ids_inv_same elim!: decision_inv_same)

subsection \<open>Properties\<close>

text \<open>
  C3. The page never requests what the user may not do: in every reachable state, each mutation it has
  started was permitted for the user and the report. Submissions, approvals, rejections and payments were
  sent with the report's own id and version, and a rejection with a reason that is not blank; an item was
  updated with the report's id and the id and version of one and the same item of the report. The API takes
  no version for the others: the report is deleted by its id, an item is created with the report's
  id, and deleted with that id and the id of an item of the report.
\<close>

theorem requests_are_permitted:
  assumes "page_reach lc pd s" and "PMutate m \<in> set (page_outs s)"
  shows "permitted pd m"
  using page_reach_inv [OF assms(1)] assms(2) by (simp add: page_inv_def requested_def)

definition demo_report :: "report_status \<Rightarrow> report_detail" where
  "demo_report st =
     \<lparr>rd_id = ''r1'', rd_title = ''t'', rd_period_start = ''2026-04-01'', rd_period_end = ''2026-04-30'',
      rd_status = st, rd_total_amount = 1200, rd_submitter = \<lparr>us_id = ''u1'', us_name = ''n''\<rparr>,
      rd_reference_report_id = None, rd_submitted_at = None, rd_submitted_by = None, rd_approved_at = None, rd_approved_by = None,
      rd_approval_comment = None, rd_rejected_at = None, rd_rejected_by = None, rd_rejection_reason = None,
      rd_paid_at = None, rd_paid_by = None,
      rd_items = map (\<lambda>i. \<lparr>it_id = i, it_report_id = ''r1'', it_expense_date = ''2026-04-02'', it_amount = 1200,
        it_category = \<lparr>cat_id = ''c'', cat_code = ''c'', cat_name_ja = ''c'', cat_sort_order = 0\<rparr>,
        it_description = ''d'', it_created_at = ''x'', it_updated_at = ''x'', it_attachments = []\<rparr>) [''i1'', ''i2''],
      rd_created_at = ''x'', rd_updated_at = ''v1''\<rparr>"

definition demo_page_data :: "string \<Rightarrow> role \<Rightarrow> report_status \<Rightarrow> page_data" where
  "demo_page_data i r st =
     \<lparr>pd_report = demo_report st,
      pd_user = Some \<lparr>au_id = i, au_name = ''n'', au_email = ''e'', au_role = r, au_tenant_id = ''t'', au_tenant_name = ''t''\<rparr>,
      pd_categories = []\<rparr>"

definition demo_rejecting :: "page_data \<Rightarrow> page" where
  "demo_rejecting pd = handleWorkflowDialogConfirm pd (Some ''why'') (action_event pd EReject mounted_page)"

lemma demo_rejecting_reach: "page_reach lc (demo_page_data ''u2'' Approver Submitted) (demo_rejecting (demo_page_data ''u2'' Approver Submitted))"
proof -
  let ?pd = "demo_page_data ''u2'' Approver Submitted"
  let ?s = "action_event ?pd EReject mounted_page"
  have "EReject \<in> set (clickable (page_action_bar ?pd mounted_page))"
    unfolding page_action_bar_def action_bar_offers
    by (simp add: demo_page_data_def demo_report_def is_owner_def mounted_page_def)
  then have r: "page_reach lc ?pd ?s" by (intro page_action page_mounted) simp
  have "OnConfirm (Some ''why'') \<in> set (fst (click_dialog EConfirm (workflow_dialog ?s)
      \<lparr>inputValue = ''why'', touched = False, previous = None\<rparr>))" "dl_open (workflow_dialog ?s)"
    by code_simp+
  then show ?thesis unfolding demo_rejecting_def by (intro decision_confirmed [OF r])
qed

theorem requests_are_permitted_witness:
  "permitted (demo_page_data ''u2'' Approver Submitted) (MReject \<lparr>vi_id = ''r1'', vi_updated_at = ''v1'', ri_reason = ''why''\<rparr>)"
proof (rule requests_are_permitted [OF demo_rejecting_reach])
  show "PMutate (MReject \<lparr>vi_id = ''r1'', vi_updated_at = ''v1'', ri_reason = ''why''\<rparr>) \<in>
      set (page_outs (demo_rejecting (demo_page_data ''u2'' Approver Submitted)))"
    by (simp add: demo_rejecting_def handleWorkflowDialogConfirm_def action_event_def mounted_page_def
        demo_page_data_def demo_report_def start_def pout_def Let_def)
qed

text \<open>
  C21. One decision at a time: in every reachable state at most one approval, rejection or payment is in
  flight, and while one is, the action bar offers no decision; an approval or payment has closed its
  dialog, while the dialog of a rejection stays open and cannot be closed or confirmed again until the
  request settles.
\<close>

theorem one_decision_at_a_time:
  assumes "page_reach lc pd s"
  shows "length (decisions s) \<le> 1 \<and>
    (\<forall>k m w. (k, m) \<in> set (muts s) \<and> decision m = Some w \<longrightarrow>
       workflowPendingAction s = Some w \<and>
       {EApprove, EReject, EPay} \<inter> set (clickable (page_action_bar pd s)) = {} \<and>
       (if w = WReject
        then dl_open (workflow_dialog s) \<and> set (clickable (render_dialog (workflow_dialog s) d)) = {}
        else \<not> dl_open (workflow_dialog s)))"
proof -
  have inv: "decision_inv s" using page_reach_decision_inv [OF assms] by blast
  then have one: "length (decisions s) \<le> 1" by (cases rule: decision_inv_cases) auto
  have "workflowPendingAction s = Some w \<and>
       {EApprove, EReject, EPay} \<inter> set (clickable (page_action_bar pd s)) = {} \<and>
       (if w = WReject
        then dl_open (workflow_dialog s) \<and> set (clickable (render_dialog (workflow_dialog s) d)) = {}
        else \<not> dl_open (workflow_dialog s))"
    if "(k, m) \<in> set (muts s)" "decision m = Some w" for k m w
  proof -
    have "(k, m) \<in> set (decisions s)" using that by (simp add: decisions_def)
    with inv that have d: "decisions s = [(k, m)]" "workflowPendingAction s = Some w"
      "workflowDialogAction s = (if w = WReject then Some WReject else None)"
      by (cases rule: decision_inv_cases; auto)+
    have "{EApprove, EReject, EPay} \<inter> set (clickable (page_action_bar pd s)) = {}"
      unfolding page_action_bar_def action_bar_offers d(2) by auto
    moreover have "dl_loading (workflow_dialog s)" if "w = WReject"
      using loading_rejection [OF d(1) \<open>decision m = Some w\<close>] d(3) that by simp
    ultimately show ?thesis
      using d by (auto simp: clickable_dialog workflow_dialog_def Let_def)
  qed
  with one show ?thesis by blast
qed

theorem one_decision_at_a_time_witness:
  "length (decisions (demo_rejecting (demo_page_data ''u2'' Approver Submitted))) \<le> 1 \<and>
   dl_open (workflow_dialog (demo_rejecting (demo_page_data ''u2'' Approver Submitted)))"
proof -
  let ?s = "demo_rejecting (demo_page_data ''u2'' Approver Submitted)"
  have "(0, MReject \<lparr>vi_id = ''r1'', vi_updated_at = ''v1'', ri_reason = ''why''\<rparr>) \<in> set (muts ?s)"
    by (simp add: demo_rejecting_def handleWorkflowDialogConfirm_def action_event_def mounted_page_def
        demo_page_data_def demo_report_def start_def pout_def Let_def)
  moreover have "decision (MReject \<lparr>vi_id = ''r1'', vi_updated_at = ''v1'', ri_reason = ''why''\<rparr>) = Some WReject" by simp
  ultimately show ?thesis
    using one_decision_at_a_time [OF demo_rejecting_reach] by presburger
qed

definition decided_msg :: "workflow_action \<Rightarrow> string" where
  \<comment> \<open>the message of the page after a decision that was carried out\<close>
  "decided_msg w = (case w of WApprove \<Rightarrow> ''The report was approved'' | WReject \<Rightarrow> ''The report was rejected''
     | WPay \<Rightarrow> ''The payment was recorded'')"

definition undecided_msg :: "workflow_action \<Rightarrow> string" where
  \<comment> \<open>the message of the page for a failure that brings none of its own\<close>
  "undecided_msg w = (case w of WApprove \<Rightarrow> ''The report could not be approved''
     | WReject \<Rightarrow> ''The report could not be rejected'' | WPay \<Rightarrow> ''The payment could not be recorded'')"

lemmas decision_msgs = decided_msg_def undecided_msg_def

text \<open>
  C23. Every decision ends with an answer, whatever the request comes back with. When it settles, it is no
  longer in flight and the action bar is free again. On success a toast names the decision that was carried out, and no
  decision dialog is open. After any failure (an error answer, a network error, a body that is no JSON,
  a value that is no error) a rejection's dialog stays open, can be used again and shows the message; a
  failed approval or payment shows it in an error toast. The message is that of the error, or the text
  for this decision when what was thrown is no error.
\<close>

theorem decisions_are_answered:
  assumes "page_reach lc pd s" and "map_of (muts s) k = Some m" and "decision m = Some w"
  shows "(let t = page_settles k (Inr v) s in
      decisions t = [] \<and> workflowPendingAction t = None \<and> workflowDialogAction t = None \<and>
      page_toast t = (True, TSuccess, decided_msg w)) \<and>
    (let t = page_settles k (Inl err) s; msg = message_or err (undecided_msg w) in
      decisions t = [] \<and> workflowPendingAction t = None \<and>
      (if w = WReject
       then dl_open (workflow_dialog t) \<and> \<not> dl_loading (workflow_dialog t) \<and> dl_apiError (workflow_dialog t) = Some msg
       else page_toast t = (True, TError, msg)))"
proof -
  have inv: "decision_inv s" "ids_inv s" using page_reach_decision_inv [OF assms(1)] by blast+
  have mem: "(k, m) \<in> set (muts s)" using assms(2) by (rule map_of_SomeD)
  then have "(k, m) \<in> set (decisions s)" using assms(3) by (simp add: decisions_def)
  with inv(1) assms(3) have d: "decisions s = [(k, m)]" and
    w: "workflowDialogAction s = (if w = WReject then Some WReject else None)"
    by (cases rule: decision_inv_cases; auto)+
  have gone: "decisions u = []" if "muts u = filter (\<lambda>x. fst x \<noteq> k) (muts s)" for u
  proof -
    have "decisions u = filter (\<lambda>x. fst x \<noteq> k) (decisions s)" using that by (simp add: decisions_def conj_commute)
    then show ?thesis by (simp add: d)
  qed
  have clear: "\<not> is_pending (\<lambda>m. decision m = Some x) u" if "decisions u = []" for u x
    using that by (auto simp: is_pending_def decisions_def list_ex_iff filter_empty_conv)
  obtain u where u: "page_settles k (Inr v) s = mutation_succeeded m u" "workflowDialogAction u = workflowDialogAction s"
    "muts u = filter (\<lambda>x. fst x \<noteq> k) (muts s)"
    by (rule page_settles_eq [OF assms(2), where res = "Inr v"]) simp
  obtain u' where u': "page_settles k (Inl err) s = mutation_failed err m u'"
    "workflowDialogAction u' = workflowDialogAction s" "muts u' = filter (\<lambda>x. fst x \<noteq> k) (muts s)"
    by (rule page_settles_eq [OF assms(2), where res = "Inl err"]) simp
  have same: "decisions (mutation_succeeded m u) = decisions u" "decisions (mutation_failed err m u') = decisions u'"
    using assms(3) by (cases m; simp add: decisions_def)+
  have "let t = mutation_succeeded m u in decisions t = [] \<and> workflowPendingAction t = None \<and>
      workflowDialogAction t = None \<and> page_toast t = (True, TSuccess, decided_msg w)"
    unfolding Let_def same(1) gone [OF u(3)] using assms(3) w u(2) by (cases m) (simp_all add: decision_msgs)
  moreover have "let t = mutation_failed err m u'; msg = message_or err (undecided_msg w) in
      decisions t = [] \<and> workflowPendingAction t = None \<and>
      (if w = WReject
       then dl_open (workflow_dialog t) \<and> \<not> dl_loading (workflow_dialog t) \<and> dl_apiError (workflow_dialog t) = Some msg
       else page_toast t = (True, TError, msg))"
    unfolding Let_def same(2) gone [OF u'(3)]
    using assms(3) w u'(2) clear [of "mutation_failed err m u'" WReject] gone [OF u'(3)] same(2)
    by (cases m) (simp_all add: workflow_dialog_def decision_msgs)
  ultimately show ?thesis unfolding u(1) u'(1) by blast
qed

theorem decisions_are_answered_witness:
  "dl_apiError (workflow_dialog (page_settles 0 (Inl (OtherError ''TypeError'' ''Failed to fetch''))
     (demo_rejecting (demo_page_data ''u2'' Approver Submitted)))) = Some ''Failed to fetch''"
proof -
  let ?s = "demo_rejecting (demo_page_data ''u2'' Approver Submitted)"
  have m: "map_of (muts ?s) 0 = Some (MReject \<lparr>vi_id = ''r1'', vi_updated_at = ''v1'', ri_reason = ''why''\<rparr>)"
    by (simp add: demo_rejecting_def handleWorkflowDialogConfirm_def action_event_def mounted_page_def
        demo_page_data_def demo_report_def start_def pout_def Let_def)
  have d: "decision (MReject \<lparr>vi_id = ''r1'', vi_updated_at = ''v1'', ri_reason = ''why''\<rparr>) = Some WReject" by simp
  show ?thesis
    using decisions_are_answered [where err = "OtherError ''TypeError'' ''Failed to fetch''", OF demo_rejecting_reach m d, THEN conjunct2]
    by (simp add: Let_def message_or_def)
qed

text \<open>
  The banner about a conflict appears for submitting and deleting only: a conflict (409) reported for an
  approval, a rejection, a payment or an item leaves it hidden, although the server reports conflicts for all of them.
\<close>

theorem conflict_banner_only_for_submit_and_delete:
  assumes "map_of (muts s) k = Some m"
  shows "conflictDetected (page_settles k (Inl (ApiClientError msg 409 code det)) s) \<longleftrightarrow>
    is_submit m \<or> is_delete m \<or> conflictDetected s"
proof -
  obtain u where "page_settles k (Inl (ApiClientError msg 409 code det)) s =
      mutation_failed (ApiClientError msg 409 code det) m u" "conflictDetected u = conflictDetected s"
    by (rule page_settles_eq [OF assms, where res = "Inl (ApiClientError msg 409 code det)"]) simp
  then show ?thesis by (cases m) (simp_all add: handleActionError_def)
qed

theorem conflict_banner_only_for_submit_and_delete_witness:
  "\<not> conflictDetected (page_settles 0 (Inl (ApiClientError ''m'' 409 JNull JNull))
     (demo_rejecting (demo_page_data ''u2'' Approver Submitted)))"
proof -
  let ?s = "demo_rejecting (demo_page_data ''u2'' Approver Submitted)"
  have m: "map_of (muts ?s) 0 = Some (MReject \<lparr>vi_id = ''r1'', vi_updated_at = ''v1'', ri_reason = ''why''\<rparr>)"
    and c: "\<not> conflictDetected ?s"
    by (simp_all add: demo_rejecting_def handleWorkflowDialogConfirm_def action_event_def mounted_page_def
        demo_page_data_def demo_report_def start_def pout_def Let_def)
  show ?thesis
    unfolding conflict_banner_only_for_submit_and_delete [OF m] using c by simp
qed

text \<open>
  A save that finishes late closes whatever panel is open: the callback of an item update does not ask
  which item the panel shows now, so after the user has left the saved item and opened another one,
  the success closes that panel and the failure shows its message in it.
\<close>

theorem late_save_hits_open_panel:
  assumes "map_of (muts s) k = Some (MUpdateItem i)"
  shows "panelState (page_settles k (Inr v) s) = None \<and>
    pp_apiError (page_panel_props pd (page_settles k (Inl (ApiClientError msg st code det)) s)) = Some msg \<and>
    panelState (page_settles k (Inl (ApiClientError msg st code det)) s) = panelState s \<and>
    selectedItem (page_settles k (Inl (ApiClientError msg st code det)) s) = selectedItem s"
  using assms by (simp add: page_settles_def Let_def page_panel_props_def message_or_def)

definition demo_late_save :: page where
  "demo_late_save =
     (let pd = demo_page_data ''u1'' Member Draft
      in action_event pd (EEditItem ''i2'')
           (page_hears pd OClose (page_hears pd (OItemSubmit demo_values)
             (action_event pd (EEditItem ''i1'') mounted_page))))"

theorem late_save_hits_open_panel_witness:
  "panelState demo_late_save = Some EditMode \<and> map_option it_id (selectedItem demo_late_save) = Some ''i2'' \<and>
   panelState (page_settles 0 (Inr JNull) demo_late_save) = None"
proof -
  have "map_option (\<lambda>m. case m of MUpdateItem i \<Rightarrow> ui_itemId i | _ \<Rightarrow> []) (map_of (muts demo_late_save) 0) = Some ''i1''"
    by code_simp
  then obtain m where m: "map_of (muts demo_late_save) 0 = Some m" "(case m of MUpdateItem i \<Rightarrow> ui_itemId i | _ \<Rightarrow> []) = ''i1''"
    by auto
  then obtain i where "map_of (muts demo_late_save) 0 = Some (MUpdateItem i)" by (cases m) auto
  then have "panelState (page_settles 0 (Inr JNull) demo_late_save) = None"
    using late_save_hits_open_panel by blast
  moreover have "panelState demo_late_save = Some EditMode \<and> map_option it_id (selectedItem demo_late_save) = Some ''i2''"
    by code_simp
  ultimately show ?thesis by blast
qed

definition hear_all :: "page_data \<Rightarrow> panel_out list \<Rightarrow> page \<times> panel \<Rightarrow> page \<times> panel" where
  \<comment> \<open>the page hears what the panel calls; a new key mounts a new panel\<close>
  "hear_all pd xs z =
     foldl (\<lambda>(pg, pn) x. let pg' = page_hears pd x pg
                         in (pg', if formKey pg' = formKey pg then pn else mounted_panel)) z xs"

lemma hear_all_new_panel: "snd (hear_all pd xs (pg, mounted_panel)) = mounted_panel"
  by (induction xs arbitrary: pg) (simp_all add: hear_all_def Let_def split: prod.split)

lemma hear_all_continue:
  "OSaveAndContinue \<in> set xs \<Longrightarrow> snd (hear_all pd xs z) = mounted_panel"
proof (induction xs arbitrary: z)
  case (Cons x xs)
  obtain pg pn where z: "z = (pg, pn)" by (cases z)
  have step: "hear_all pd (x # xs) z =
      hear_all pd xs (page_hears pd x pg, if formKey (page_hears pd x pg) = formKey pg then pn else mounted_panel)"
    by (simp add: hear_all_def Let_def z)
  show ?case
  proof (cases "x = OSaveAndContinue")
    case True
    then show ?thesis unfolding step by (simp add: hear_all_new_panel)
  next
    case False
    then show ?thesis unfolding step using Cons by simp
  qed
qed simp

text \<open>
  "Save and add another" loses its message: the panel puts its success or warning toast into its own
  state, but the callback of the page gives the panel a new key, so what is shown afterwards is a new panel without a toast.
\<close>

theorem save_and_continue_loses_toast:
  assumes "find_run c pn = Some r" and "rn_stage r = Creating" and "js_get v ''id'' = Inr i" and "rn_files r = []"
    and "rn_after r = AfterContinue"
  shows "let t = create_settles c (Inr v) pn;
             z = hear_all pd (drop (length (outs pn)) (outs t)) (pg, t)
         in apiToast t = (True, TSuccess, msg_item_added) \<and>
            \<not> fst (apiToast (snd z)) \<and> panelState (fst z) = Some AddMode"
proof -
  let ?t = "create_settles c (Inr v) pn"
  have saved: "apiToast ?t = (True, TSuccess, msg_item_added)"
    using empty_save_completes [OF assms(1-4)] by (simp add: Let_def)
  have o: "drop (length (outs pn)) (outs ?t) =
      [OInvalidate (detail_key (ci_reportId (rn_input r))), OInvalidate (detail_key (rn_reportId r)), OFormReset, OSaveAndContinue]"
    using assms by (simp add: create_settles_def Let_def item_created_def item_saved_def afterSubmit_def
        resetDirtyState_def emit_def useCreateItem_def)
  have "snd (hear_all pd (drop (length (outs pn)) (outs ?t)) (pg, ?t)) = mounted_panel"
    unfolding o by (rule hear_all_continue) simp
  moreover have "panelState (fst (hear_all pd (drop (length (outs pn)) (outs ?t)) (pg, ?t))) = Some AddMode"
    unfolding o by (simp add: hear_all_def Let_def)
  ultimately show ?thesis using saved by (simp add: Let_def, simp add: mounted_panel_def)
qed

theorem save_and_continue_loses_toast_witness:
  "let pn = panel_callback_runs demo_panel_props (PanelSaveAndContinue [], demo_values) mounted_panel;
       t = create_settles 0 (Inr demo_item) pn;
       z = hear_all (demo_page_data ''u1'' Member Draft) (drop (length (outs pn)) (outs t)) (mounted_page, t)
   in fst (apiToast t) \<and> \<not> fst (apiToast (snd z))"
proof -
  let ?pn = "panel_callback_runs demo_panel_props (PanelSaveAndContinue [], demo_values) mounted_panel"
  obtain r where r: "find_run 0 ?pn = Some r" "rn_stage r = Creating" "rn_files r = []" "rn_after r = AfterContinue"
    by (simp add: handleAddModeSubmit_def mounted_panel_def Let_def find_run_def)
  have i: "js_get demo_item ''id'' = Inr (JStr ''i1'')" by (simp add: demo_item_def)
  show ?thesis
    using save_and_continue_loses_toast [OF r(1,2) i r(3,4), of "demo_page_data ''u1'' Member Draft" mounted_page]
    unfolding Let_def by simp
qed

end
