(* ===== verification/Query_Keys.thy ===== *)
theory Query_Keys
  imports Query_Hooks
begin

text \<open>
  The query keys of all data hooks (frontend/src/hooks/) together: a key determines the hook it belongs
  to and the request that is sent.
\<close>

subsection \<open>All queries of the hooks\<close>

datatype any_query =
    QMine my_reports_params
  | QReport "string option"
  | QPending workflow_params
  | QPayable workflow_params
  | QProcessed "jsnum option" "jsnum option"
  | QAll all_reports_params
  | QAttachments string string
  | QDownload string string string
  | QPreview string string string
  | QCategories
  | QDashboard
  | QMe
  | QTenant
  | QMembers

fun query_of :: "any_query \<Rightarrow> query" where
  "query_of (QMine p) = useMyReports p"
| "query_of (QReport i) = useReport i"
| "query_of (QPending p) = usePendingReports p"
| "query_of (QPayable p) = usePayableReports p"
| "query_of (QProcessed a b) = useProcessedReports a b"
| "query_of (QAll p) = useAllReports p"
| "query_of (QAttachments r i) = useAttachments r i"
| "query_of (QDownload r i a) = useAttachmentDownloadUrl r i a"
| "query_of (QPreview r i a) = useAttachmentPreviewUrl r i a"
| "query_of QCategories = useCategories"
| "query_of QDashboard = useDashboard"
| "query_of QMe = useCurrentUser"
| "query_of QTenant = useTenant"
| "query_of QMembers = useTenantMembers"

lemmas hook_query_defs = useMyReports_def useReport_def usePendingReports_def usePayableReports_def
  useProcessedReports_def useAllReports_def useAttachments_def useAttachmentDownloadUrl_def
  useAttachmentPreviewUrl_def useCategories_def useDashboard_def useCurrentUser_def useTenant_def
  useTenantMembers_def plain_query_def attachments_key_def

lemma jsnum_val_inject [simp]: "jsnum_val a = jsnum_val b \<longleftrightarrow> a = b"
  by (cases a; cases b) simp_all

lemma key_num_eq: "key_num k a = key_num k b \<longleftrightarrow> a = b"
  by (auto simp: key_num_def split: option.splits)

lemma key_str_eq: "key_str k a = key_str k b \<longleftrightarrow> a = b"
  by (auto simp: key_str_def split: option.splits)

lemma key_val_eq: "key_val k a = key_val k b \<longleftrightarrow> a = b"
  by (auto simp: key_val_def)

lemma filter_key:
  "filter (\<lambda>x. fst x = k) (key_num k' a) = (if k = k' then key_num k' a else [])"
  "filter (\<lambda>x. fst x = k) (key_str k' b) = (if k = k' then key_str k' b else [])"
  "filter (\<lambda>x. fst x = k) (key_val k' c) = (if k = k' then key_val k' c else [])"
  by (auto simp: key_num_def key_str_def key_val_def split: option.splits)

lemma mine_key_eq:
  "qu_key (useMyReports p) = qu_key (useMyReports q) \<Longrightarrow> p = q"
proof -
  assume "qu_key (useMyReports p) = qu_key (useMyReports q)"
  then have eq: "key_num ''page'' (mp_page p) @ key_num ''per_page'' (mp_per_page p) @
      key_str ''status'' (mp_status p) @ key_str ''from'' (mp_from p) @ key_str ''to'' (mp_to p) =
      key_num ''page'' (mp_page q) @ key_num ''per_page'' (mp_per_page q) @
      key_str ''status'' (mp_status q) @ key_str ''from'' (mp_from q) @ key_str ''to'' (mp_to q)"
    by (simp add: hook_query_defs)
  from arg_cong [OF eq, of "filter (\<lambda>x. fst x = ''page'')"] arg_cong [OF eq, of "filter (\<lambda>x. fst x = ''per_page'')"]
    arg_cong [OF eq, of "filter (\<lambda>x. fst x = ''status'')"] arg_cong [OF eq, of "filter (\<lambda>x. fst x = ''from'')"]
    arg_cong [OF eq, of "filter (\<lambda>x. fst x = ''to'')"]
  show "p = q" by (simp add: filter_key key_num_eq key_str_eq)
qed

lemma workflow_key_eq: "workflow_key p = workflow_key q \<Longrightarrow> p = q"
proof -
  assume "workflow_key p = workflow_key q"
  then have eq: "key_num ''page'' (wp_page p) @ key_num ''per_page'' (wp_per_page p) @
      key_str ''applicant_name'' (wp_applicant_name p) =
      key_num ''page'' (wp_page q) @ key_num ''per_page'' (wp_per_page q) @
      key_str ''applicant_name'' (wp_applicant_name q)"
    by (simp add: workflow_key_def)
  from arg_cong [OF eq, of "filter (\<lambda>x. fst x = ''page'')"] arg_cong [OF eq, of "filter (\<lambda>x. fst x = ''per_page'')"]
    arg_cong [OF eq, of "filter (\<lambda>x. fst x = ''applicant_name'')"]
  show "p = q" by (simp add: filter_key key_num_eq key_str_eq)
qed

lemma processed_key_eq:
  "qu_key (useProcessedReports a b) = qu_key (useProcessedReports c d) \<Longrightarrow> a = c \<and> b = d"
proof -
  assume "qu_key (useProcessedReports a b) = qu_key (useProcessedReports c d)"
  then have eq: "key_num ''page'' a @ key_num ''per_page'' b = key_num ''page'' c @ key_num ''per_page'' d"
    by (simp add: hook_query_defs)
  from arg_cong [OF eq, of "filter (\<lambda>x. fst x = ''page'')"] arg_cong [OF eq, of "filter (\<lambda>x. fst x = ''per_page'')"]
  show ?thesis by (simp add: filter_key key_num_eq)
qed

lemma all_key_eq: "qu_key (useAllReports p) = qu_key (useAllReports q) \<Longrightarrow> qu_url (useAllReports p) = qu_url (useAllReports q)"
proof -
  let ?pg = "\<lambda>p. case ap_page p of None \<Rightarrow> Num 1 | Some n \<Rightarrow> n"
  let ?pp = "\<lambda>p. case ap_per_page p of None \<Rightarrow> Num 20 | Some n \<Rightarrow> n"
  let ?key = "\<lambda>p. key_num ''page'' (Some (?pg p)) @ key_num ''per_page'' (Some (?pp p)) @
    key_str ''status'' (ap_status p) @ key_val ''from'' (ap_from p) @ key_val ''to'' (ap_to p) @
    key_str ''submitter_id'' (ap_submitter_id p)"
  assume "qu_key (useAllReports p) = qu_key (useAllReports q)"
  then have eq: "?key p = ?key q" by (simp add: hook_query_defs Let_def)
  from arg_cong [OF eq, of "filter (\<lambda>x. fst x = ''page'')"] arg_cong [OF eq, of "filter (\<lambda>x. fst x = ''per_page'')"]
    arg_cong [OF eq, of "filter (\<lambda>x. fst x = ''status'')"] arg_cong [OF eq, of "filter (\<lambda>x. fst x = ''from'')"]
    arg_cong [OF eq, of "filter (\<lambda>x. fst x = ''to'')"] arg_cong [OF eq, of "filter (\<lambda>x. fst x = ''submitter_id'')"]
  have "?pg p = ?pg q" "?pp p = ?pp q" "ap_status p = ap_status q" "ap_from p = ap_from q" "ap_to p = ap_to q"
    "ap_submitter_id p = ap_submitter_id q"
    by (simp_all add: filter_key key_num_eq key_str_eq key_val_eq)
  then show ?thesis by (simp add: useAllReports_def Let_def plain_query_def)
qed

fun query_kind :: "any_query \<Rightarrow> nat" where
  "query_kind (QMine p) = 0"
| "query_kind (QReport i) = 1"
| "query_kind (QPending p) = 2"
| "query_kind (QPayable p) = 3"
| "query_kind (QProcessed a b) = 4"
| "query_kind (QAll p) = 5"
| "query_kind (QAttachments r i) = 6"
| "query_kind (QDownload r i a) = 7"
| "query_kind (QPreview r i a) = 8"
| "query_kind QCategories = 9"
| "query_kind QDashboard = 10"
| "query_kind QMe = 11"
| "query_kind QTenant = 12"
| "query_kind QMembers = 13"

definition key_kind :: "query_key \<Rightarrow> nat" where
  \<comment> \<open>the hook a key belongs to, read from its constant parts\<close>
  "key_kind k =
     (if length k = 1 then
        (if k ! 0 = JStr ''categories'' then 9 else if k ! 0 = JStr ''dashboard'' then 10 else 12)
      else if length k = 2 then (if k ! 0 = JStr ''auth'' then 11 else 13)
      else if length k = 5 then 6
      else if length k = 7 then (if k ! 6 = JStr ''download'' then 7 else 8)
      else if k ! 1 = JStr ''mine'' then 0 else if k ! 1 = JStr ''detail'' then 1
      else if k ! 1 = JStr ''pending'' then 2 else if k ! 1 = JStr ''payable'' then 3
      else if k ! 1 = JStr ''processed'' then 4 else 5)"

fun_cases of_kind: "query_kind b = 0" "query_kind b = Suc 0" "query_kind b = 2" "query_kind b = 3"
  "query_kind b = 4" "query_kind b = 5" "query_kind b = 6" "query_kind b = 7"
  "query_kind b = 8" "query_kind b = 9" "query_kind b = 10" "query_kind b = 11"
  "query_kind b = 12" "query_kind b = 13"

lemma key_kind_query: "key_kind (qu_key (query_of a)) = query_kind a"
  by (cases a) (simp_all add: key_kind_def hook_query_defs Let_def)

subsection \<open>Property\<close>

text \<open>
  C29. The cache never answers with the data of another request: two queries of the hooks that have the
  same key fetch the same URL and select the same part of the response.
\<close>

theorem same_key_same_request:
  assumes keys: "qu_key (query_of a) = qu_key (query_of b)"
  shows "qu_url (query_of a) = qu_url (query_of b) \<and> qu_select (query_of a) = qu_select (query_of b)"
proof -
  have kind: "query_kind b = query_kind a" using keys key_kind_query by metis
  show ?thesis
  proof (cases a)
    case (QMine p)
    then obtain q where "b = QMine q" using kind by (auto elim: of_kind(1))
    then show ?thesis using keys QMine mine_key_eq [of p q] by simp
  next
    case (QReport i)
    then obtain j where "b = QReport j" using kind by (auto elim: of_kind(2))
    then show ?thesis using keys QReport by (simp add: hook_query_defs split: option.splits)
  next
    case (QPending p)
    then obtain q where "b = QPending q" using kind by (auto elim: of_kind(3))
    then show ?thesis using keys QPending by (auto simp: hook_query_defs dest: workflow_key_eq)
  next
    case (QPayable p)
    then obtain q where "b = QPayable q" using kind by (auto elim: of_kind(4))
    then show ?thesis using keys QPayable by (auto simp: hook_query_defs dest: workflow_key_eq)
  next
    case (QProcessed m n)
    then obtain m' n' where "b = QProcessed m' n'" using kind by (auto elim: of_kind(5))
    then show ?thesis using keys QProcessed processed_key_eq [of m n m' n'] by simp
  next
    case (QAll p)
    then obtain q where "b = QAll q" using kind by (auto elim: of_kind(6))
    moreover have "qu_select (useAllReports r) = []" for r by (simp add: hook_query_defs Let_def)
    ultimately show ?thesis using keys QAll all_key_eq [of p q] by simp
  next
    case (QAttachments r i)
    then obtain s j where "b = QAttachments s j" using kind by (auto elim: of_kind(7))
    then show ?thesis using keys QAttachments by (simp add: hook_query_defs)
  next
    case (QDownload r i x)
    then obtain s j y where "b = QDownload s j y" using kind by (auto elim: of_kind(8))
    then show ?thesis using keys QDownload by (simp add: hook_query_defs)
  next
    case (QPreview r i x)
    then obtain s j y where "b = QPreview s j y" using kind by (auto elim: of_kind(9))
    then show ?thesis using keys QPreview by (simp add: hook_query_defs)
  qed (use kind in \<open>auto elim: of_kind(10-14)\<close>)
qed

theorem same_key_same_request_witness:
  "\<exists>p q. p \<noteq> q \<and> qu_key (query_of (QAll p)) = qu_key (query_of (QAll q)) \<and>
     qu_url (query_of (QAll p)) = qu_url (query_of (QAll q))"
proof -
  let ?p = "\<lparr>ap_page = None, ap_per_page = None, ap_status = None, ap_from = Undefined, ap_to = Undefined,
    ap_submitter_id = None\<rparr>"
  let ?q = "?p\<lparr>ap_page := Some (Num 1)\<rparr>"
  have k: "qu_key (query_of (QAll ?p)) = qu_key (query_of (QAll ?q))"
    by (simp add: useAllReports_def Let_def plain_query_def)
  then have "qu_url (query_of (QAll ?p)) = qu_url (query_of (QAll ?q))"
    using same_key_same_request [of "QAll ?p" "QAll ?q"] by simp
  with k show ?thesis by (intro exI [of _ ?p] exI [of _ ?q]) simp
qed

end
