(* ===== verification/List_Url.thy ===== *)
theory List_Url
  imports Query_Hooks
begin

text \<open>
  The list pages keep their page number, page size and filters in the query string
  (frontend/src/pages/: reports/ReportListPage, workflow/ApprovalListPage, PaymentListPage,
  ProcessedReportsPage, admin/AllReportsPage): how each reads the parameters of its query from the URL,
  and how each handler builds the next URL. A navigation by \<open>setSearchParams\<close> prints the parameters, and
  the page reads them back from the address. Numbers are read exactly; the browser does so up to
  2 ^ 53.
\<close>

subsection \<open>parseInt\<close>

definition parse_int :: "string \<Rightarrow> jsnum" where
  \<comment> \<open>\<open>parseInt(s, 10)\<close>: white space, a sign, then as many digits as there are\<close>
  "parse_int s =
     (let t = dropWhile js_ws s;
          u = (if t \<noteq> [] \<and> (hd t = CHR ''-'' \<or> hd t = CHR ''+'') then tl t else t);
          ds = takeWhile is_digit u
      in if ds = [] then NaN
         else if hd t = CHR ''-'' then Num (- int (parse_digits ds)) else Num (int (parse_digits ds)))"

lemma digit_not_special: "is_digit c \<Longrightarrow> \<not> js_ws c \<and> c \<noteq> CHR ''-'' \<and> c \<noteq> CHR ''+''"
  by (auto simp: is_digit_def js_ws_def)

lemma takeWhile_digits: "takeWhile is_digit (show_nat n) = show_nat n"
  using show_nat_digits [of n] by (simp add: takeWhile_eq_all_conv list_all_iff)

lemma hd_show_nat: "is_digit (hd (show_nat n))"
  using show_nat_digits [of n] show_nat_nonempty [of n] by (cases "show_nat n") auto

lemma parse_int_show [simp]: "parse_int (show_int i) = Num i"
proof (cases "i < 0")
  case True
  have "\<not> js_ws CHR ''-''" by (simp add: js_ws_def)
  with True show ?thesis by (simp add: parse_int_def show_int_def takeWhile_digits)
next
  case False
  obtain c s where s: "show_nat (nat i) = c # s" using show_nat_nonempty [of "nat i"] by (cases "show_nat (nat i)") auto
  then have "is_digit c" using hd_show_nat [of "nat i"] by simp
  then have "\<not> js_ws c \<and> c \<noteq> CHR ''-'' \<and> c \<noteq> CHR ''+''" by (rule digit_not_special)
  moreover have "takeWhile is_digit (c # s) = c # s" using takeWhile_digits [of "nat i"] s by simp
  moreover have "parse_digits (c # s) = nat i" using parse_show_nat [of "nat i"] s by simp
  ultimately show ?thesis using False s by (simp add: parse_int_def show_int_def)
qed

lemma parse_int_one [simp]: "parse_int ''1'' = Num 1"
  by (simp add: parse_int_def is_digit_def js_ws_def parse_digits_def digit_val_def)

lemma show_int_nonempty [simp]: "show_int i \<noteq> []"
  by (simp add: show_int_def)

subsection \<open>Reading the parameters\<close>

definition get_or :: "string \<Rightarrow> string \<Rightarrow> url_params \<Rightarrow> string" where
  \<comment> \<open>\<open>searchParams.get(k) ?? d\<close>\<close>
  "get_or k d sp = (case up_get k sp of Some v \<Rightarrow> v | None \<Rightarrow> d)"

definition or_undef :: "string \<Rightarrow> string option" where
  \<comment> \<open>\<open>v || undefined\<close>\<close>
  "or_undef v = (if v = [] then None else Some v)"

definition url_page :: "url_params \<Rightarrow> jsnum" where
  "url_page sp = parse_int (get_or ''page'' ''1'' sp)"

definition url_page_clamped :: "url_params \<Rightarrow> jsnum" where
  \<comment> \<open>the page number of AllReportsPage: \<open>Math.max(1, parseInt(p, 10) || 1)\<close>\<close>
  "url_page_clamped sp =
     (case up_get ''page'' sp of
        Some p \<Rightarrow> Num (case parse_int p of Num n \<Rightarrow> if n = 0 then 1 else max 1 n | NaN \<Rightarrow> 1)
      | None \<Rightarrow> Num 1)"

definition url_per_page :: "url_params \<Rightarrow> jsnum" where
  "url_per_page sp =
     (case (case up_get ''per_page'' sp of Some p \<Rightarrow> parse_int p | None \<Rightarrow> NaN) of
        Num n \<Rightarrow> if 0 \<le> n then Num n else Num 20
      | NaN \<Rightarrow> Num 20)"

definition report_list_params :: "url_params \<Rightarrow> my_reports_params" where
  "report_list_params sp =
     \<lparr>mp_page = Some (url_page sp), mp_per_page = Some (url_per_page sp),
      mp_status = or_undef (get_or ''status'' [] sp), mp_from = or_undef (get_or ''from'' [] sp),
      mp_to = or_undef (get_or ''to'' [] sp)\<rparr>"

definition workflow_list_params :: "url_params \<Rightarrow> workflow_params" where
  "workflow_list_params sp =
     \<lparr>wp_page = Some (url_page sp), wp_per_page = Some (url_per_page sp),
      wp_applicant_name = or_undef (get_or ''applicant_name'' [] sp)\<rparr>"

definition processed_list_params :: "url_params \<Rightarrow> jsnum \<times> jsnum" where
  "processed_list_params sp = (url_page sp, url_per_page sp)"

record all_filters =
  fl_status :: string
  fl_from :: string
  fl_to :: string
  fl_submitterId :: string

definition url_filters :: "url_params \<Rightarrow> all_filters" where
  "url_filters sp =
     \<lparr>fl_status = get_or ''status'' [] sp, fl_from = get_or ''from'' [] sp, fl_to = get_or ''to'' [] sp,
      fl_submitterId = get_or ''submitter_id'' [] sp\<rparr>"

definition or_undef_val :: "string \<Rightarrow> jsval" where
  "or_undef_val v = (if v = [] then Undefined else JStr v)"

definition all_list_params :: "url_params \<Rightarrow> all_reports_params" where
  "all_list_params sp =
     (let f = url_filters sp in
      \<lparr>ap_page = Some (url_page_clamped sp), ap_per_page = Some (url_per_page sp),
       ap_status = or_undef (fl_status f), ap_from = or_undef_val (fl_from f), ap_to = or_undef_val (fl_to f),
       ap_submitter_id = or_undef (fl_submitterId f)\<rparr>)"

definition has_active_filters :: "all_filters \<Rightarrow> bool" where
  "has_active_filters f \<longleftrightarrow> fl_status f \<noteq> [] \<or> fl_from f \<noteq> [] \<or> fl_to f \<noteq> [] \<or> fl_submitterId f \<noteq> []"

subsection \<open>Building the next URL\<close>

definition copy_params :: "url_params \<Rightarrow> url_params" where
  \<comment> \<open>\<open>new URLSearchParams(searchParams.toString())\<close>\<close>
  "copy_params sp = parse_search (search_string sp)"

definition navigate_params :: "url_params \<Rightarrow> url_params" where
  \<comment> \<open>\<open>setSearchParams(next)\<close>, then what \<open>useSearchParams\<close> reads from the new address\<close>
  "navigate_params next_params = parse_search (search_string next_params)"

definition set_or_delete :: "string \<Rightarrow> string \<Rightarrow> url_params \<Rightarrow> url_params" where
  \<comment> \<open>\<open>if (value) next.set(k, value) else next.delete(k)\<close>\<close>
  "set_or_delete k v ps = (if v \<noteq> [] then up_set k v ps else up_delete k ps)"

definition handlePageChange :: "int \<Rightarrow> url_params \<Rightarrow> url_params" where
  "handlePageChange newPage sp = navigate_params (up_set ''page'' (show_int newPage) (copy_params sp))"

definition handlePerPageChange :: "int \<Rightarrow> url_params \<Rightarrow> url_params" where
  "handlePerPageChange n sp =
     navigate_params (up_set ''page'' ''1'' (up_set ''per_page'' (show_int n) (copy_params sp)))"

definition handleStatusChange :: "string \<Rightarrow> url_params \<Rightarrow> url_params" where
  "handleStatusChange v sp =
     navigate_params (set_or_delete ''status'' v (up_set ''page'' ''1'' (copy_params sp)))"

definition handleFromChange :: "string \<Rightarrow> url_params \<Rightarrow> url_params" where
  "handleFromChange v sp =
     navigate_params (set_or_delete ''from'' v (up_set ''page'' ''1'' (copy_params sp)))"

definition handleToChange :: "string \<Rightarrow> url_params \<Rightarrow> url_params" where
  "handleToChange v sp =
     navigate_params (set_or_delete ''to'' v (up_set ''page'' ''1'' (copy_params sp)))"

definition handleFilterChange :: "all_filters \<Rightarrow> url_params \<Rightarrow> url_params" where
  "handleFilterChange f sp =
     navigate_params
       (set_or_delete ''submitter_id'' (fl_submitterId f)
         (set_or_delete ''to'' (fl_to f)
           (set_or_delete ''from'' (fl_from f)
             (set_or_delete ''status'' (fl_status f) (up_set ''page'' ''1'' (copy_params sp))))))"

definition applicant_url :: "string \<Rightarrow> url_params \<Rightarrow> url_params" where
  \<comment> \<open>the effect on the debounced name of the approval and payment lists\<close>
  "applicant_url name sp =
     navigate_params (set_or_delete ''applicant_name'' name (up_set ''page'' ''1'' (copy_params sp)))"

lemma copy_params_id [simp]: "copy_params sp = sp"
  by (simp add: copy_params_def parse_search_string)

lemma navigate_params_id [simp]: "navigate_params sp = sp"
  by (simp add: navigate_params_def parse_search_string)

lemma get_or_set [simp]: "get_or k d (up_set k' v ps) = (if k = k' then v else get_or k d ps)"
  by (simp add: get_or_def)

lemma get_or_delete [simp]: "get_or k d (up_delete k' ps) = (if k = k' then d else get_or k d ps)"
  by (simp add: get_or_def)

lemma up_get_set_or_delete [simp]:
  "up_get k (set_or_delete k' v ps) = (if k = k' then or_undef v else up_get k ps)"
  by (simp add: set_or_delete_def or_undef_def)

lemma get_or_set_or_delete [simp]:
  "get_or k [] (set_or_delete k' v ps) = (if k = k' then v else get_or k [] ps)"
  by (simp add: set_or_delete_def)

lemma url_page_set [simp]: "url_page (up_set k v ps) = (if k = ''page'' then parse_int v else url_page ps)"
  by (simp add: url_page_def)

lemma url_page_set_or_delete [simp]: "k \<noteq> ''page'' \<Longrightarrow> url_page (set_or_delete k v ps) = url_page ps"
  by (simp add: url_page_def get_or_def)

lemma url_per_page_cong: "up_get ''per_page'' ps = up_get ''per_page'' qs \<Longrightarrow> url_per_page ps = url_per_page qs"
  by (simp add: url_per_page_def)

lemma url_per_page_set [simp]:
  "k \<noteq> ''per_page'' \<Longrightarrow> url_per_page (up_set k v ps) = url_per_page ps"
  "k \<noteq> ''per_page'' \<Longrightarrow> url_per_page (set_or_delete k v ps) = url_per_page ps"
  "0 \<le> n \<Longrightarrow> url_per_page (up_set ''per_page'' (show_int n) ps) = Num n"
  by (simp_all add: url_per_page_def)

lemma url_page_clamped_set [simp]:
  "url_page_clamped (up_set ''page'' (show_int n) ps) = Num (max 1 n)"
  "url_page_clamped (up_set ''page'' ''1'' ps) = Num 1"
  "k \<noteq> ''page'' \<Longrightarrow> url_page_clamped (up_set k v ps) = url_page_clamped ps"
  "k \<noteq> ''page'' \<Longrightarrow> url_page_clamped (set_or_delete k v ps) = url_page_clamped ps"
  by (simp_all add: url_page_clamped_def)

lemmas url_handler_defs =
  handlePageChange_def handlePerPageChange_def handleStatusChange_def handleFromChange_def
  handleToChange_def handleFilterChange_def applicant_url_def

subsection \<open>The filters as an abstract state\<close>

text \<open>
  What the user does on the list of own reports, what it does to the URL, and what it means for the query.
\<close>

datatype filter_event = ToPage int | ToSize int | ToStatus string | ToFrom string | ToTo string

fun filter_url :: "filter_event \<Rightarrow> url_params \<Rightarrow> url_params" where
  "filter_url (ToPage n) = handlePageChange n"
| "filter_url (ToSize n) = handlePerPageChange n"
| "filter_url (ToStatus v) = handleStatusChange v"
| "filter_url (ToFrom v) = handleFromChange v"
| "filter_url (ToTo v) = handleToChange v"

fun filter_query :: "filter_event \<Rightarrow> my_reports_params \<Rightarrow> my_reports_params" where
  "filter_query (ToPage n) p = p\<lparr>mp_page := Some (Num n)\<rparr>"
| "filter_query (ToSize n) p = p\<lparr>mp_page := Some (Num 1), mp_per_page := Some (Num n)\<rparr>"
| "filter_query (ToStatus v) p = p\<lparr>mp_page := Some (Num 1), mp_status := or_undef v\<rparr>"
| "filter_query (ToFrom v) p = p\<lparr>mp_page := Some (Num 1), mp_from := or_undef v\<rparr>"
| "filter_query (ToTo v) p = p\<lparr>mp_page := Some (Num 1), mp_to := or_undef v\<rparr>"

fun event_ok :: "filter_event \<Rightarrow> bool" where
  \<comment> \<open>the page size selector offers no negative size\<close>
  "event_ok (ToSize n) \<longleftrightarrow> 0 \<le> n"
| "event_ok _ \<longleftrightarrow> True"

lemma filter_url_query:
  "event_ok e \<Longrightarrow> report_list_params (filter_url e sp) = filter_query e (report_list_params sp)"
  by (cases e) (simp_all add: url_handler_defs report_list_params_def)

subsection \<open>Properties\<close>

text \<open>
  C28. The URL implements the filters of the list of own reports. Whatever the user does, in whatever
  order, the query read back from the address is the one that the same actions give on the query
  itself: a filter or a page size changes that member and goes back to page 1, a page number changes only
  the page; other members, and what else the address holds, stay.
\<close>

theorem url_refines_filters:
  assumes "list_all event_ok es"
  shows "report_list_params (fold filter_url es sp) = fold filter_query es (report_list_params sp)"
  using assms by (induction es arbitrary: sp) (simp_all add: filter_url_query)

theorem url_refines_filters_witness:
  "qu_url (useMyReports (report_list_params
     (fold filter_url [ToStatus ''paid'', ToPage 3, ToSize 50] [(''page'', ''2'')]))) =
   ''/api/reports?page=1&per_page=50&status=paid''"
proof -
  let ?es = "[ToStatus ''paid'', ToPage 3, ToSize 50]"
  have "report_list_params (fold filter_url ?es [(''page'', ''2'')]) =
      fold filter_query ?es (report_list_params [(''page'', ''2'')])"
    by (rule url_refines_filters) simp
  then show ?thesis
    by (simp only:) code_simp
qed

text \<open>
  The filter bar of all reports and the address agree: after a change the filters read from the address
  are exactly the chosen ones, on page 1 and with the page size as before; changing the page or its size
  leaves the filters alone.
\<close>

theorem filter_bar_roundtrip:
  "url_filters (handleFilterChange f sp) = f \<and>
   url_page_clamped (handleFilterChange f sp) = Num 1 \<and>
   url_per_page (handleFilterChange f sp) = url_per_page sp \<and>
   url_filters (handlePageChange n sp) = url_filters sp \<and>
   url_page_clamped (handlePageChange n sp) = Num (max 1 n) \<and>
   url_filters (handlePerPageChange n sp) = url_filters sp \<and>
   url_page_clamped (handlePerPageChange n sp) = Num 1"
  by (simp add: url_handler_defs url_filters_def)

text \<open>
  Whatever the address says, the page size sent is a number and not negative, and the list of all
  reports asks for a page from 1 on, the one in the address when that is such a page; the other lists
  send what they read, even when it is no number.
\<close>

theorem page_numbers_from_url:
  "(\<exists>m \<ge> 0. url_per_page sp = Num m) \<and> (\<exists>n \<ge> 1. url_page_clamped sp = Num n) \<and>
   (case url_page sp of
      Num n \<Rightarrow> url_page_clamped sp = Num (max 1 n)
    | NaN \<Rightarrow> url_page_clamped sp = Num 1 \<and>
        set_num ''page'' (mp_page (report_list_params sp)) = [(''page'', ''NaN'')])"
  by (auto simp: url_per_page_def url_page_clamped_def url_page_def get_or_def report_list_params_def set_num_def
      split: option.splits jsnum.splits)


end
