(* ===== verification/List_Tables.thy ===== *)
theory List_Tables
  imports Report_Actions List_Url
begin

text \<open>
  The tables of the list pages (frontend/src/pages/reports/ReportListTable, ReportListHeader,
  CreateReportButton, admin/AllReportsTable, admin/AllReportsFilterBar, and the columns of the pages under
  workflow/), and what all list pages have in common: the result of their query, the redirect of users
  who may not see a list, and the pagination footer. Column headings and widths are left out.
\<close>

subsection \<open>Common parts\<close>

datatype list_event =
    EvPage
  | EvSize
  | EvRow string
  | EvCreate
  | EvStatus
  | EvFrom
  | EvTo
  | EvSubmitter
  | EvApplicant
  | EvReset
  | EvCloseToast
  | EvCloseNavToast

record 'r list_result =
  \<comment> \<open>what the query hook gives to a render: the page of data, if there is one, and the error\<close>
  lr_data :: "('r list \<times> pagination) option"
  lr_isLoading :: bool
  lr_error :: "js_error option"

definition lr_rows :: "('r, 'x) list_result_scheme \<Rightarrow> 'r list" where
  \<comment> \<open>\<open>data?.data ?? []\<close>\<close>
  "lr_rows lr = (case lr_data lr of Some (rs, _) \<Rightarrow> rs | None \<Rightarrow> [])"

definition lr_pagination :: "('r, 'x) list_result_scheme \<Rightarrow> pagination option" where
  "lr_pagination lr = map_option snd (lr_data lr)"

fun num_or_none :: "jsnum \<Rightarrow> int" where
  \<comment> \<open>a page that is no number selects no page of the pagination\<close>
  "num_or_none (Num n) = n"
| "num_or_none NaN = 0"

definition list_footer :: "('r, 'x) list_result_scheme \<Rightarrow> jsnum \<Rightarrow> jsnum \<Rightarrow> list_event jsx" where
  \<comment> \<open>the \<open>AppPaginationFooter\<close> of a list\<close>
  "list_footer lr p pp =
     (case lr_pagination lr of
        Some pg \<Rightarrow> appPaginationFooter (current_page pg) (total_pages pg) (per_page pg) DEFAULT_STANDARD_OPTIONS
          (lr_isLoading lr) (Some (total_count pg)) EvPage EvSize
      | None \<Rightarrow> appPaginationFooter (num_or_none p) 1 (num_or_none pp) DEFAULT_STANDARD_OPTIONS
          (lr_isLoading lr) None EvPage EvSize)"

definition date_or_dash :: "locale_format \<Rightarrow> string option \<Rightarrow> 'e jsx" where
  \<comment> \<open>\<open>value ? new Date(value).toLocaleDateString('ja-JP') : '-'\<close>\<close>
  "date_or_dash lc v =
     (case v of Some t \<Rightarrow> if t = [] then Txt ''-'' else Txt (lc_date lc t) | None \<Rightarrow> Txt ''-'')"

definition yen :: "locale_format \<Rightarrow> int \<Rightarrow> 'e jsx" where
  "yen lc n = Txt (''Y'' @ lc_number lc n)"

definition grid_row :: "string \<Rightarrow> list_event jsx list \<Rightarrow> list_event jsx" where
  "grid_row i cells = El ''row'' [(''onClick'', AEv (EvRow i))] cells"

subsection \<open>Own reports\<close>

record report_list_item =
  li_id :: string
  li_title :: string
  li_periodStart :: string
  li_periodEnd :: string
  li_totalAmount :: int
  li_status :: report_status
  li_createdAt :: string

definition report_list_row :: "locale_format \<Rightarrow> report_list_item \<Rightarrow> list_event jsx" where
  "report_list_row lc r =
     grid_row (li_id r)
       [Txt (li_title r), El ''span'' [] [Txt (li_periodStart r @ '' - '' @ li_periodEnd r)],
        yen lc (li_totalAmount r), statusChip (li_status r), date_or_dash lc (Some (li_createdAt r))]"

definition reportListTable ::
  "locale_format \<Rightarrow> report_list_item list \<Rightarrow> bool \<Rightarrow> bool \<Rightarrow> bool \<Rightarrow> list_event jsx option \<Rightarrow> list_event jsx" where
  \<comment> \<open>the flags: \<open>loading\<close>, and whether \<open>onRowClick\<close> and \<open>onCreateReport\<close> are given\<close>
  "reportListTable lc reports loading rowClick create footer =
     appDataGrid reports
       (\<lambda>r. case report_list_row lc r of
              El t as cs \<Rightarrow> El t (if rowClick then as else []) cs
            | x \<Rightarrow> x)
       loading ''There is no data''
       (Some (emptyState ''There are no expense reports yet. Create one to get started.''
         (if create then Some (''Create a report'', EvCreate) else None)))
       footer"

definition reportListHeader :: "list_event jsx" where
  "reportListHeader =
     El ''div'' [] [El ''h1'' [] [Txt ''My reports''],
       El ''Button'' [(''onClick'', AEv EvCreate)] [Txt ''+ Create a report'']]"

definition createReportButton :: "list_event jsx" where
  "createReportButton = El ''Button'' [(''onClick'', AEv EvCreate)] [Txt ''+ Create a report'']"

subsection \<open>All reports\<close>

definition all_reports_row :: "locale_format \<Rightarrow> all_report_row \<Rightarrow> list_event jsx" where
  "all_reports_row lc r =
     grid_row (ar_id r)
       [Txt (us_name (ar_submitter r)), Txt (ar_title r), yen lc (ar_total_amount r), statusChip (ar_status r),
        date_or_dash lc (ar_submitted_at r)]"

definition allReportsTable ::
  "locale_format \<Rightarrow> all_report_row list \<Rightarrow> bool \<Rightarrow> bool \<Rightarrow> list_event jsx option \<Rightarrow> list_event jsx" where
  "allReportsTable lc reports loading hasActiveFilters footer =
     (if loading then pageSkeleton SkTable None
      else appDataGrid reports (all_reports_row lc) False ''There is no data''
        (Some (emptyState
          (if hasActiveFilters then ''No report matches the filters. Change them and try again.''
           else ''No reports have been created yet.'') None))
        footer)"

definition status_options :: "(string \<times> string) list" where
  "status_options =
     [([], ''All''), (''draft'', ''Draft''), (''submitted'', ''Submitted''), (''approved'', ''Approved''),
      (''rejected'', ''Rejected''), (''paid'', ''Paid'')]"

definition date_range_error :: "all_filters \<Rightarrow> string option" where
  "date_range_error f =
     (if fl_from f \<noteq> [] \<and> fl_to f \<noteq> [] \<and> fl_to f < fl_from f
      then Some ''The start must not be after the end'' else None)"

definition plain_select :: "string \<Rightarrow> string \<Rightarrow> (string \<times> string) list \<Rightarrow> string \<Rightarrow> bool \<Rightarrow> select_props" where
  "plain_select n l opts v dis =
     \<lparr>se_name = n, se_label = l, se_options = opts, se_value = v, se_placeholder = None, se_errorMessage = None,
      se_required = False, se_disabled = dis, se_readOnly = False\<rparr>"

definition allReportsFilterBar :: "all_filters \<Rightarrow> user_summary list \<Rightarrow> bool \<Rightarrow> list_event jsx" where
  "allReportsFilterBar f members membersLoading =
     El ''Box'' [(''data-testid'', AStr ''all-reports-filter-bar'')]
       [appSelect (plain_select ''status'' ''Status'' status_options (fl_status f) False) EvStatus,
        El ''Box'' []
          [appDatePicker ''from'' ''Period (start)'' (fl_from f) None False False EvFrom,
           appDatePicker ''to'' ''Period (end)'' (fl_to f) (date_range_error f) False False EvTo],
        appSelect (plain_select ''submitterId'' ''Submitter''
          (([], ''All'') # map (\<lambda>m. (us_id m, us_name m)) members) (fl_submitterId f) membersLoading) EvSubmitter,
        when_jsx membersLoading (El ''span'' [(''data-testid'', AStr ''members-loading'')] [Txt ''Loading...''])]"

fun filter_bar_change :: "list_event \<Rightarrow> string \<Rightarrow> all_filters \<Rightarrow> all_filters" where
  \<comment> \<open>the argument of \<open>onFilterChange\<close> when a control takes a value\<close>
  "filter_bar_change EvStatus v f = f\<lparr>fl_status := v\<rparr>"
| "filter_bar_change EvFrom v f = f\<lparr>fl_from := v\<rparr>"
| "filter_bar_change EvTo v f = f\<lparr>fl_to := v\<rparr>"
| "filter_bar_change EvSubmitter v f = f\<lparr>fl_submitterId := v\<rparr>"
| "filter_bar_change _ v f = f"

subsection \<open>Workflow lists\<close>

definition submitter_name :: "'a workflow_row_scheme \<Rightarrow> string" where
  \<comment> \<open>\<open>report.submitter?.name ?? ''\<close>\<close>
  "submitter_name r = (case wr_submitter r of Some u \<Rightarrow> us_name u | None \<Rightarrow> [])"

definition approval_row :: "locale_format \<Rightarrow> pending_report \<Rightarrow> list_event jsx" where
  "approval_row lc r =
     grid_row (wr_id r)
       [Txt (submitter_name r), selfLabel (pr_is_own_report r), Txt (wr_title r), yen lc (wr_total_amount r),
        date_or_dash lc (Some (pr_submitted_at r))]"

definition payment_row :: "locale_format \<Rightarrow> payable_report \<Rightarrow> list_event jsx" where
  "payment_row lc r =
     grid_row (wr_id r)
       [Txt (submitter_name r), selfLabel (pb_is_own_report r), Txt (wr_title r), yen lc (wr_total_amount r),
        date_or_dash lc (Some (pb_approved_at r))]"

definition decisionBadge :: "report_decision \<Rightarrow> 'e jsx" where
  "decisionBadge d =
     El ''Chip'' [(''label'', AStr (if d = DecidedApproved then ''Approved'' else ''Rejected'')),
       (''color'', AStr (if d = DecidedApproved then ''success'' else ''error'')),
       (''data-testid'', AStr (''decision-badge-'' @ (if d = DecidedApproved then ''approved'' else ''rejected'')))] []"

definition processed_row :: "locale_format \<Rightarrow> processed_report \<Rightarrow> list_event jsx" where
  "processed_row lc r =
     grid_row (wr_id r)
       [Txt (submitter_name r), Txt (wr_title r), yen lc (wr_total_amount r), decisionBadge (pc_decision r),
        date_or_dash lc (Some (pc_decided_at r)), statusChip (pc_current_status r)]"

subsection \<open>Who may see a list\<close>

record navigation =
  nav_to :: string
  nav_toast :: "(toast_severity \<times> string) option"
  nav_replace :: bool

abbreviation forbidden_redirect :: navigation where
  "forbidden_redirect \<equiv>
     \<lparr>nav_to = ''/dashboard'', nav_toast = Some (TError, ''You are not allowed to open this page''),
      nav_replace = True\<rparr>"

abbreviation plain_nav :: "string \<Rightarrow> navigation" where
  "plain_nav p \<equiv> \<lparr>nav_to = p, nav_toast = None, nav_replace = False\<rparr>"

definition role_redirect :: "(role \<Rightarrow> bool) \<Rightarrow> auth_user option \<Rightarrow> navigation list" where
  \<comment> \<open>the effect on \<open>currentUser\<close>\<close>
  "role_redirect allowed user =
     (case user of Some u \<Rightarrow> if allowed (au_role u) then [] else [forbidden_redirect] | None \<Rightarrow> [])"

definition err_status :: "js_error \<Rightarrow> jsval" where
  \<comment> \<open>\<open>(error as { status?: number }).status\<close>\<close>
  "err_status e =
     (case e of ApiClientError _ st _ _ \<Rightarrow> JNum (int st)
      | OtherError _ _ \<Rightarrow> Undefined
      | NonError v \<Rightarrow> (case js_get v ''status'' of Inr w \<Rightarrow> w | Inl _ \<Rightarrow> Undefined))"

definition err_truthy :: "js_error \<Rightarrow> bool" where
  "err_truthy e = (case e of NonError v \<Rightarrow> js_truthy v | _ \<Rightarrow> True)"

definition is_403 :: "js_error option \<Rightarrow> bool" where
  "is_403 err = (case err of Some e \<Rightarrow> err_truthy e \<and> err_status e = JNum 403 | None \<Rightarrow> False)"

definition is_other_error :: "js_error option \<Rightarrow> bool" where
  "is_other_error err = (case err of Some e \<Rightarrow> err_truthy e \<and> err_status e \<noteq> JNum 403 | None \<Rightarrow> False)"

fun open_toasts :: "'e jsx \<Rightarrow> string list" where
  \<comment> \<open>the texts of the toasts that are open in what is rendered\<close>
  "open_toasts (El t as cs) =
     (if t = ''Snackbar'' then (if map_of as ''open'' = Some (ABool True) then concat (map texts_of cs) else [])
      else concat (map open_toasts cs))"
| "open_toasts (Txt s) = []"
| "open_toasts NullJsx = []"

lemma open_toasts_appToast [simp]: "open_toasts (appToast b sev m ev g) = (if b then [m] else [])"
  by (simp add: appToast_def)

lemma open_toasts_when [simp]: "open_toasts (when_jsx b x) = (if b then open_toasts x else [])"
  by simp

lemma offered_grid_row [simp]:
  "offered k (grid_row i cs) = (if k = ''onClick'' then [EvRow i] else []) @ concat (map (offered k) cs)"
  by (auto simp: grid_row_def own_events_def)

lemma open_toasts_footer [simp]: "open_toasts (list_footer lr p n) = []"
  by (simp add: list_footer_def appPaginationFooter_def Let_def appPagination_def pageSizeSelector_def
      split: option.splits)

lemma open_toasts_grid:
  assumes "\<And>r. r \<in> set rows \<Longrightarrow> open_toasts (f r) = []"
    and "\<And>x. noRows = Some x \<Longrightarrow> open_toasts x = []" "\<And>x. foot = Some x \<Longrightarrow> open_toasts x = []"
  shows "open_toasts (appDataGrid rows f b m noRows foot) = []"
  using assms by (auto simp: appDataGrid_def split: option.splits)

lemma open_toasts_skeleton [simp]: "open_toasts (pageSkeleton v n) = []"
  by (cases v) (auto simp: pageSkeleton_def tableSkeleton_def cardSkeleton_def formSkeleton_def skeleton_def)

lemma open_toasts_parts [simp]:
  "open_toasts (emptyState m a) = []" "open_toasts (statusChip st) = []" "open_toasts (selfLabel b) = []"
  "open_toasts (decisionBadge d) = []" "open_toasts (yen lc n) = []" "open_toasts (date_or_dash lc v) = []"
  by (auto simp: emptyState_def statusChip_def selfLabel_def decisionBadge_def yen_def date_or_dash_def
      split: option.splits prod.splits)

lemma open_toasts_rows [simp]:
  "open_toasts (grid_row i cs) = concat (map open_toasts cs)"
  "open_toasts (approval_row lc pr) = []" "open_toasts (payment_row lc pb) = []"
  "open_toasts (processed_row lc pc) = []" "open_toasts (all_reports_row lc ar) = []"
  "open_toasts (report_list_row lc li) = []"
  by (simp_all add: grid_row_def approval_row_def payment_row_def processed_row_def all_reports_row_def
      report_list_row_def)

lemma open_toasts_fields [simp]:
  "open_toasts (appSelect p ev) = []" "open_toasts (appDatePicker n l v e r d ev) = []"
  by (auto simp: appSelect_def appDatePicker_def concat_eq_Nil_conv split: option.splits)

end
