(* ===== verification/List_Pages.thy ===== *)
theory List_Pages
  imports List_Tables
begin

text \<open>
  Three list pages: own reports (frontend/src/pages/reports/ReportListPage), all reports of the tenant
  (admin/AllReportsPage) and processed reports (workflow/ProcessedReportsPage). A page is its state, one
  step per event (a handler, or an effect after the user or the result of the query changed), and what
  it renders from its state and the result of the query.
\<close>

subsection \<open>Own reports\<close>

record report_list =
  rl_url :: url_params
  rl_toastOpen :: bool
  rl_navToast :: "bool \<times> toast_severity \<times> string"
  rl_navs :: "navigation list"

datatype report_list_event =
    RFilter filter_event
  | RLocation "(toast_severity \<times> string) option"
  | RCloseError
  | RCloseNav
  | RCreate
  | RRow string

fun report_list_step :: "report_list_event \<Rightarrow> report_list \<Rightarrow> report_list" where
  "report_list_step (RFilter e) s = s\<lparr>rl_url := filter_url e (rl_url s)\<rparr>"
| "report_list_step (RLocation t) s =
     (case t of Some (sev, msg) \<Rightarrow> s\<lparr>rl_navToast := (True, sev, msg)\<rparr> | None \<Rightarrow> s)"
| "report_list_step RCloseError s = s\<lparr>rl_toastOpen := True\<rparr>"
| "report_list_step RCloseNav s = s\<lparr>rl_navToast := (False, snd (rl_navToast s))\<rparr>"
| "report_list_step RCreate s = s\<lparr>rl_navs := rl_navs s @ [plain_nav ''/reports/new'']\<rparr>"
| "report_list_step (RRow i) s = s\<lparr>rl_navs := rl_navs s @ [plain_nav (''/reports/'' @ i)]\<rparr>"

definition mounted_report_list :: "url_params \<Rightarrow> (toast_severity \<times> string) option \<Rightarrow> report_list" where
  "mounted_report_list sp t =
     report_list_step (RLocation t)
       \<lparr>rl_url = sp, rl_toastOpen = False, rl_navToast = (False, TSuccess, []), rl_navs = []\<rparr>"

definition report_list_query :: "report_list \<Rightarrow> query" where
  "report_list_query s = useMyReports (report_list_params (rl_url s))"

definition to_list_item :: "report_summary \<Rightarrow> report_list_item" where
  "to_list_item r =
     \<lparr>li_id = rs_id r, li_title = rs_title r, li_periodStart = rs_period_start r, li_periodEnd = rs_period_end r,
      li_totalAmount = rs_total_amount r, li_status = rs_status r, li_createdAt = rs_created_at r\<rparr>"

definition reportListPage :: "locale_format \<Rightarrow> report_summary list_result \<Rightarrow> report_list \<Rightarrow> list_event jsx" where
  "reportListPage lc lr s =
     (let sp = rl_url s in
      El ''Box'' []
        [(case lr_error lr of
            Some e \<Rightarrow> appToast (\<not> rl_toastOpen s) TError (message_or e ''The data could not be fetched'') EvCloseToast None
          | None \<Rightarrow> NullJsx),
         appToast (fst (rl_navToast s)) (fst (snd (rl_navToast s))) (snd (snd (rl_navToast s))) EvCloseNavToast None,
         El ''Box'' [(''data-testid'', AStr ''report-list-header'')]
           [El ''Typography'' [] [Txt ''My reports''],
            El ''Button'' [(''onClick'', AEv EvCreate)] [Txt ''+ Create a report'']],
         El ''Box'' [(''data-testid'', AStr ''report-list-filter'')]
           [appSelect (plain_select ''status'' ''Status'' status_options (get_or ''status'' [] sp) False) EvStatus,
            El ''Box'' []
              [El ''TextField'' [(''type'', AStr ''date''), (''value'', AStr (get_or ''from'' [] sp)),
                 (''onChange'', AEv EvFrom)] [Txt ''Start''],
               El ''TextField'' [(''type'', AStr ''date''), (''value'', AStr (get_or ''to'' [] sp)),
                 (''onChange'', AEv EvTo)] [Txt ''End'']]],
         (if lr_isLoading lr then pageSkeleton SkTable None
          else El ''Box'' [(''data-testid'', AStr ''report-list-table'')]
            [reportListTable lc (map to_list_item (lr_rows lr)) False True True
               (Some (list_footer lr (url_page sp) (url_per_page sp)))])])"

subsection \<open>All reports\<close>

record all_list =
  al_url :: url_params
  al_toastOpen :: bool
  al_toastMessage :: string
  al_navs :: "navigation list"

datatype all_list_event =
    AUser "auth_user option"
  | AError "js_error option"
  | AFilter all_filters
  | APage int
  | ASize int
  | ARow string
  | ACloseToast

definition may_see_all :: "role \<Rightarrow> bool" where
  "may_see_all r \<longleftrightarrow> \<not> (r \<noteq> Admin \<and> r \<noteq> Accounting)"

fun all_list_step :: "all_list_event \<Rightarrow> all_list \<Rightarrow> all_list" where
  "all_list_step (AUser u) s = s\<lparr>al_navs := al_navs s @ role_redirect may_see_all u\<rparr>"
| "all_list_step (AError err) s =
     (case err of
        Some (ApiClientError m status _ _) \<Rightarrow>
          let s1 = (if status = 403 then s\<lparr>al_navs := al_navs s @ [forbidden_redirect]\<rparr> else s)
          in if 500 \<le> status then s1\<lparr>al_toastMessage := m, al_toastOpen := True\<rparr> else s1
      | _ \<Rightarrow> s)"
| "all_list_step (AFilter f) s = s\<lparr>al_url := handleFilterChange f (al_url s)\<rparr>"
| "all_list_step (APage n) s = s\<lparr>al_url := handlePageChange n (al_url s)\<rparr>"
| "all_list_step (ASize n) s = s\<lparr>al_url := handlePerPageChange n (al_url s)\<rparr>"
| "all_list_step (ARow i) s = s\<lparr>al_navs := al_navs s @ [plain_nav (''/reports/'' @ i)]\<rparr>"
| "all_list_step ACloseToast s = s\<lparr>al_toastOpen := False\<rparr>"

definition mounted_all_list :: "url_params \<Rightarrow> auth_user option \<Rightarrow> js_error option \<Rightarrow> all_list" where
  "mounted_all_list sp user err =
     all_list_step (AError err) (all_list_step (AUser user)
       \<lparr>al_url = sp, al_toastOpen = False, al_toastMessage = [], al_navs = []\<rparr>)"

definition all_list_query :: "all_list \<Rightarrow> query" where
  "all_list_query s = useAllReports (all_list_params (al_url s))"

definition allReportsPage ::
  "locale_format \<Rightarrow> all_report_row list_result \<Rightarrow> user_summary list option \<Rightarrow> bool \<Rightarrow> all_list \<Rightarrow> list_event jsx" where
  "allReportsPage lc lr members membersLoading s =
     (let f = url_filters (al_url s) in
      El ''Fragment'' []
        [pageTitle ''All reports'',
         allReportsFilterBar f (case members of Some ms \<Rightarrow> ms | None \<Rightarrow> []) membersLoading,
         allReportsTable lc (lr_rows lr) (lr_isLoading lr) (has_active_filters f)
           (Some (list_footer lr (url_page_clamped (al_url s)) (url_per_page (al_url s)))),
         appToast (al_toastOpen s) TError (al_toastMessage s) EvCloseToast None])"

subsection \<open>Processed reports\<close>

record processed_list =
  pl_url :: url_params
  pl_toastOpen :: bool
  pl_navs :: "navigation list"

datatype processed_event =
    PUser "auth_user option"
  | PError "js_error option"
  | PPage int
  | PSize int
  | PRow string
  | PCloseToast

fun processed_step :: "processed_event \<Rightarrow> processed_list \<Rightarrow> processed_list" where
  "processed_step (PUser u) s = s\<lparr>pl_navs := pl_navs s @ role_redirect (\<lambda>r. r = Approver) u\<rparr>"
| "processed_step (PError err) s =
     (let s1 = (if is_403 err then s\<lparr>pl_navs := pl_navs s @ [forbidden_redirect]\<rparr> else s)
      in if is_other_error err then s1\<lparr>pl_toastOpen := True\<rparr> else s1)"
| "processed_step (PPage n) s = s\<lparr>pl_url := handlePageChange n (pl_url s)\<rparr>"
| "processed_step (PSize n) s = s\<lparr>pl_url := handlePerPageChange n (pl_url s)\<rparr>"
| "processed_step (PRow i) s = s\<lparr>pl_navs := pl_navs s @ [plain_nav (''/reports/'' @ i)]\<rparr>"
| "processed_step PCloseToast s = s\<lparr>pl_toastOpen := False\<rparr>"

definition mounted_processed :: "url_params \<Rightarrow> auth_user option \<Rightarrow> js_error option \<Rightarrow> processed_list" where
  "mounted_processed sp user err =
     processed_step (PError err) (processed_step (PUser user) \<lparr>pl_url = sp, pl_toastOpen = False, pl_navs = []\<rparr>)"

definition processed_query :: "processed_list \<Rightarrow> query" where
  "processed_query s =
     (case processed_list_params (pl_url s) of (p, n) \<Rightarrow> useProcessedReports (Some p) (Some n))"

definition processedReportsPage ::
  "locale_format \<Rightarrow> auth_user option \<Rightarrow> processed_report list_result \<Rightarrow> processed_list \<Rightarrow> list_event jsx" where
  "processedReportsPage lc user lr s =
     (case user of
        None \<Rightarrow> NullJsx
      | Some u \<Rightarrow>
          if au_role u \<noteq> Approver then NullJsx
          else El ''div'' [(''data-testid'', AStr ''processed-reports-page'')]
            [El ''div'' [] [El ''h1'' [] [Txt ''Processed reports'']],
             (if lr_isLoading lr then pageSkeleton SkTable None
              else appDataGrid (lr_rows lr) (processed_row lc) False ''There are no processed reports'' None
                (Some (list_footer lr (url_page (pl_url s)) (url_per_page (pl_url s))))),
             appToast (pl_toastOpen s) TError ''A server error occurred'' EvCloseToast None])"

subsection \<open>Properties\<close>

lemma report_list_toastOpen:
  "rl_toastOpen (fold report_list_step es s) \<longleftrightarrow> rl_toastOpen s \<or> RCloseError \<in> set es"
proof (induction es arbitrary: s)
  case (Cons e es)
  have "rl_toastOpen (report_list_step e s) \<longleftrightarrow> rl_toastOpen s \<or> e = RCloseError"
    by (cases e) (auto split: option.splits)
  with Cons show ?case by auto
qed simp

lemma open_toasts_tables [simp]:
  "open_toasts (reportListTable lc rs b rc cr (Some (list_footer lr p n))) = []"
  "open_toasts (allReportsTable lc rs' b act (Some (list_footer lr' p' n'))) = []"
  unfolding reportListTable_def allReportsTable_def
  by (auto intro!: open_toasts_grid simp: report_list_row_def grid_row_def)

text \<open>
  The list of own reports shows an error in a toast until the first time that such a toast is closed, and
  never again: however often the query fails afterwards, whatever the user does and whatever is still to
  be told from the page before, no further error is shown.
\<close>

theorem list_errors_shown_once:
  "open_toasts (reportListPage lc lr (fold report_list_step es (mounted_report_list sp t))) =
     (case lr_error lr of
        Some e \<Rightarrow> if RCloseError \<in> set es then [] else [message_or e ''The data could not be fetched'']
      | None \<Rightarrow> []) @
     (case rl_navToast (fold report_list_step es (mounted_report_list sp t)) of (b, _, m) \<Rightarrow> if b then [m] else [])"
proof -
  have m: "\<not> rl_toastOpen (mounted_report_list sp t)"
    by (auto simp: mounted_report_list_def split: option.splits)
  show ?thesis
    using report_list_toastOpen [of es "mounted_report_list sp t"] m
    by (auto simp: reportListPage_def Let_def split: option.splits prod.splits)
qed

text \<open>
  Of the errors of its query the list of all reports tells two kinds: 403 sends the user to the dashboard
  with a message, and an error from 500 on opens a toast with its message. Every other one - a rejected
  parameter, a network failure - changes nothing; and as there is no data, the page says that there
  are no reports.
\<close>

theorem all_reports_error_handling:
  assumes "lr_data lr = None" "\<not> lr_isLoading lr"
  shows "(case err of
       ApiClientError m status _ _ \<Rightarrow>
         if status = 403 then al_navs (all_list_step (AError (Some err)) s) = al_navs s @ [forbidden_redirect]
         else if 500 \<le> status
         then open_toasts (allReportsPage lc lr ms ml (all_list_step (AError (Some err)) s)) = [m]
         else all_list_step (AError (Some err)) s = s
     | _ \<Rightarrow> all_list_step (AError (Some err)) s = s) \<and>
    (if has_active_filters (url_filters (al_url s))
     then ''No report matches the filters. Change them and try again.''
     else ''No reports have been created yet.'') \<in> set (texts_of (allReportsPage lc lr ms ml s))"
proof
  show "case err of
       ApiClientError m status _ _ \<Rightarrow>
         if status = 403 then al_navs (all_list_step (AError (Some err)) s) = al_navs s @ [forbidden_redirect]
         else if 500 \<le> status
         then open_toasts (allReportsPage lc lr ms ml (all_list_step (AError (Some err)) s)) = [m]
         else all_list_step (AError (Some err)) s = s
     | _ \<Rightarrow> all_list_step (AError (Some err)) s = s"
    by (auto simp: allReportsPage_def allReportsFilterBar_def pageTitle_def Let_def split: js_error.splits)
  show "(if has_active_filters (url_filters (al_url s))
     then ''No report matches the filters. Change them and try again.''
     else ''No reports have been created yet.'') \<in> set (texts_of (allReportsPage lc lr ms ml s))"
    using assms
    by (simp add: allReportsPage_def allReportsTable_def appDataGrid_def emptyState_def lr_rows_def Let_def)
qed

theorem all_reports_error_handling_witness:
  "\<exists>s. all_list_step (AError (Some (ApiClientError ''bad per_page'' 422 JNull JNull))) s = s \<and>
     (\<exists>lc :: locale_format. ''No reports have been created yet.'' \<in> set (texts_of (allReportsPage lc
        \<lparr>lr_data = None, lr_isLoading = False, lr_error = Some (ApiClientError ''bad per_page'' 422 JNull JNull)\<rparr>
        None False s)))"
proof -
  let ?s = "mounted_all_list [(''per_page'', ''0'')] None None"
  have "\<not> has_active_filters (url_filters (al_url ?s))"
    by (simp add: mounted_all_list_def role_redirect_def has_active_filters_def url_filters_def get_or_def)
  then show ?thesis
    using all_reports_error_handling [of "\<lparr>lr_data = None, lr_isLoading = False,
      lr_error = Some (ApiClientError ''bad per_page'' 422 JNull JNull)\<rparr>"
      "ApiClientError ''bad per_page'' 422 JNull JNull" ?s _ None False]
    by (intro exI [of _ ?s]) auto
qed

end
