(* ===== verification/Workflow_List.thy ===== *)
theory Workflow_List
  imports List_Pages
begin

text \<open>
  The lists of reports that wait for approval and for payment (frontend/src/pages/workflow/ApprovalListPage
  and PaymentListPage). The two files have the same code but for the role, the query, the texts and one
  column; the model is one page with these as its parameters. Typing into the name filter arms a timer of
  300 ms; when it fires, the name becomes the debounced name, and an effect on the debounced name puts it
  into the URL. A navigation of the router may be rendered later than the other state changes of the
  same handler, so the effect can still see the URL from before.
\<close>

subsection \<open>State\<close>

record 'r workflow_kind =
  wk_role :: role
  wk_query :: "workflow_params \<Rightarrow> query"
  wk_testid :: string
  wk_title :: string
  wk_count :: string
  wk_empty :: string
  wk_row :: "locale_format \<Rightarrow> 'r \<Rightarrow> list_event jsx"

definition approval_kind :: "pending_report workflow_kind" where
  "approval_kind =
     \<lparr>wk_role = Approver, wk_query = usePendingReports, wk_testid = ''pending-approvals-page'',
      wk_title = ''Waiting for approval'', wk_count = '' reports are waiting for approval'',
      wk_empty = ''No reports are waiting for approval'', wk_row = approval_row\<rparr>"

definition payment_kind :: "payable_report workflow_kind" where
  "payment_kind =
     \<lparr>wk_role = Accounting, wk_query = usePayableReports, wk_testid = ''payable-reports-page'',
      wk_title = ''Waiting for payment'', wk_count = '' reports are waiting for payment'',
      wk_empty = ''No reports are waiting for payment'', wk_row = payment_row\<rparr>"

record workflow_list =
  wl_url :: url_params
  wl_input :: string
  wl_debounced :: string
  wl_timer :: "string option"
  wl_toastOpen :: bool
  wl_navs :: "navigation list"

definition workflow_query :: "'r workflow_kind \<Rightarrow> workflow_list \<Rightarrow> query" where
  "workflow_query k s = wk_query k (workflow_list_params (wl_url s))"

subsection \<open>Handlers and effects\<close>

definition url_effect :: "url_params \<Rightarrow> workflow_list \<Rightarrow> workflow_list" where
  \<comment> \<open>the effect on the debounced name, which sees the given URL\<close>
  "url_effect seen s = s\<lparr>wl_url := applicant_url (wl_debounced s) seen\<rparr>"

definition set_debounced :: "string \<Rightarrow> url_params \<Rightarrow> workflow_list \<Rightarrow> workflow_list" where
  "set_debounced v seen s =
     (if v = wl_debounced s then s else url_effect seen (s\<lparr>wl_debounced := v\<rparr>))"

definition set_input :: "string \<Rightarrow> workflow_list \<Rightarrow> workflow_list" where
  \<comment> \<open>\<open>setApplicantNameInput\<close> and the effect that starts the timer anew\<close>
  "set_input v s = (if v = wl_input s then s else s\<lparr>wl_input := v, wl_timer := Some v\<rparr>)"

definition timer_fires :: "workflow_list \<Rightarrow> workflow_list" where
  "timer_fires s =
     (case wl_timer s of None \<Rightarrow> s | Some v \<Rightarrow> set_debounced v (wl_url s) (s\<lparr>wl_timer := None\<rparr>))"

definition handleFilterReset :: "bool \<Rightarrow> workflow_list \<Rightarrow> workflow_list" where
  \<comment> \<open>the flag: the effect still sees the URL from before\<close>
  "handleFilterReset late s =
     (let s1 = (set_input [] s)\<lparr>wl_url := navigate_params []\<rparr>
      in set_debounced [] (if late then wl_url s else wl_url s1) s1)"

definition role_effect :: "'r workflow_kind \<Rightarrow> auth_user option \<Rightarrow> workflow_list \<Rightarrow> workflow_list" where
  "role_effect k user s = s\<lparr>wl_navs := wl_navs s @ role_redirect (\<lambda>r. r = wk_role k) user\<rparr>"

definition error_effects :: "js_error option \<Rightarrow> workflow_list \<Rightarrow> workflow_list" where
  "error_effects err s =
     (let s1 = (if is_403 err then s\<lparr>wl_navs := wl_navs s @ [forbidden_redirect]\<rparr> else s)
      in if is_other_error err then s1\<lparr>wl_toastOpen := True\<rparr> else s1)"

definition mounted_workflow ::
  "'r workflow_kind \<Rightarrow> url_params \<Rightarrow> auth_user option \<Rightarrow> js_error option \<Rightarrow> workflow_list" where
  "mounted_workflow k sp user err =
     (let name = get_or ''applicant_name'' [] sp in
      error_effects err
        (role_effect k user
          (url_effect sp
            \<lparr>wl_url = sp, wl_input = name, wl_debounced = name, wl_timer = Some name, wl_toastOpen = False,
             wl_navs = []\<rparr>)))"

datatype workflow_event =
    WType string
  | WTimer
  | WPage int
  | WSize int
  | WReset bool
  | WUser "auth_user option"
  | WError "js_error option"
  | WRow string
  | WCloseToast
  | WHistory url_params

fun workflow_step :: "'r workflow_kind \<Rightarrow> workflow_event \<Rightarrow> workflow_list \<Rightarrow> workflow_list" where
  "workflow_step k (WType v) s = set_input v s"
| "workflow_step k WTimer s = timer_fires s"
| "workflow_step k (WPage n) s = s\<lparr>wl_url := handlePageChange n (wl_url s)\<rparr>"
| "workflow_step k (WSize n) s = s\<lparr>wl_url := handlePerPageChange n (wl_url s)\<rparr>"
| "workflow_step k (WReset late) s = handleFilterReset late s"
| "workflow_step k (WUser u) s = role_effect k u s"
| "workflow_step k (WError err) s = error_effects err s"
| "workflow_step k (WRow i) s = s\<lparr>wl_navs := wl_navs s @ [plain_nav (''/reports/'' @ i)]\<rparr>"
| "workflow_step k WCloseToast s = s\<lparr>wl_toastOpen := False\<rparr>"
| "workflow_step k (WHistory sp) s = s\<lparr>wl_url := sp\<rparr>"

definition is_filtered :: "workflow_list \<Rightarrow> bool" where
  "is_filtered s \<longleftrightarrow> get_or ''applicant_name'' [] (wl_url s) \<noteq> []"

definition render_workflow ::
  "'r workflow_kind \<Rightarrow> locale_format \<Rightarrow> auth_user option \<Rightarrow> 'r list_result \<Rightarrow> workflow_list \<Rightarrow> list_event jsx" where
  "render_workflow k lc user lr s =
     (case user of
        None \<Rightarrow> NullJsx
      | Some u \<Rightarrow>
          if au_role u \<noteq> wk_role k then NullJsx
          else El ''div'' [(''data-testid'', AStr (wk_testid k))]
            [El ''div'' [] [El ''h1'' [] [Txt (wk_title k)]],
             El ''div'' []
               [El ''TextField'' [(''type'', AStr ''text''), (''value'', AStr (wl_input s)),
                  (''onChange'', AEv EvApplicant)] [Txt ''Submitter''],
                filterResetButton EvReset (is_filtered s)],
             (if lr_isLoading lr then pageSkeleton SkTable None
              else El ''Fragment'' []
                [when_jsx (0 < length (lr_rows lr))
                   (El ''p'' [] [Txt (show_int (case lr_pagination lr of Some pg \<Rightarrow> total_count pg | None \<Rightarrow> 0)
                      @ wk_count k)]),
                 appDataGrid (lr_rows lr) (wk_row k lc) False
                   (if is_filtered s then ''No report matches the filters'' else wk_empty k) None
                   (Some (list_footer lr (url_page (wl_url s)) (url_per_page (wl_url s))))]),
             appToast (wl_toastOpen s) TError ''A server error occurred'' EvCloseToast None])"

subsection \<open>The two pages\<close>

definition approval_step :: "workflow_event \<Rightarrow> workflow_list \<Rightarrow> workflow_list" where
  "approval_step = workflow_step approval_kind"

definition payment_step :: "workflow_event \<Rightarrow> workflow_list \<Rightarrow> workflow_list" where
  "payment_step = workflow_step payment_kind"

definition approvalListPage ::
  "locale_format \<Rightarrow> auth_user option \<Rightarrow> pending_report list_result \<Rightarrow> workflow_list \<Rightarrow> list_event jsx" where
  "approvalListPage = render_workflow approval_kind"

definition paymentListPage ::
  "locale_format \<Rightarrow> auth_user option \<Rightarrow> payable_report list_result \<Rightarrow> workflow_list \<Rightarrow> list_event jsx" where
  "paymentListPage = render_workflow payment_kind"

subsection \<open>The typed name and the URL\<close>

inductive workflow_move :: "'r workflow_kind \<Rightarrow> workflow_list \<Rightarrow> workflow_list \<Rightarrow> bool" for k where
  move: "workflow_move k s (workflow_step k e s)"

inductive_cases workflow_moveE: "workflow_move k s t"

definition workflow_start :: "'r workflow_kind \<Rightarrow> workflow_list \<Rightarrow> bool" where
  "workflow_start k s \<longleftrightarrow> (\<exists>sp user err. s = mounted_workflow k sp user err)"

definition searched_name :: "workflow_list \<Rightarrow> string option" where
  \<comment> \<open>the name that the query asks for\<close>
  "searched_name s = wp_applicant_name (workflow_list_params (wl_url s))"

definition name_inv :: "workflow_list \<Rightarrow> bool" where
  "name_inv s \<longleftrightarrow> (case wl_timer s of Some v \<Rightarrow> v = wl_input s | None \<Rightarrow> wl_debounced s = wl_input s)"

definition url_in_step :: "workflow_list \<Rightarrow> bool" where
  \<comment> \<open>the URL holds the debounced name; a step in the history may break this\<close>
  "url_in_step s \<longleftrightarrow> get_or ''applicant_name'' [] (wl_url s) = wl_debounced s"

lemmas name_defs = name_inv_def url_in_step_def

lemma effects_keep [simp]:
  "name_inv (s\<lparr>wl_navs := n\<rparr>) = name_inv s" "name_inv (s\<lparr>wl_toastOpen := b\<rparr>) = name_inv s"
  "name_inv (role_effect k u s) = name_inv s" "name_inv (error_effects err s) = name_inv s"
  "name_inv (s\<lparr>wl_url := sp\<rparr>) = name_inv s"
  "url_in_step (s\<lparr>wl_navs := n\<rparr>) = url_in_step s" "url_in_step (s\<lparr>wl_toastOpen := b\<rparr>) = url_in_step s"
  "url_in_step (role_effect k u s) = url_in_step s" "url_in_step (error_effects err s) = url_in_step s"
  by (simp_all add: name_defs role_effect_def error_effects_def Let_def split: option.splits)

lemma get_applicant [simp]:
  "get_or ''applicant_name'' [] (applicant_url v sp) = v"
  "get_or ''applicant_name'' [] (handlePageChange n sp) = get_or ''applicant_name'' [] sp"
  "get_or ''applicant_name'' [] (handlePerPageChange n sp) = get_or ''applicant_name'' [] sp"
  by (simp_all add: url_handler_defs)

lemma get_or_Nil [simp]: "get_or k d [] = d"
  by (simp add: get_or_def)

lemma start_in_step:
  assumes "workflow_start k s"
  shows "name_inv s" "url_in_step s"
  using assms by (auto simp: workflow_start_def mounted_workflow_def Let_def) (simp_all add: name_defs url_effect_def)

lemma name_inv_step: "name_inv s \<Longrightarrow> name_inv (workflow_step k e s)"
  by (cases e) (simp_all, auto simp: name_inv_def set_input_def timer_fires_def handleFilterReset_def Let_def
      set_debounced_def url_effect_def split: option.splits)

lemma url_in_step_kept:
  assumes "url_in_step s" "\<forall>sp. e \<noteq> WHistory sp"
  shows "url_in_step (workflow_step k e s)"
  using assms by (cases e) (simp_all, auto simp: url_in_step_def set_input_def timer_fires_def handleFilterReset_def
      Let_def set_debounced_def url_effect_def split: option.splits)

interpretation wn: invariant_system "workflow_start k" "workflow_move k" name_inv for k
  by unfold_locales (auto intro: start_in_step name_inv_step elim: workflow_moveE)

lemma after_timer:
  assumes "name_inv s"
  shows "wl_debounced (timer_fires s) = wl_input s" "wl_input (timer_fires s) = wl_input s" "wl_timer (timer_fires s) = None"
    "wl_url (timer_fires s) =
       (if wl_input s = wl_debounced s then wl_url s else applicant_url (wl_input s) (wl_url s))"
  using assms by (auto simp: name_inv_def timer_fires_def set_debounced_def url_effect_def split: option.splits)

lemma timer_searches:
  assumes "name_inv s" "url_in_step s \<or> wl_input s \<noteq> wl_debounced s"
  shows "searched_name (timer_fires s) = or_undef (wl_input s) \<and> url_in_step (timer_fires s)"
  using assms(2) unfolding url_in_step_def searched_name_def workflow_list_params_def after_timer [OF assms(1)] by auto

lemma typed_run:
  assumes "name_inv s" "url_in_step s" "\<forall>sp. WHistory sp \<notin> set es"
  shows "name_inv (fold (workflow_step k) es s) \<and> url_in_step (fold (workflow_step k) es s)"
  using assms
proof (induction es arbitrary: s)
  case (Cons e es)
  then have "name_inv (workflow_step k e s)" "url_in_step (workflow_step k e s)"
    by (auto intro: name_inv_step url_in_step_kept)
  with Cons show ?case by simp
qed simp

subsection \<open>Properties\<close>

text \<open>
  C27. What is typed is what is searched. In every reachable state of the approval or the payment list, steps in
  the history of the browser included, the timer of 300 ms makes the field's content the debounced
  name and keeps the page size. When this is a new name, the query then asks for exactly it, from
  page 1, also after a step in the history; when it is the old one, nothing else changes. From a mount, and
  again from each new name that took effect, whatever happens short of a step in the history, the
  query after the timer asks for exactly what is in the field. (After a step in the history the list shows
  the name of that URL, which the field does not, until a new name is typed.)
\<close>

theorem typed_name_is_searched:
  assumes "reach (workflow_start k) (workflow_move k) s"
  shows "(let t = timer_fires s in
       wl_input t = wl_input s \<and> wl_debounced t = wl_input s \<and> wl_timer t = None \<and>
       url_per_page (wl_url t) = url_per_page (wl_url s) \<and>
       (if wl_input s = wl_debounced s then wl_url t = wl_url s
        else searched_name t = or_undef (wl_input s) \<and> url_page (wl_url t) = Num 1)) \<and>
    (\<forall>u es. (workflow_start k u \<or> wl_input s \<noteq> wl_debounced s \<and> u = timer_fires s) \<and> (\<forall>sp. WHistory sp \<notin> set es) \<longrightarrow>
       (let v = fold (workflow_step k) es u in searched_name (timer_fires v) = or_undef (wl_input v)))"
proof (intro conjI allI impI)
  have inv: "name_inv s" by (rule wn.invariant [OF assms])
  show "let t = timer_fires s in
       wl_input t = wl_input s \<and> wl_debounced t = wl_input s \<and> wl_timer t = None \<and>
       url_per_page (wl_url t) = url_per_page (wl_url s) \<and>
       (if wl_input s = wl_debounced s then wl_url t = wl_url s
        else searched_name t = or_undef (wl_input s) \<and> url_page (wl_url t) = Num 1)"
    unfolding Let_def using timer_searches [OF inv] by (simp add: after_timer [OF inv] applicant_url_def)
  fix u es
  assume u: "(workflow_start k u \<or> wl_input s \<noteq> wl_debounced s \<and> u = timer_fires s) \<and> (\<forall>sp. WHistory sp \<notin> set es)"
  have "name_inv (timer_fires s)" using name_inv_step [OF inv, of k WTimer] by simp
  then have "name_inv u \<and> url_in_step u" using u start_in_step timer_searches [OF inv] by blast
  then show "let v = fold (workflow_step k) es u in searched_name (timer_fires v) = or_undef (wl_input v)"
    unfolding Let_def using typed_run u timer_searches by blast
qed

theorem typed_name_is_searched_witness:
  "\<exists>s. reach (workflow_start approval_kind) (workflow_move approval_kind) s \<and> wl_input s = ''Sato'' \<and>
     searched_name (timer_fires s) = Some ''Sato''"
proof -
  let ?start = "mounted_workflow approval_kind [(''page'', ''4'')] None None"
  let ?s = "workflow_step approval_kind (WType ''Sato'') ?start"
  have "workflow_start approval_kind ?start" by (auto simp: workflow_start_def)
  then have r0: "reach (workflow_start approval_kind) (workflow_move approval_kind) ?start"
    by (rule reach.reach_init)
  have mv: "workflow_move approval_kind ?start ?s" by (rule workflow_move.move)
  have r: "reach (workflow_start approval_kind) (workflow_move approval_kind) ?s"
    by (rule reach.reach_step [where s = ?start, OF r0 mv])
  have i: "wl_input ?s = ''Sato''" "wl_input ?s \<noteq> wl_debounced ?s"
    by (simp_all add: set_input_def mounted_workflow_def Let_def error_effects_def role_effect_def url_effect_def
        get_or_def is_403_def is_other_error_def)
  have "searched_name (timer_fires ?s) = or_undef (wl_input ?s)"
    using typed_name_is_searched [OF r, THEN conjunct1] i(2) unfolding Let_def by simp
  then show ?thesis using r i(1) by (intro exI [of _ ?s]) (simp add: or_undef_def)
qed

text \<open>
  Opening one of these lists always shows its first page: the effect that writes the name into the URL also
  runs when the page is mounted and sets the page to 1, so the page number of a bookmark, of a
  reload or of the way back from a report is lost; the page size and the name are kept.
\<close>

theorem mounting_resets_page:
  "url_page (wl_url (mounted_workflow k sp user err)) = Num 1 \<and>
   url_per_page (wl_url (mounted_workflow k sp user err)) = url_per_page sp \<and>
   get_or ''applicant_name'' [] (wl_url (mounted_workflow k sp user err)) = get_or ''applicant_name'' [] sp"
  by (simp add: mounted_workflow_def Let_def error_effects_def role_effect_def url_effect_def applicant_url_def)

text \<open>
  The reset button clears the filter, whenever the router renders its navigation: the field is empty, the list
  is not filtered and on page 1. The page size falls back to 20, unless the effect still sees the URL
  from before; then it is kept.
\<close>

theorem reset_clears_filter:
  "wl_input (handleFilterReset late s) = [] \<and> wl_debounced (handleFilterReset late s) = [] \<and>
   \<not> is_filtered (handleFilterReset late s) \<and> url_page (wl_url (handleFilterReset late s)) = Num 1 \<and>
   url_per_page (wl_url (handleFilterReset late s)) =
     (if late \<and> wl_debounced s \<noteq> [] then url_per_page (wl_url s) else Num 20)"
proof -
  have empty: "url_page [] = Num 1" "url_per_page [] = Num 20" "get_or ''applicant_name'' [] [] = []"
    by (simp_all add: url_page_def url_per_page_def get_or_def)
  then show ?thesis
    by (auto simp: handleFilterReset_def Let_def set_debounced_def url_effect_def set_input_def is_filtered_def
        applicant_url_def)
qed

lemma workflow_guard:
  "render_workflow k lc user lr s \<noteq> NullJsx \<longleftrightarrow> (\<exists>u. user = Some u \<and> au_role u = wk_role k)"
  by (cases user) (simp_all add: render_workflow_def)

lemma processed_guard:
  "processedReportsPage lc user lr p \<noteq> NullJsx \<longleftrightarrow> (\<exists>u. user = Some u \<and> au_role u = Approver)"
  by (cases user) (simp_all add: processedReportsPage_def)

text \<open>
  Nothing of a workflow list is rendered for anybody but the role it is for - approvers for the lists of
  pending and of processed reports, accounting for the list of payable ones -, not even while the user is
  still unknown; any other user is sent to the dashboard with a message as soon as the user is known.
\<close>

theorem workflow_lists_are_guarded:
  "(approvalListPage lc user lr s \<noteq> NullJsx \<longleftrightarrow> (\<exists>u. user = Some u \<and> au_role u = Approver)) \<and>
   (paymentListPage lc user lr' s \<noteq> NullJsx \<longleftrightarrow> (\<exists>u. user = Some u \<and> au_role u = Accounting)) \<and>
   (processedReportsPage lc user lr'' p \<noteq> NullJsx \<longleftrightarrow> (\<exists>u. user = Some u \<and> au_role u = Approver)) \<and>
   wl_navs (approval_step (WUser user) s) = wl_navs s @
     (case user of Some u \<Rightarrow> if au_role u = Approver then [] else [forbidden_redirect] | None \<Rightarrow> []) \<and>
   wl_navs (payment_step (WUser user) s) = wl_navs s @
     (case user of Some u \<Rightarrow> if au_role u = Accounting then [] else [forbidden_redirect] | None \<Rightarrow> []) \<and>
   pl_navs (processed_step (PUser user) p) = pl_navs p @
     (case user of Some u \<Rightarrow> if au_role u = Approver then [] else [forbidden_redirect] | None \<Rightarrow> [])"
  unfolding approvalListPage_def paymentListPage_def workflow_guard processed_guard
  by (cases user) (simp_all add: approval_kind_def payment_kind_def approval_step_def payment_step_def
      role_effect_def role_redirect_def)

text \<open>
  No error of these lists goes unnoticed: whatever the query throws, a 403 sends the user to the dashboard
  with a message, and for every other error the user of the right role sees the toast, also when it
  was closed after an earlier error.
\<close>

theorem workflow_errors_are_told:
  assumes "err_truthy e" "au_role u = wk_role k" "\<And>r. r \<in> set (lr_rows lr) \<Longrightarrow> open_toasts (wk_row k lc r) = []"
  shows "if err_status e = JNum 403 then wl_navs (workflow_step k (WError (Some e)) s) = wl_navs s @ [forbidden_redirect]
    else open_toasts (render_workflow k lc (Some u) lr (workflow_step k (WError (Some e)) s)) = [''A server error occurred'']"
proof -
  have "open_toasts (appDataGrid (lr_rows lr) (wk_row k lc) False m None (Some (list_footer lr p n))) = []" for m p n
    by (rule open_toasts_grid) (auto simp: assms(3))
  then show ?thesis
    using assms(1,2)
    by (simp add: error_effects_def is_403_def is_other_error_def Let_def render_workflow_def filterResetButton_def)
qed

theorem workflow_errors_are_told_witness:
  "\<forall>lc. \<exists>u s. au_role u = Approver \<and> open_toasts (approvalListPage lc (Some u)
      \<lparr>lr_data = None, lr_isLoading = False, lr_error = Some (OtherError ''TypeError'' ''Failed to fetch'')\<rparr>
      (approval_step (WError (Some (OtherError ''TypeError'' ''Failed to fetch''))) s)) = [''A server error occurred'']"
proof -
  let ?u = "\<lparr>au_id = ''1'', au_name = ''n'', au_email = ''e'', au_role = Approver, au_tenant_id = ''t'',
    au_tenant_name = ''t''\<rparr>"
  show ?thesis
    using workflow_errors_are_told [of "OtherError ''TypeError'' ''Failed to fetch''" ?u approval_kind
      "\<lparr>lr_data = None, lr_isLoading = False, lr_error = Some (OtherError ''TypeError'' ''Failed to fetch'')\<rparr>"]
    by (intro allI exI [of _ ?u]) (simp add: err_truthy_def err_status_def approval_kind_def approvalListPage_def
        approval_step_def lr_rows_def)
qed

text \<open>
  Going back in the history changes the URL, but not the field: the list is then filtered by a name that
  the field does not show, and no timer brings the two together.
\<close>

theorem history_leaves_field:
  assumes "wl_timer s = None"
  shows "wl_input (workflow_step k (WHistory sp) s) = wl_input s \<and>
    timer_fires (workflow_step k (WHistory sp) s) = workflow_step k (WHistory sp) s \<and>
    wp_applicant_name (workflow_list_params (wl_url (workflow_step k (WHistory sp) s))) =
      or_undef (get_or ''applicant_name'' [] sp)"
  using assms by (simp add: timer_fires_def workflow_list_params_def)

theorem history_leaves_field_witness:
  "wl_input (workflow_step approval_kind (WHistory [(''applicant_name'', ''Sato'')])
     ((mounted_workflow approval_kind [] None None)\<lparr>wl_timer := None\<rparr>)) = []"
  using history_leaves_field [of "(mounted_workflow approval_kind [] None None)\<lparr>wl_timer := None\<rparr>" approval_kind
    "[(''applicant_name'', ''Sato'')]"]
  by (simp add: mounted_workflow_def Let_def error_effects_def role_effect_def url_effect_def get_or_def
      is_403_def is_other_error_def)

end
