(* ===== verification/Report_Form.thy ===== *)
theory Report_Form
  imports List_Tables Error_Messages
begin

text \<open>
  The form of a report and the pages that create and edit one (frontend/src/components/report/: ReportForm,
  ReportPeriodField, ReportFormActions; pages/reports/ReportCreatePage, ReportEditPage). The form library is
  third-party; its documented behaviour for the mode onBlur with the revalidation onChange is: leaving a
  field validates that field until the form was submitted once, afterwards each change does;
  \<open>trigger\<close> validates the named fields; \<open>handleSubmit\<close> validates all and calls back with the values when
  there is no error; \<open>reset\<close> sets the values and forgets errors and submission. The schema library checks
  the refinements of an object also when the length of a member was wrong.
\<close>

subsection \<open>Values and schema\<close>

datatype report_field = FTitle | FStart | FEnd

record report_values =
  rv_title :: string
  rv_periodStart :: string
  rv_periodEnd :: string

abbreviation "blank_report \<equiv> \<lparr>rv_title = [], rv_periodStart = [], rv_periodEnd = []\<rparr>"

abbreviation "msg_title \<equiv> ''Enter a title''"
abbreviation "msg_title_max \<equiv> ''Enter a title of at most 200 characters''"
abbreviation "msg_start \<equiv> ''Enter the start''"
abbreviation "msg_end \<equiv> ''Enter the end''"
abbreviation "msg_start_order \<equiv> ''The start must not be after the end''"
abbreviation "msg_end_order \<equiv> ''The end must not be before the start''"

fun field_set :: "report_field \<Rightarrow> string \<Rightarrow> report_values \<Rightarrow> report_values" where
  "field_set FTitle x v = v\<lparr>rv_title := x\<rparr>"
| "field_set FStart x v = v\<lparr>rv_periodStart := x\<rparr>"
| "field_set FEnd x v = v\<lparr>rv_periodEnd := x\<rparr>"

definition period_in_order :: "report_values \<Rightarrow> bool" where
  \<comment> \<open>the predicate of both refinements\<close>
  "period_in_order v \<longleftrightarrow> rv_periodStart v = [] \<or> rv_periodEnd v = [] \<or> rv_periodStart v \<le> rv_periodEnd v"

fun reportFormSchema :: "report_values \<Rightarrow> report_field \<Rightarrow> string option" where
  \<comment> \<open>the first message of a field\<close>
  "reportFormSchema v FTitle =
     (if length (rv_title v) < 1 then Some msg_title
      else if 200 < length (rv_title v) then Some msg_title_max else None)"
| "reportFormSchema v FStart =
     (if length (rv_periodStart v) < 1 then Some msg_start
      else if \<not> period_in_order v then Some msg_start_order else None)"
| "reportFormSchema v FEnd =
     (if length (rv_periodEnd v) < 1 then Some msg_end
      else if \<not> period_in_order v then Some msg_end_order else None)"

definition report_valid :: "report_values \<Rightarrow> bool" where
  "report_valid v \<longleftrightarrow> list_all (\<lambda>f. reportFormSchema v f = None) [FTitle, FStart, FEnd]"

subsection \<open>The form\<close>

record report_form =
  rf_values :: report_values
  rf_errors :: "report_field \<Rightarrow> string option"
  rf_submitted :: bool
  rf_left :: "report_field list"

definition fresh_form :: "report_values \<Rightarrow> report_form" where
  "fresh_form v = \<lparr>rf_values = v, rf_errors = (\<lambda>_. None), rf_submitted = False, rf_left = []\<rparr>"

definition mounted_report_form :: "report_values option \<Rightarrow> report_form" where
  \<comment> \<open>\<open>defaultValues ?? DEFAULT_VALUES\<close>; the effect on given default values resets to the same\<close>
  "mounted_report_form d = fresh_form (case d of Some v \<Rightarrow> v | None \<Rightarrow> blank_report)"

definition defaults_effect :: "report_values option \<Rightarrow> report_form \<Rightarrow> report_form" where
  \<comment> \<open>the effect on a new \<open>defaultValues\<close>\<close>
  "defaults_effect d s = (case d of Some v \<Rightarrow> fresh_form v | None \<Rightarrow> s)"

definition validate :: "report_field list \<Rightarrow> report_form \<Rightarrow> report_form" where
  \<comment> \<open>run the schema and take over the errors of these fields\<close>
  "validate fs s =
     s\<lparr>rf_errors := (\<lambda>f. if f \<in> set fs then reportFormSchema (rf_values s) f else rf_errors s f)\<rparr>"

definition field_change :: "report_field \<Rightarrow> string \<Rightarrow> report_form \<Rightarrow> report_form" where
  "field_change f x s =
     (let s1 = s\<lparr>rf_values := field_set f x (rf_values s)\<rparr> in if rf_submitted s then validate [f] s1 else s1)"

definition field_onBlur :: "report_field \<Rightarrow> report_form \<Rightarrow> report_form" where
  "field_onBlur f s =
     (let s1 = s\<lparr>rf_left := f # rf_left s\<rparr> in if rf_submitted s then s1 else validate [f] s1)"

definition handlePeriodBlur :: "report_field \<Rightarrow> report_form \<Rightarrow> report_form" where
  "handlePeriodBlur f s =
     (let s1 = field_onBlur f s; v = rf_values s1 in
      if rv_periodStart v \<noteq> [] \<and> rv_periodEnd v \<noteq> [] then validate [FStart, FEnd] s1 else s1)"

definition field_blur :: "report_field \<Rightarrow> report_form \<Rightarrow> report_form" where
  "field_blur f s = (if f = FTitle then field_onBlur f s else handlePeriodBlur f s)"

definition report_handleSubmit :: "report_form \<Rightarrow> report_values option \<times> report_form" where
  \<comment> \<open>the values that \<open>onSubmit\<close> is called with, if it is\<close>
  "report_handleSubmit s =
     (let s1 = (validate [FTitle, FStart, FEnd] s)\<lparr>rf_submitted := True\<rparr>
      in (if report_valid (rf_values s) then Some (rf_values s) else None, s1))"

datatype report_form_event = FChange report_field string | FBlur report_field

fun form_edit :: "report_form_event \<Rightarrow> report_form \<Rightarrow> report_form" where
  "form_edit (FChange f x) s = field_change f x s"
| "form_edit (FBlur f) s = field_blur f s"

datatype form_ui = UiField | UiSubmit | UiCancel

definition reportPeriodField :: "string option \<Rightarrow> string option \<Rightarrow> bool \<Rightarrow> report_values \<Rightarrow> form_ui jsx" where
  "reportPeriodField startError endError disabled v =
     El ''Stack'' []
       [appDatePicker ''periodStart'' ''Start'' (rv_periodStart v) startError True disabled UiField,
        El ''Typography'' [] [Txt ''-''],
        appDatePicker ''periodEnd'' ''End'' (rv_periodEnd v) endError True disabled UiField]"

definition reportFormActions :: "string \<Rightarrow> bool \<Rightarrow> form_ui jsx" where
  "reportFormActions submitLabel loading =
     El ''Box'' []
       [El ''Button'' [(''onClick'', AEv UiCancel), (''disabled'', ABool loading)] [Txt ''Cancel''],
        submitButton submitLabel loading False (Some UiSubmit)]"

definition reportForm :: "string option \<Rightarrow> bool \<Rightarrow> string \<Rightarrow> report_form \<Rightarrow> form_ui jsx" where
  "reportForm apiError isPending submitLabel s =
     El ''form'' [(''noValidate'', ABool True)]
       [formAlert apiError ''error'',
        El ''Box'' [(''disabled'', ABool isPending)]
          [appTextField \<lparr>tf_name = ''title'', tf_label = ''Title'', tf_errorMessage = rf_errors s FTitle,
             tf_required = True, tf_rest = []\<rparr> UiField],
        reportPeriodField (rf_errors s FStart) (rf_errors s FEnd) isPending (rf_values s),
        reportFormActions submitLabel isPending]"

subsection \<open>Creating a report\<close>

datatype report_page_out =
    FoCreate create_report_input
  | FoUpdate update_report_input
  | FoInvalidate query_key
  | FoNav navigation

record create_page =
  cp_refId :: "string option"
  cp_apiError :: "string option"
  cp_defaults :: "report_values option"
  cp_form :: report_form
  cp_pending :: "create_report_input option"
  cp_outs :: "report_page_out list"

definition mounted_create :: "url_params \<Rightarrow> create_page" where
  "mounted_create sp =
     \<lparr>cp_refId = up_get ''ref'' sp, cp_apiError = None, cp_defaults = None,
      cp_form = mounted_report_form None, cp_pending = None, cp_outs = []\<rparr>"

definition values_of :: "report_detail \<Rightarrow> report_values" where
  "values_of r = \<lparr>rv_title = rd_title r, rv_periodStart = rd_period_start r, rv_periodEnd = rd_period_end r\<rparr>"

definition create_handleSubmit :: "report_values \<Rightarrow> create_page \<Rightarrow> create_page" where
  "create_handleSubmit data s =
     (let i = \<lparr>cr_title = rv_title data, cr_period_start = rv_periodStart data, cr_period_end = rv_periodEnd data,
               cr_reference_report_id = cp_refId s\<rparr>
      in s\<lparr>cp_apiError := None, cp_pending := Some i, cp_outs := cp_outs s @ [FoCreate i]\<rparr>)"

definition create_settles :: "js_error + string \<Rightarrow> create_page \<Rightarrow> create_page" where
  \<comment> \<open>the request answers: with an error, or with the id of the new report\<close>
  "create_settles res s =
     (case cp_pending s of
        None \<Rightarrow> s
      | Some i \<Rightarrow>
          (let s1 = s\<lparr>cp_pending := None\<rparr> in
           case res of
             Inl err \<Rightarrow> s1\<lparr>cp_apiError := Some (err_message err)\<rparr>
           | Inr rid \<Rightarrow> s1\<lparr>cp_outs := cp_outs s @ map FoInvalidate (mu_invalidates useCreateReport i) @
               [FoNav \<lparr>nav_to = ''/reports/'' @ rid, nav_toast = Some (TSuccess, ''The report was created''),
                  nav_replace = False\<rparr>]\<rparr>))"

datatype create_event =
    CEdit report_form_event
  | CSubmit
  | CCancel
  | CRefData report_detail
  | CSettles "js_error + string"

fun create_step :: "create_event \<Rightarrow> create_page \<Rightarrow> create_page" where
  "create_step (CEdit e) s = s\<lparr>cp_form := form_edit e (cp_form s)\<rparr>"
| "create_step CSubmit s =
     (case report_handleSubmit (cp_form s) of
        (Some data, f) \<Rightarrow> create_handleSubmit data (s\<lparr>cp_form := f\<rparr>)
      | (None, f) \<Rightarrow> s\<lparr>cp_form := f\<rparr>)"
| "create_step CCancel s = s\<lparr>cp_outs := cp_outs s @ [FoNav (plain_nav ''/reports'')]\<rparr>"
| "create_step (CRefData r) s =
     (let d = Some (values_of r) in s\<lparr>cp_defaults := d, cp_form := defaults_effect d (cp_form s)\<rparr>)"
| "create_step (CSettles res) s = create_settles res s"

definition reportCreatePage :: "create_page \<Rightarrow> form_ui jsx" where
  "reportCreatePage s =
     El ''Box'' [] [El ''Typography'' [] [Txt ''Create a report''],
       reportForm (cp_apiError s) (cp_pending s \<noteq> None) ''Create'' (cp_form s)]"

fun create_allowed :: "create_page \<Rightarrow> create_event \<Rightarrow> bool" where
  \<comment> \<open>the user submits with the button of the form; reference data arrives only for a reference\<close>
  "create_allowed s CSubmit \<longleftrightarrow> UiSubmit \<in> set (clickable (reportCreatePage s))"
| "create_allowed s CCancel \<longleftrightarrow> UiCancel \<in> set (clickable (reportCreatePage s))"
| "create_allowed s (CRefData r) \<longleftrightarrow> qu_enabled (useReport (cp_refId s))"
| "create_allowed s _ \<longleftrightarrow> True"

subsection \<open>Editing a report\<close>

record edit_page =
  ep_id :: string
  ep_user :: "auth_user option"
  ep_report :: "report_detail option"
  ep_isLoading :: bool
  ep_error :: "js_error option"
  ep_apiError :: "string option"
  ep_bodyToast :: "string option"
  ep_form :: "report_form option"
  ep_pending :: "update_report_input option"
  ep_dom :: "string list"
  ep_outs :: "report_page_out list"

definition shows_form :: "edit_page \<Rightarrow> bool" where
  "shows_form s \<longleftrightarrow> \<not> ep_isLoading s \<and> ep_error s = None \<and>
     (case ep_report s of
        None \<Rightarrow> False
      | Some r \<Rightarrow> rd_status r = Draft \<and>
          (case ep_user s of Some u \<Rightarrow> us_id (rd_submitter r) = au_id u | None \<Rightarrow> False))"

definition edit_commit :: "edit_page \<Rightarrow> edit_page" where
  \<comment> \<open>a render of the page: the form is mounted or gone; if it stays, it gets a new object of default
    values, and its effect resets it\<close>
  "edit_commit s =
     (if shows_form s
      then s\<lparr>ep_form := Some (case ep_form s of
             None \<Rightarrow> mounted_report_form (map_option values_of (ep_report s))
           | Some f \<Rightarrow> defaults_effect (map_option values_of (ep_report s)) f)\<rparr>
      else s\<lparr>ep_form := None\<rparr>)"

definition bodyToast :: "string option \<Rightarrow> edit_page \<Rightarrow> edit_page" where
  \<comment> \<open>the state that the effects of one commit leave, and the effect of \<open>BodyToast\<close> on a new message\<close>
  "bodyToast m s =
     (case m of
        None \<Rightarrow> s
      | Some x \<Rightarrow> if ep_bodyToast s = m then s else s\<lparr>ep_bodyToast := m, ep_dom := ep_dom s @ [x]\<rparr>)"

definition error_effect :: "edit_page \<Rightarrow> string option \<times> report_page_out list" where
  "error_effect s =
     (case ep_error s of
        None \<Rightarrow> (None, [])
      | Some e \<Rightarrow> (Some (message_or e msg_internal_error), [FoNav (plain_nav ''/reports'')]))"

definition owner_effect :: "edit_page \<Rightarrow> string option" where
  "owner_effect s =
     (case (ep_report s, ep_user s) of
        (Some r, Some u) \<Rightarrow> if us_id (rd_submitter r) \<noteq> au_id u then server_message ''FORBIDDEN'' else None
      | _ \<Rightarrow> None)"

definition draft_effect :: "edit_page \<Rightarrow> string option \<times> report_page_out list" where
  "draft_effect s =
     (case ep_report s of
        None \<Rightarrow> (None, [])
      | Some r \<Rightarrow> if rd_status r \<noteq> Draft
          then (server_message ''REPORT_NOT_EDITABLE'', [FoNav (plain_nav (''/reports/'' @ ep_id s))]) else (None, []))"

definition later :: "'a option \<Rightarrow> 'a option \<Rightarrow> 'a option" where
  \<comment> \<open>of two updates of a state in one batch the later one holds\<close>
  "later a b = (case b of Some x \<Rightarrow> Some x | None \<Rightarrow> a)"

definition edit_data :: "auth_user option \<Rightarrow> report_detail option \<Rightarrow> bool \<Rightarrow> js_error option \<Rightarrow> edit_page \<Rightarrow> edit_page" where
  \<comment> \<open>a render with new data of the queries, and the effects whose dependencies changed\<close>
  "edit_data user report loading err s =
     (let t = edit_commit (s\<lparr>ep_user := user, ep_report := report, ep_isLoading := loading, ep_error := err\<rparr>);
          e = (if err \<noteq> ep_error s then error_effect t else (None, []));
          ow = (if report \<noteq> ep_report s \<or> user \<noteq> ep_user s then owner_effect t else None);
          dr = (if report \<noteq> ep_report s then draft_effect t else (None, []));
          u = bodyToast (later (later (fst e) ow) (fst dr)) t
      in edit_commit (u\<lparr>ep_outs := ep_outs u @ snd e @ snd dr\<rparr>))"

definition mounted_edit :: "string \<Rightarrow> auth_user option \<Rightarrow> report_detail option \<Rightarrow> bool \<Rightarrow> js_error option \<Rightarrow> edit_page" where
  "mounted_edit i user report loading err =
     edit_data user report loading err
       \<lparr>ep_id = i, ep_user = None, ep_report = None, ep_isLoading = True, ep_error = None, ep_apiError = None,
        ep_bodyToast = None, ep_form = None, ep_pending = None, ep_dom = [], ep_outs = []\<rparr>"

definition edit_handleSubmit :: "report_values \<Rightarrow> edit_page \<Rightarrow> edit_page" where
  \<comment> \<open>the render in which \<open>isPending\<close> is set follows\<close>
  "edit_handleSubmit data s =
     (case ep_report s of
        None \<Rightarrow> s
      | Some r \<Rightarrow>
          (let i = \<lparr>ur_id = rd_id r, ur_title = rv_title data, ur_period_start = rv_periodStart data,
                    ur_period_end = rv_periodEnd data, ur_updated_at = rd_updated_at r\<rparr>
           in edit_commit (s\<lparr>ep_apiError := None, ep_pending := Some i, ep_outs := ep_outs s @ [FoUpdate i]\<rparr>)))"

definition update_error_text :: "js_error \<Rightarrow> string" where
  "update_error_text err =
     (case err of
        ApiClientError m _ _ _ \<Rightarrow> m
      | _ \<Rightarrow> if err_message err = [] then msg_internal_error else err_message err)"

definition edit_settles :: "js_error option \<Rightarrow> edit_page \<Rightarrow> edit_page" where
  \<comment> \<open>the request answers, with an error or not; the page renders again\<close>
  "edit_settles res s =
     (case ep_pending s of
        None \<Rightarrow> s
      | Some i \<Rightarrow>
          (let s1 = s\<lparr>ep_pending := None\<rparr> in
           case res of
             Some err \<Rightarrow> edit_commit (s1\<lparr>ep_apiError := Some (update_error_text err)\<rparr>)
           | None \<Rightarrow> edit_commit (s1\<lparr>ep_outs := ep_outs s @ map FoInvalidate (mu_invalidates useUpdateReport i) @
               [FoNav \<lparr>nav_to = ''/reports/'' @ ep_id s, nav_toast = Some (TSuccess, ''The report was updated''),
                  nav_replace = False\<rparr>]\<rparr>)))"

datatype edit_event =
    EdEdit report_form_event
  | EdSubmit
  | EdCancel
  | EdData "auth_user option" "report_detail option" bool "js_error option"
  | EdSettles "js_error option"

fun edit_step :: "edit_event \<Rightarrow> edit_page \<Rightarrow> edit_page" where
  "edit_step (EdEdit e) s = s\<lparr>ep_form := map_option (form_edit e) (ep_form s)\<rparr>"
| "edit_step EdSubmit s =
     (case ep_form s of
        None \<Rightarrow> s
      | Some f0 \<Rightarrow> (case report_handleSubmit f0 of
            (Some data, f) \<Rightarrow> edit_handleSubmit data (s\<lparr>ep_form := Some f\<rparr>)
          | (None, f) \<Rightarrow> s\<lparr>ep_form := Some f\<rparr>))"
| "edit_step EdCancel s = s\<lparr>ep_outs := ep_outs s @ [FoNav (plain_nav (''/reports/'' @ ep_id s))]\<rparr>"
| "edit_step (EdData u r l e) s = edit_data u r l e s"
| "edit_step (EdSettles res) s = edit_settles res s"

definition reportEditPage :: "edit_page \<Rightarrow> form_ui jsx" where
  "reportEditPage s =
     El ''Box'' []
       [when_jsx (ep_isLoading s) (pageSkeleton SkForm None),
        (if shows_form s
         then El ''Fragment'' [] [El ''Typography'' [] [Txt ''Edit the report''],
           (case ep_form s of
              Some f \<Rightarrow> reportForm (ep_apiError s) (ep_pending s \<noteq> None) ''Save'' f
            | None \<Rightarrow> NullJsx)]
         else NullJsx)]"

fun edit_allowed :: "edit_page \<Rightarrow> edit_event \<Rightarrow> bool" where
  "edit_allowed s EdSubmit \<longleftrightarrow> UiSubmit \<in> set (clickable (reportEditPage s))"
| "edit_allowed s EdCancel \<longleftrightarrow> UiCancel \<in> set (clickable (reportEditPage s))"
| "edit_allowed s _ \<longleftrightarrow> True"

inductive edit_reach :: "edit_page \<Rightarrow> bool" where
  edit_mounted: "edit_reach (mounted_edit i u r l e)"
| edit_event: "edit_reach s \<Longrightarrow> edit_allowed s ev \<Longrightarrow> edit_reach (edit_step ev s)"

subsection \<open>Validation\<close>

lemma report_valid_iff:
  "report_valid v \<longleftrightarrow> rv_title v \<noteq> [] \<and> length (rv_title v) \<le> 200 \<and> rv_periodStart v \<noteq> [] \<and>
     rv_periodEnd v \<noteq> [] \<and> rv_periodStart v \<le> rv_periodEnd v"
proof -
  have "length s < 1 \<longleftrightarrow> s = []" for s :: string by (cases s) auto
  then show ?thesis by (auto simp: report_valid_def period_in_order_def not_less)
qed

lemma iso_nonempty [simp]: "iso_date a \<noteq> []"
  using length_iso_date [of a] by (metis list.size(3) zero_neq_numeral)

inductive report_form_reach :: "report_form \<Rightarrow> bool" where
  rf_mounted: "report_form_reach (fresh_form v)"
| rf_edited: "report_form_reach s \<Longrightarrow> report_form_reach (form_edit e s)"
| rf_sent: "report_form_reach s \<Longrightarrow> report_form_reach (snd (report_handleSubmit s))"

definition order_error :: "report_field \<Rightarrow> string option" where
  "order_error f = (case f of FTitle \<Rightarrow> None | FStart \<Rightarrow> Some msg_start_order | FEnd \<Rightarrow> Some msg_end_order)"

definition calm :: "report_form \<Rightarrow> bool" where
  \<comment> \<open>before the first submission a field that was not left has at most the error about the order\<close>
  "calm s \<longleftrightarrow> rf_submitted s \<or> (\<forall>f. f \<in> set (rf_left s) \<or> rf_errors s f \<in> {None, order_error f})"

lemma calm_change: "calm s \<Longrightarrow> calm (field_change f x s)"
  by (auto simp: calm_def field_change_def Let_def validate_def)

lemma calm_onBlur: "calm s \<Longrightarrow> calm (field_onBlur f s)"
  by (auto simp: calm_def field_onBlur_def Let_def validate_def)

lemma calm_trigger:
  assumes "calm s" "rv_periodStart (rf_values s) \<noteq> []" "rv_periodEnd (rf_values s) \<noteq> []"
  shows "calm (validate [FStart, FEnd] s)"
proof -
  have "\<not> length x < 1" if "x \<noteq> []" for x :: string using that by (cases x) auto
  then have "reportFormSchema (rf_values s) f \<in> {None, order_error f}" if "f \<in> {FStart, FEnd}" for f
    using that assms(2,3) by (cases f) (simp_all add: order_error_def)
  with assms(1) show ?thesis by (auto simp: calm_def validate_def)
qed

lemma calm_blur: "calm s \<Longrightarrow> calm (field_blur f s)"
  using calm_onBlur [of s f] calm_trigger [of "field_onBlur f s"]
  by (auto simp: field_blur_def handlePeriodBlur_def Let_def)

lemma report_form_reach_calm: "report_form_reach s \<Longrightarrow> calm s"
proof (induction rule: report_form_reach.induct)
  case (rf_mounted v) then show ?case by (simp add: calm_def fresh_form_def)
next
  case (rf_edited s e) then show ?case by (cases e) (simp_all add: calm_change calm_blur)
next
  case (rf_sent s) then show ?case by (simp add: calm_def report_handleSubmit_def Let_def)
qed

lemma blur_values [simp]: "rf_values (field_blur f s) = rf_values s" "rf_values (field_onBlur f s) = rf_values s"
  by (simp_all add: field_blur_def handlePeriodBlur_def field_onBlur_def validate_def Let_def)

subsection \<open>Properties of the form\<close>

text \<open>
  What the form of a report accepts. A submission calls back, with exactly the values in the form, if and
  only if the title has 1 to 200 characters, both dates are given and the period starts no later than it
  ends - for ISO dates in the order of the calendar; otherwise every field shows its message, and a
  period in the wrong order is reported at both dates, also when the title is wrong.
\<close>

theorem report_form_accepts:
  assumes "printable_date a" "printable_date b"
    and "rf_values s = \<lparr>rv_title = t, rv_periodStart = iso_date a, rv_periodEnd = iso_date b\<rparr>"
  shows "fst (report_handleSubmit s) =
      (if 1 \<le> length t \<and> length t \<le> 200 \<and> a \<le> b then Some (rf_values s) else None) \<and>
    rf_errors (snd (report_handleSubmit s)) FTitle =
      (if t = [] then Some msg_title else if 200 < length t then Some msg_title_max else None) \<and>
    rf_errors (snd (report_handleSubmit s)) FStart = (if b < a then Some msg_start_order else None) \<and>
    rf_errors (snd (report_handleSubmit s)) FEnd = (if b < a then Some msg_end_order else None)"
proof -
  have o: "iso_date a \<le> iso_date b \<longleftrightarrow> \<not> b < a"
    using iso_date_less_iff [OF assms(2,1)] by (simp add: linorder_not_less [symmetric])
  have "length s < 1 \<longleftrightarrow> s = []" for s :: string by (cases s) auto
  moreover have "1 \<le> length t \<longleftrightarrow> t \<noteq> []" by (cases t) auto
  ultimately show ?thesis
    using assms(3) o
    by (auto simp: report_handleSubmit_def Let_def validate_def report_valid_iff period_in_order_def not_less)
qed

theorem report_form_accepts_witness:
  "fst (report_handleSubmit (fresh_form \<lparr>rv_title = ''trip'', rv_periodStart = iso_date (Civil 2026 4 1),
      rv_periodEnd = iso_date (Civil 2026 3 31)\<rparr>)) = None"
  using report_form_accepts [of "Civil 2026 4 1" "Civil 2026 3 31" "fresh_form \<lparr>rv_title = ''trip'',
      rv_periodStart = iso_date (Civil 2026 4 1), rv_periodEnd = iso_date (Civil 2026 3 31)\<rparr>" "''trip''"]
  by (simp add: fresh_form_def less_eq_civil_date_def)

text \<open>
  No error comes too early and none of the period is forgotten. In every reachable state before the first
  submission, a field that the user has not left shows no error but the one about the order of two given
  dates, and the title none; and when either date is left with both given, both show exactly what the
  schema says of the present values.
\<close>

theorem errors_are_timely:
  assumes "report_form_reach s"
  shows "(\<not> rf_submitted s \<and> f \<notin> set (rf_left s) \<longrightarrow>
      rf_errors s f = None \<or> f = FStart \<and> rf_errors s f = Some msg_start_order \<or>
      f = FEnd \<and> rf_errors s f = Some msg_end_order) \<and>
    (f \<noteq> FTitle \<and> rv_periodStart (rf_values s) \<noteq> [] \<and> rv_periodEnd (rf_values s) \<noteq> [] \<longrightarrow>
      rf_errors (field_blur f s) FStart = reportFormSchema (rf_values s) FStart \<and>
      rf_errors (field_blur f s) FEnd = reportFormSchema (rf_values s) FEnd)"
proof -
  have "calm s" by (rule report_form_reach_calm [OF assms])
  then have "\<not> rf_submitted s \<and> f \<notin> set (rf_left s) \<longrightarrow> rf_errors s f \<in> {None, order_error f}"
    by (auto simp: calm_def)
  moreover have "f \<noteq> FTitle \<and> rv_periodStart (rf_values s) \<noteq> [] \<and> rv_periodEnd (rf_values s) \<noteq> [] \<longrightarrow>
      rf_errors (field_blur f s) FStart = reportFormSchema (rf_values s) FStart \<and>
      rf_errors (field_blur f s) FEnd = reportFormSchema (rf_values s) FEnd"
    by (simp add: field_blur_def handlePeriodBlur_def Let_def) (simp add: validate_def)
  ultimately show ?thesis by (cases f) (auto simp: order_error_def)
qed

theorem errors_are_timely_witness:
  "rf_errors (field_blur FStart (field_change FStart ''2026-04-01'' (fresh_form blank_report))) FEnd = None"
proof -
  have "report_form_reach (form_edit (FBlur FStart) (form_edit (FChange FStart ''2026-04-01'') (fresh_form blank_report)))"
    by (intro rf_edited rf_mounted)
  from errors_are_timely [OF this, of FEnd]
  show ?thesis
    by (simp add: field_blur_def handlePeriodBlur_def field_onBlur_def field_change_def fresh_form_def validate_def Let_def)
qed

subsection \<open>Properties of the pages\<close>

lemma submit_button_offered:
  "UiSubmit \<in> set (clickable (reportForm apiError isPending l s)) \<longleftrightarrow> \<not> isPending"
  by (auto simp: reportForm_def reportPeriodField_def reportFormActions_def formAlert_def submitButton_def
      appTextField_def appDatePicker_def own_events_def ev_attr_def split: option.splits)

lemma edit_submit_offered:
  "UiSubmit \<in> set (clickable (reportEditPage s)) \<longleftrightarrow> shows_form s \<and> ep_form s \<noteq> None \<and> ep_pending s = None"
proof -
  have "clickable (pageSkeleton v n :: form_ui jsx) = []" for v n
    by (cases v) (auto simp: pageSkeleton_def tableSkeleton_def cardSkeleton_def formSkeleton_def skeleton_def own_events_def)
  then show ?thesis
    by (auto simp: reportEditPage_def own_events_def submit_button_offered split: option.splits)
qed

lemma edit_commit_sel [simp]:
  "ep_outs (edit_commit s) = ep_outs s" "ep_pending (edit_commit s) = ep_pending s" "ep_report (edit_commit s) = ep_report s"
  "ep_dom (edit_commit s) = ep_dom s" "ep_apiError (edit_commit s) = ep_apiError s" "ep_error (edit_commit s) = ep_error s"
  "ep_user (edit_commit s) = ep_user s" "ep_isLoading (edit_commit s) = ep_isLoading s" "ep_id (edit_commit s) = ep_id s"
  by (simp_all add: edit_commit_def)

lemma shows_form_commit [simp]: "shows_form (edit_commit s) = shows_form s"
  by (simp add: shows_form_def split: option.split)

lemma shows_form_updates [simp]:
  "shows_form (s\<lparr>ep_form := g\<rparr>) = shows_form s" "shows_form (s\<lparr>ep_apiError := a\<rparr>) = shows_form s"
  "shows_form (s\<lparr>ep_pending := p\<rparr>) = shows_form s" "shows_form (s\<lparr>ep_outs := os\<rparr>) = shows_form s"
  by (simp_all add: shows_form_def split: option.split)

lemma edit_commit_form:
  "shows_form s \<Longrightarrow> ep_form (edit_commit s) = Some (fresh_form (values_of (the (ep_report s))))"
  by (auto simp: edit_commit_def shows_form_def mounted_report_form_def defaults_effect_def split: option.splits)

lemma bodyToast_sel [simp]:
  "ep_outs (bodyToast m s) = ep_outs s" "ep_pending (bodyToast m s) = ep_pending s"
  by (simp_all add: bodyToast_def split: option.splits)

definition no_update :: "report_page_out list \<Rightarrow> bool" where
  "no_update xs \<longleftrightarrow> (\<forall>i. FoUpdate i \<notin> set xs)"

lemma no_update_effects [simp]: "no_update (snd (error_effect s))" "no_update (snd (draft_effect s))"
  by (auto simp: no_update_def error_effect_def draft_effect_def split: option.splits)

lemma edit_data_outs:
  "\<exists>xs. ep_outs (edit_data u r l e s) = ep_outs s @ xs \<and> no_update xs"
proof -
  have "no_update []" by (simp add: no_update_def)
  moreover have "no_update (xs @ ys)" if "no_update xs" "no_update ys" for xs ys
    using that by (auto simp: no_update_def)
  ultimately show ?thesis
    by (auto simp: edit_data_def Let_def)
qed

text \<open>
  C24. Only what may be edited is sent. Whatever happens on the edit page, in each of its states a step sends an
  update only if a report is loaded that is a draft of the user, no other update is in flight, and the
  values are valid; the update then carries the id and the version of that report and exactly the
  values in the form.
\<close>

theorem updates_are_permitted:
  assumes "edit_allowed s ev" "FoUpdate i \<in> set (drop (length (ep_outs s)) (ep_outs (edit_step ev s)))"
  shows "\<exists>r u f. ep_report s = Some r \<and> ep_user s = Some u \<and> rd_status r = Draft \<and>
    us_id (rd_submitter r) = au_id u \<and> ep_pending s = None \<and> ep_form s = Some f \<and> report_valid (rf_values f) \<and>
    i = \<lparr>ur_id = rd_id r, ur_title = rv_title (rf_values f), ur_period_start = rv_periodStart (rf_values f),
         ur_period_end = rv_periodEnd (rf_values f), ur_updated_at = rd_updated_at r\<rparr>"
proof (cases ev)
  case EdSubmit
  then obtain f where f: "shows_form s" "ep_pending s = None" "ep_form s = Some f"
    using assms(1) edit_submit_offered by auto
  then obtain r u where r: "ep_report s = Some r" "ep_user s = Some u" "rd_status r = Draft" "us_id (rd_submitter r) = au_id u"
    by (auto simp: shows_form_def split: option.splits)
  have "report_valid (rf_values f)"
    using assms(2) EdSubmit f by (auto simp: report_handleSubmit_def Let_def split: if_splits)
  moreover have "i = \<lparr>ur_id = rd_id r, ur_title = rv_title (rf_values f), ur_period_start = rv_periodStart (rf_values f),
         ur_period_end = rv_periodEnd (rf_values f), ur_updated_at = rd_updated_at r\<rparr>"
    using assms(2) EdSubmit f r calculation
    by (simp add: report_handleSubmit_def Let_def edit_handleSubmit_def)
  ultimately show ?thesis using f r by blast
next
  case (EdData u r l e)
  then show ?thesis using assms(2) edit_data_outs [of u r l e s] by (auto simp: no_update_def)
next
  case (EdSettles res)
  then show ?thesis using assms(2)
    by (cases "ep_pending s"; cases res) (auto simp: edit_settles_def Let_def)
qed (use assms(2) in simp_all)

text \<open>
  C25. A failed save loses the edits on the edit page, but not on the page that creates a report. On the edit page,
  the render that follows the submission already puts the stored values back into the form, and after
  the error the form shows them and the message, whatever was typed; the create page keeps the input.
\<close>

theorem failed_update_loses_edits:
  assumes "edit_allowed s EdSubmit" "ep_form s = Some f" "report_valid (rf_values f)" "ep_report s = Some r"
  shows "ep_form (edit_step EdSubmit s) = Some (fresh_form (values_of r)) \<and>
    ep_form (edit_step (EdSettles (Some err)) (edit_step EdSubmit s)) = Some (fresh_form (values_of r)) \<and>
    ep_apiError (edit_step (EdSettles (Some err)) (edit_step EdSubmit s)) = Some (update_error_text err) \<and>
    (\<forall>c. cp_form c = f \<longrightarrow> rf_values (cp_form (create_step (CSettles (Inl err)) (create_step CSubmit c))) = rf_values f)"
proof -
  have sh: "shows_form s" using assms(1) edit_submit_offered by auto
  have sub: "edit_step EdSubmit s = edit_handleSubmit (rf_values f) (s\<lparr>ep_form := Some (snd (report_handleSubmit f))\<rparr>)"
    using assms(2,3) by (simp add: report_handleSubmit_def Let_def)
  have first: "ep_form (edit_step EdSubmit s) = Some (fresh_form (values_of r))"
    "shows_form (edit_step EdSubmit s)" "ep_pending (edit_step EdSubmit s) \<noteq> None" "ep_report (edit_step EdSubmit s) = Some r"
    unfolding sub edit_handleSubmit_def using assms(4) sh
    by (simp_all add: Let_def edit_commit_form)
  obtain i where i: "ep_pending (edit_step EdSubmit s) = Some i" using first(3) by blast
  have second: "ep_form (edit_step (EdSettles (Some err)) (edit_step EdSubmit s)) = Some (fresh_form (values_of r))"
    "ep_apiError (edit_step (EdSettles (Some err)) (edit_step EdSubmit s)) = Some (update_error_text err)"
    using first(2,4) i
    by (simp_all add: edit_settles_def Let_def edit_commit_form del: edit_step.simps(2))
  have "rf_values (cp_form (create_step (CSettles (Inl err)) (create_step CSubmit c))) = rf_values (cp_form c)" for c
    by (simp add: create_settles_def create_handleSubmit_def report_handleSubmit_def validate_def Let_def
        split: option.splits)
  with first(1) second show ?thesis by auto
qed

lemma edit_data_form:
  "shows_form (edit_data u r l e s) \<Longrightarrow>
     ep_form (edit_data u r l e s) = Some (fresh_form (values_of (the (ep_report (edit_data u r l e s)))))"
  by (simp add: edit_data_def Let_def edit_commit_form)

definition sample_report :: "report_status \<Rightarrow> report_detail" where
  "sample_report st =
     \<lparr>rd_id = ''r1'', rd_title = ''Trip'', rd_period_start = ''2026-04-01'', rd_period_end = ''2026-04-30'',
      rd_status = st, rd_total_amount = 0, rd_submitter = \<lparr>us_id = ''u1'', us_name = ''Sato''\<rparr>,
      rd_reference_report_id = None, rd_submitted_at = None, rd_submitted_by = None, rd_approved_at = None, rd_approved_by = None,
      rd_approval_comment = None, rd_rejected_at = None, rd_rejected_by = None, rd_rejection_reason = None,
      rd_paid_at = None, rd_paid_by = None, rd_items = [], rd_created_at = ''c'', rd_updated_at = ''v7''\<rparr>"

definition sample_edit :: edit_page where
  "sample_edit = mounted_edit ''r1''
     (Some \<lparr>au_id = ''u1'', au_name = ''Sato'', au_email = ''e'', au_role = Member, au_tenant_id = ''t'',
        au_tenant_name = ''t''\<rparr>) (Some (sample_report Draft)) False None"

definition typed_edit :: edit_page where
  "typed_edit = edit_step (EdEdit (FChange FTitle ''Trip to Osaka'')) sample_edit"

lemma typed_edit_form:
  "ep_form typed_edit = Some (field_change FTitle ''Trip to Osaka'' (fresh_form (values_of (sample_report Draft))))"
  "ep_report typed_edit = Some (sample_report Draft)" "edit_allowed typed_edit EdSubmit"
proof -
  have sh: "shows_form sample_edit" "ep_pending sample_edit = None" "ep_report sample_edit = Some (sample_report Draft)"
    by code_simp+
  moreover have "ep_form sample_edit = Some (fresh_form (values_of (the (ep_report sample_edit))))"
    using sh(1) by (simp add: sample_edit_def mounted_edit_def edit_data_form)
  ultimately show "ep_form typed_edit = Some (field_change FTitle ''Trip to Osaka'' (fresh_form (values_of (sample_report Draft))))"
    "ep_report typed_edit = Some (sample_report Draft)" "edit_allowed typed_edit EdSubmit"
    by (simp_all add: typed_edit_def edit_submit_offered)
qed

lemma typed_edit_valid:
  "report_valid (rf_values (field_change FTitle ''Trip to Osaka'' (fresh_form (values_of (sample_report Draft)))))"
  by code_simp


theorem updates_are_permitted_witness:
  "\<exists>i. FoUpdate i \<in> set (ep_outs (edit_step EdSubmit typed_edit)) \<and> ur_updated_at i = ''v7'' \<and> ur_title i = ''Trip to Osaka''"
proof -
  have outs: "ep_outs typed_edit = []" by code_simp
  obtain i where i: "ep_outs (edit_step EdSubmit typed_edit) = [FoUpdate i]"
    using typed_edit_form typed_edit_valid outs
    by (simp add: report_handleSubmit_def edit_handleSubmit_def Let_def)
  then have "FoUpdate i \<in> set (drop (length (ep_outs typed_edit)) (ep_outs (edit_step EdSubmit typed_edit)))"
    using outs by simp
  from updates_are_permitted [OF typed_edit_form(3) this] i typed_edit_form show ?thesis
    by (auto simp: sample_report_def values_of_def fresh_form_def field_change_def)
qed

theorem failed_update_loses_edits_witness:
  "rf_values (the (ep_form (edit_step (EdSettles (Some (ApiClientError msg_conflict 409 JNull JNull)))
     (edit_step EdSubmit typed_edit)))) = values_of (sample_report Draft)"
  using failed_update_loses_edits [OF typed_edit_form(3) typed_edit_form(1) typed_edit_valid typed_edit_form(2)]
  by (simp add: fresh_form_def del: edit_step.simps)

lemma bodyToast_more [simp]:
  "ep_bodyToast (bodyToast m s) = (case m of None \<Rightarrow> ep_bodyToast s | Some x \<Rightarrow> m)"
  "shows_form (bodyToast m s) = shows_form s" "ep_report (bodyToast m s) = ep_report s"
  "ep_bodyToast (edit_commit s) = ep_bodyToast s"
  by (auto simp: bodyToast_def edit_commit_def shows_form_def split: option.splits)

lemma bodyToast_dom: "\<exists>ms. ep_dom (bodyToast m s) = ep_dom s @ ms"
  by (auto simp: bodyToast_def split: option.splits)

lemma edit_data_report [simp]: "ep_report (edit_data u r l e s) = r"
  by (simp add: edit_data_def Let_def)

lemma shows_form_data:
  "shows_form (edit_data u r l e s) \<longleftrightarrow> \<not> l \<and> e = None \<and>
     (\<exists>x y. r = Some x \<and> u = Some y \<and> rd_status x = Draft \<and> us_id (rd_submitter x) = au_id y)"
  by (auto simp: edit_data_def Let_def) (auto simp: shows_form_def split: option.splits)

text \<open>
  The messages of the edit page stay in the document: no step removes one.
\<close>

theorem body_toasts_stay:
  "\<exists>ms. ep_dom (edit_step ev s) = ep_dom s @ ms"
proof (cases ev)
  case (EdData u r l e)
  have "\<exists>ms. ep_dom (bodyToast m (edit_commit (s\<lparr>ep_user := u, ep_report := r, ep_isLoading := l, ep_error := e\<rparr>))) =
      ep_dom s @ ms" for m
    using bodyToast_dom [of m "edit_commit (s\<lparr>ep_user := u, ep_report := r, ep_isLoading := l, ep_error := e\<rparr>)"]
    by simp
  then show ?thesis using EdData by (simp add: edit_data_def Let_def)
qed (auto simp: edit_settles_def edit_handleSubmit_def Let_def split: option.splits prod.splits)

text \<open>
  Where the edit page leads. When the report and the user arrive, the form opens exactly for a draft of the user,
  with the values of the report. Otherwise: an error tells its message and leads to the list of reports;
  a report that is no draft tells so and leads to the report; the draft of somebody else tells that it is
  forbidden, and the page stays, without a form.
\<close>

theorem edit_page_entry:
  assumes "ep_report s = None" "ep_error s = None"
  shows "(shows_form (edit_data u r False e s) \<longrightarrow>
      ep_form (edit_data u r False e s) = map_option (\<lambda>x. fresh_form (values_of x)) r) \<and>
    (case (e, r) of
       (Some x, None) \<Rightarrow> ep_bodyToast (edit_data u r False e s) = Some (message_or x msg_internal_error) \<and>
         ep_outs (edit_data u r False e s) = ep_outs s @ [FoNav (plain_nav ''/reports'')]
     | (None, Some y) \<Rightarrow>
         if rd_status y \<noteq> Draft
         then ep_bodyToast (edit_data u r False e s) = server_message ''REPORT_NOT_EDITABLE'' \<and>
           ep_outs (edit_data u r False e s) = ep_outs s @ [FoNav (plain_nav (''/reports/'' @ ep_id s))]
         else ep_outs (edit_data u r False e s) = ep_outs s \<and>
           (case u of
              None \<Rightarrow> \<not> shows_form (edit_data u r False e s)
            | Some z \<Rightarrow>
                if us_id (rd_submitter y) = au_id z then shows_form (edit_data u r False e s)
                else \<not> shows_form (edit_data u r False e s) \<and>
                  ep_bodyToast (edit_data u r False e s) = server_message ''FORBIDDEN'')
     | _ \<Rightarrow> True)"
proof -
  let ?t = "edit_data u r False e s"
  have m: "server_message ''REPORT_NOT_EDITABLE'' \<noteq> None" "server_message ''FORBIDDEN'' \<noteq> None"
    by (simp_all add: server_message_def SERVER_ERROR_MESSAGES_def)
  have form: "shows_form ?t \<longrightarrow> ep_form ?t = map_option (\<lambda>x. fresh_form (values_of x)) r"
    using edit_data_form [of u r False e s] by (auto simp: shows_form_data)
  have err: "ep_bodyToast ?t = Some (message_or x msg_internal_error) \<and> ep_outs ?t = ep_outs s @ [FoNav (plain_nav ''/reports'')]"
    if "e = Some x" "r = None" for x
    using that assms
    by (simp add: edit_data_def Let_def later_def error_effect_def draft_effect_def owner_effect_def)
  have ok: "if rd_status y \<noteq> Draft
      then ep_bodyToast ?t = server_message ''REPORT_NOT_EDITABLE'' \<and>
        ep_outs ?t = ep_outs s @ [FoNav (plain_nav (''/reports/'' @ ep_id s))]
      else ep_outs ?t = ep_outs s \<and>
        (case u of
           None \<Rightarrow> \<not> shows_form ?t
         | Some z \<Rightarrow> if us_id (rd_submitter y) = au_id z then shows_form ?t
             else \<not> shows_form ?t \<and> ep_bodyToast ?t = server_message ''FORBIDDEN'')"
    if "e = None" "r = Some y" for y
    using that assms m shows_form_data [of u r False e s]
    by (auto simp: edit_data_def Let_def later_def error_effect_def draft_effect_def owner_effect_def
        split: option.splits)
  show ?thesis using form err ok by (cases e; cases r) simp_all
qed

theorem edit_page_entry_witness:
  "ep_outs (edit_data None (Some (sample_report Submitted)) False None
     (mounted_edit ''r1'' None None True None)) = [FoNav (plain_nav ''/reports/r1'')]"
proof -
  have s: "ep_report (mounted_edit ''r1'' None None True None) = None"
    "ep_error (mounted_edit ''r1'' None None True None) = None" "ep_outs (mounted_edit ''r1'' None None True None) = []"
    "ep_id (mounted_edit ''r1'' None None True None) = ''r1''"
    by code_simp+
  show ?thesis
    using edit_page_entry [OF s(1,2), of None "Some (sample_report Submitted)" None] s(3,4)
    by (simp add: sample_report_def)
qed

end
