(* ===== verification/Dashboard.thy ===== *)
theory Dashboard
  imports List_Pages
begin

text \<open>
  The dashboard (frontend/src/pages/dashboard/DashboardPage and components/dashboard/: CountCard,
  MyReportCountCards, TenantStatusCards, MonthlySummaryTable, RecentReportList, RecentReportRow) and the page of
  the tenant (pages/admin/TenantPage, TenantInfoCard, TenantInfoField, PhaseNotice): what each role
  sees, how errors are told, and who may see the tenant. Grids and styles are left out.
\<close>

subsection \<open>Strings\<close>

fun split_on :: "char \<Rightarrow> string \<Rightarrow> string list" where
  \<comment> \<open>\<open>s.split(c)\<close>\<close>
  "split_on d [] = [[]]"
| "split_on d (c # s) =
     (if c = d then [] # split_on d s
      else (case split_on d s of x # xs \<Rightarrow> (c # x) # xs | [] \<Rightarrow> [[c]]))"

definition formatYearMonth :: "string \<Rightarrow> string" where
  "formatYearMonth yearMonth =
     (let parts = split_on CHR ''-'' yearMonth;
          month = (if 1 < length parts then parts ! 1 else ''0'')
      in hd parts @ '' year '' @ jsnum_string (parse_int month) @ '' month'')"

definition formatDate :: "string \<Rightarrow> string" where
  "formatDate d = map (\<lambda>c. if c = CHR ''-'' then CHR ''/'' else c) d"

definition formatAmount :: "locale_format \<Rightarrow> int \<Rightarrow> string" where
  "formatAmount lc n = ''Y'' @ lc_number lc n"

subsection \<open>Cards\<close>

definition countCard :: "string \<Rightarrow> int \<Rightarrow> string option \<Rightarrow> string \<Rightarrow> string \<Rightarrow> 'e jsx" where
  "countCard label count target accentColor un =
     (let card = El ''Card'' [(''borderColor'', AStr accentColor)]
            [El ''Typography'' [] [Txt label], El ''Typography'' [] [Txt (show_int count)], El ''Typography'' [] [Txt un]]
      in if truthy_opt target then El ''Link'' [(''to'', AStr (the target))] [card] else card)"

definition report_card :: "string \<Rightarrow> int \<Rightarrow> string \<Rightarrow> string \<Rightarrow> 'e jsx" where
  \<comment> \<open>a card with the default unit\<close>
  "report_card label count target accentColor = countCard label count (Some target) accentColor ''items''"

definition myReportCountCards :: "int \<Rightarrow> int \<Rightarrow> int \<Rightarrow> 'e jsx list" where
  "myReportCountCards draftCount submittedCount rejectedCount =
     [report_card ''Draft'' draftCount ''/reports?status=draft'' ''default'',
      report_card ''Submitted'' submittedCount ''/reports?status=submitted'' ''default'',
      report_card ''Rejected'' rejectedCount ''/reports?status=rejected'' ''error'']"

definition tenantStatusCards :: "int \<Rightarrow> int \<Rightarrow> int \<Rightarrow> int \<Rightarrow> int \<Rightarrow> 'e jsx" where
  "tenantStatusCards draftCount submittedCount approvedCount rejectedCount paidCount =
     El ''Grid'' [(''data-testid'', AStr ''tenant-status-cards'')]
       [report_card ''Draft'' draftCount ''/reports/all?status=draft'' ''default'',
        report_card ''Submitted'' submittedCount ''/reports/all?status=submitted'' ''info'',
        report_card ''Approved'' approvedCount ''/reports/all?status=approved'' ''success'',
        report_card ''Rejected'' rejectedCount ''/reports/all?status=rejected'' ''error'',
        report_card ''Paid'' paidCount ''/reports/all?status=paid'' ''secondary'']"

subsection \<open>Tables\<close>

definition monthlySummaryTable :: "locale_format \<Rightarrow> monthly_summary list \<Rightarrow> 'e jsx" where
  "monthlySummaryTable lc items =
     El ''Box'' []
       [El ''Typography'' [] [Txt ''Monthly summary''],
        if items = [] then El ''Typography'' [] [Txt ''There is no data'']
        else El ''Table'' [(''aria-label'', AStr ''Monthly summary'')]
          [El ''TableHead'' [] [El ''TableCell'' [] [Txt ''Month''], El ''TableCell'' [] [Txt ''Total'']],
           El ''TableBody'' []
             (map (\<lambda>i. El ''TableRow'' [] [El ''TableCell'' [] [Txt (formatYearMonth (ms_year_month i))],
                El ''TableCell'' [] [Txt (formatAmount lc (ms_total_amount i))]]) items)]]"

definition recentReportRow :: "locale_format \<Rightarrow> recent_report \<Rightarrow> 'e jsx" where
  "recentReportRow lc r =
     El ''TableRow'' []
       [El ''TableCell'' [] [El ''Link'' [(''to'', AStr (''/reports/'' @ rr_id r))] [Txt (rr_title r)]],
        El ''TableCell'' [] [Txt (formatDate (rr_period_start r) @ '' - '' @ formatDate (rr_period_end r))],
        El ''TableCell'' [] [Txt (formatAmount lc (rr_total_amount r))],
        El ''TableCell'' [] [statusChip (rr_status r)]]"

definition recentReportList :: "locale_format \<Rightarrow> recent_report list \<Rightarrow> 'e jsx" where
  "recentReportList lc reports =
     El ''Box'' []
       [El ''Typography'' [] [Txt ''Recent reports''],
        (if reports = [] then emptyState ''There are no expense reports yet. Create one to get started.'' None
         else El ''Table'' [(''aria-label'', AStr ''Recent reports'')]
           [El ''TableHead'' [] (map (\<lambda>t. El ''TableCell'' [] [Txt t]) [''Title'', ''Period'', ''Amount'', ''Status'']),
            El ''TableBody'' [] (map (recentReportRow lc) reports)]),
        El ''Box'' [] [El ''Link'' [(''to'', AStr ''/reports'')] [Txt ''Show all reports'']]]"

subsection \<open>The page\<close>

definition or_zero :: "int option \<Rightarrow> int" where
  "or_zero n = (case n of Some x \<Rightarrow> x | None \<Rightarrow> 0)"

definition or_empty :: "'a list option \<Rightarrow> 'a list" where
  "or_empty xs = (case xs of Some ys \<Rightarrow> ys | None \<Rightarrow> [])"

definition my_cards :: "dashboard \<Rightarrow> 'e jsx list" where
  "my_cards d = myReportCountCards (or_zero (db_my_draft_count d)) (or_zero (db_my_submitted_count d))
     (or_zero (db_my_rejected_count d))"

definition dashboard_cards :: "role \<Rightarrow> dashboard \<Rightarrow> 'e jsx" where
  "dashboard_cards r d =
     (case r of
        Member \<Rightarrow> El ''Grid'' [(''data-testid'', AStr ''my-report-count-cards'')] (my_cards d)
      | Approver \<Rightarrow> El ''Grid'' [(''data-testid'', AStr ''approver-cards-row'')]
          (my_cards d @ [report_card ''Waiting for approval'' (or_zero (db_pending_approval_count d)) ''/approvals'' ''info''])
      | Accounting \<Rightarrow> El ''Grid'' [(''data-testid'', AStr ''accounting-cards-row'')]
          (my_cards d @ [report_card ''Waiting for payment'' (or_zero (db_pending_payment_count d)) ''/payments'' ''success''])
      | Admin \<Rightarrow> El ''Fragment'' []
          [tenantStatusCards (or_zero (db_tenant_draft_count d)) (or_zero (db_tenant_submitted_count d))
             (or_zero (db_tenant_approved_count d)) (or_zero (db_tenant_rejected_count d))
             (or_zero (db_tenant_paid_count d)),
           El ''Grid'' [(''data-testid'', AStr ''admin-member-count-cards'')]
             [countCard ''Members'' (or_zero (db_tenant_member_count d)) None ''default'' ''people'']])"

datatype dash_event = DCloseToast | DNothing

definition dashboard_toast :: "(toast_severity \<times> string) option \<Rightarrow> bool \<times> toast_severity \<times> string \<Rightarrow> bool \<times> toast_severity \<times> string" where
  \<comment> \<open>the effect on the location\<close>
  "dashboard_toast t s = (case t of Some (sev, m) \<Rightarrow> (True, sev, m) | None \<Rightarrow> s)"

definition close_dashboard_toast :: "bool \<times> toast_severity \<times> string \<Rightarrow> bool \<times> toast_severity \<times> string" where
  "close_dashboard_toast s = (False, snd s)"

definition dashboardPage ::
  "locale_format \<Rightarrow> bool \<Rightarrow> bool \<Rightarrow> js_error option \<Rightarrow> dashboard option \<Rightarrow> auth_user option \<Rightarrow>
     bool \<times> toast_severity \<times> string \<Rightarrow> dash_event jsx" where
  "dashboardPage lc dashboardLoading userLoading dashboardError data user toast =
     (if dashboardLoading \<or> userLoading then pageSkeleton SkCard None
      else case dashboardError of
        Some e \<Rightarrow> appToast True TError (err_message e) DNothing None
      | None \<Rightarrow>
          (case (data, user) of
             (Some d, Some u) \<Rightarrow>
               El ''div'' []
                 [appToast (fst toast) (fst (snd toast)) (snd (snd toast)) DCloseToast None,
                  dashboard_cards (au_role u) d,
                  when_jsx (au_role u = Approver \<or> au_role u = Accounting \<or> au_role u = Admin)
                    (El ''Box'' [] [monthlySummaryTable lc (or_empty (db_monthly_summary d))]),
                  when_jsx (au_role u = Member \<or> au_role u = Approver \<or> au_role u = Accounting)
                    (El ''Box'' [] [recentReportList lc (or_empty (db_recent_reports d))])]
           | _ \<Rightarrow> NullJsx))"

subsection \<open>The tenant\<close>

definition tenantInfoField :: "string \<Rightarrow> string \<Rightarrow> 'e jsx" where
  "tenantInfoField label val = El ''Box'' [] [El ''Typography'' [] [Txt label], El ''Typography'' [] [Txt val]]"

definition tenantInfoCard :: "tenant_info option \<Rightarrow> bool \<Rightarrow> nat option \<Rightarrow> 'e jsx" where
  \<comment> \<open>the last argument: the status of the error, when it is an error of the API\<close>
  "tenantInfoCard tenant loading err =
     (if loading then pageSkeleton SkCard None
      else case err of
        Some st \<Rightarrow> if st = 404 then El ''Card'' [] [El ''Typography'' [] [Txt ''The tenant was not found.'']] else NullJsx
      | None \<Rightarrow>
          (case tenant of
             None \<Rightarrow> NullJsx
           | Some t \<Rightarrow> El ''Card'' [] [tenantInfoField ''Company'' (ti_name t)]))"

definition phaseNotice :: "string \<Rightarrow> 'e jsx" where
  "phaseNotice m = El ''p'' [(''data-testid'', AStr ''phase-notice'')] [Txt m]"

record tenant_page =
  tp_toastOpen :: bool
  tp_toastMessage :: string
  tp_navs :: "navigation list"

datatype tenant_event = TnUser "auth_user option" | TnError "js_error option" | TnCloseToast

fun tenant_step :: "tenant_event \<Rightarrow> tenant_page \<Rightarrow> tenant_page" where
  "tenant_step (TnUser u) s = s\<lparr>tp_navs := tp_navs s @ role_redirect (\<lambda>r. r = Admin) u\<rparr>"
| "tenant_step (TnError err) s =
     (case err of
        Some (ApiClientError m status _ _) \<Rightarrow>
          let s1 = (if status = 403 then s\<lparr>tp_navs := tp_navs s @ [forbidden_redirect]\<rparr> else s)
          in if 500 \<le> status then s1\<lparr>tp_toastMessage := ''A server error occurred'', tp_toastOpen := True\<rparr> else s1
      | _ \<Rightarrow> s)"
| "tenant_step TnCloseToast s = s\<lparr>tp_toastOpen := False\<rparr>"

definition mounted_tenant :: "auth_user option \<Rightarrow> js_error option \<Rightarrow> tenant_page" where
  "mounted_tenant user err =
     tenant_step (TnError err) (tenant_step (TnUser user) \<lparr>tp_toastOpen = False, tp_toastMessage = [], tp_navs = []\<rparr>)"

definition api_status :: "js_error option \<Rightarrow> nat option" where
  \<comment> \<open>\<open>apiError\<close>: only errors of the API\<close>
  "api_status err = (case err of Some (ApiClientError _ st _ _) \<Rightarrow> Some st | _ \<Rightarrow> None)"

definition tenantPage :: "tenant_info option \<Rightarrow> bool \<Rightarrow> js_error option \<Rightarrow> tenant_page \<Rightarrow> list_event jsx" where
  "tenantPage tenant isLoading err s =
     El ''Fragment'' []
       [pageTitle ''Tenant'', tenantInfoCard tenant isLoading (api_status err),
        phaseNotice ''Editing the tenant will be added later.'',
        appToast (tp_toastOpen s) TError (tp_toastMessage s) EvCloseToast None]"

subsection \<open>Properties\<close>

fun links :: "'e jsx \<Rightarrow> string list" where
  \<comment> \<open>the targets of the links of what is rendered\<close>
  "links (El t as cs) = (case map_of as ''to'' of Some (AStr p) \<Rightarrow> [p] | _ \<Rightarrow> []) @ concat (map links cs)"
| "links (Txt s) = []"
| "links NullJsx = []"

lemma links_card [simp]:
  "links (countCard l n target c un) = (if truthy_opt target then [the target] else [])"
  by (simp add: countCard_def Let_def)

lemma dashboard_links:
  "links (dashboard_cards r d) =
     (case r of
        Admin \<Rightarrow> map (\<lambda>s. ''/reports/all?status='' @ s) [''draft'', ''submitted'', ''approved'', ''rejected'', ''paid'']
      | _ \<Rightarrow> map (\<lambda>s. ''/reports?status='' @ s) [''draft'', ''submitted'', ''rejected''] @
          (if r = Approver then [''/approvals''] else if r = Accounting then [''/payments''] else []))"
  by (cases r) (simp_all add: dashboard_cards_def my_cards_def myReportCountCards_def tenantStatusCards_def report_card_def)

lemma open_toasts_dashboard [simp]:
  "open_toasts (countCard l n target c un) = []"
  "open_toasts (dashboard_cards r x) = []"
  "open_toasts (monthlySummaryTable lc xs) = []"
  "open_toasts (recentReportList lc ys) = []"
proof -
  show cards: "open_toasts (countCard l n target c un) = []" for l n target c un
    by (simp add: countCard_def Let_def)
  show "open_toasts (dashboard_cards r x) = []"
    by (cases r) (simp_all add: dashboard_cards_def my_cards_def myReportCountCards_def tenantStatusCards_def
        report_card_def cards)
  show "open_toasts (monthlySummaryTable lc xs) = []"
    by (auto simp: monthlySummaryTable_def concat_eq_Nil_conv)
  show "open_toasts (recentReportList lc ys) = []"
    by (auto simp: recentReportList_def recentReportRow_def concat_eq_Nil_conv)
qed

text \<open>
  When the figures of the dashboard cannot be fetched, the error is all that is left: its toast is open whatever
  the user does, since closing it does nothing, and the message that a redirect brought along - why a page
  is forbidden - is not shown.
\<close>

theorem dashboard_error_hides_redirect_message:
  "open_toasts (dashboardPage lc False False (Some e) d u t) = [err_message e] \<and>
   offered ''onClose'' (dashboardPage lc False False (Some e) d u t) = [DNothing] \<and>
   (\<forall>x y. open_toasts (dashboardPage lc False False None (Some x) (Some y) (dashboard_toast (Some (sev, m)) t)) = [m])"
  by (simp add: dashboardPage_def dashboard_toast_def) (simp add: appToast_def own_events_def)

text \<open>
  The page of the tenant tells a 403 by a redirect, an error from 500 on by a toast and a 404 in its card; any
  other error, such as a network failure, leaves a page with its title and its notice only.
\<close>

theorem tenant_silent_errors:
  assumes "\<forall>st. api_status (Some e) = Some st \<longrightarrow> st \<noteq> 403 \<and> st \<noteq> 404 \<and> st < 500"
  shows "tenant_step (TnError (Some e)) s = s \<and>
    texts_of (tenantPage None False (Some e) s) =
      [''Tenant'', ''Editing the tenant will be added later.'', tp_toastMessage s] \<and>
    open_toasts (tenantPage None False (Some e) s) = (if tp_toastOpen s then [tp_toastMessage s] else [])"
  using assms
  by (cases e) (auto simp: api_status_def tenantPage_def tenantInfoCard_def pageTitle_def phaseNotice_def appToast_def)

theorem tenant_silent_errors_witness:
  "tenant_step (TnError (Some (OtherError ''TypeError'' ''Failed to fetch''))) (mounted_tenant None None) =
     mounted_tenant None None"
  using tenant_silent_errors [of "OtherError ''TypeError'' ''Failed to fetch''" "mounted_tenant None None"]
  by (simp add: api_status_def)

end
