(* ===== verification/App_Shell.thy ===== *)
theory App_Shell
  imports Workflow_List Dashboard Auth_Store
begin

text \<open>
  The frame around the pages (frontend/src/App.tsx; components/auth/PrivateRoute; components/layout/: AuthLayout,
  AppLayout, AppLayoutOutlet, AppHeader, AppSidebar; pages/error/NotFoundPage): the
  routes, the guard that sends visitors without a token to the login, the layout that fetches the user,
  and the navigation per role. Matching is the one the router documents: a path matches a pattern
  segment by segment, regardless of case and of slashes at the end, and of the patterns that match the
  most specific one is taken - static segments before parameters before the wildcard. Parameters are
  taken as they are in the path, without percent-decoding.
\<close>

subsection \<open>Routes\<close>

datatype page_name =
    PLogin
  | PSignup
  | PPasswordResetRequest
  | PPasswordReset
  | PHome
  | PDashboard
  | PReportList
  | PReportCreate
  | PAllReports
  | PReportDetail
  | PReportEdit
  | PApprovals
  | PProcessed
  | PPayments
  | PTenant
  | PNotFound

datatype segment = Static string | Param string | Splat

record route =
  rt_pattern :: "segment list"
  rt_page :: page_name
  rt_private :: bool

abbreviation public_route :: "segment list \<Rightarrow> page_name \<Rightarrow> route" where
  "public_route p n \<equiv> \<lparr>rt_pattern = p, rt_page = n, rt_private = False\<rparr>"

abbreviation private_route :: "segment list \<Rightarrow> page_name \<Rightarrow> route" where
  "private_route p n \<equiv> \<lparr>rt_pattern = p, rt_page = n, rt_private = True\<rparr>"

definition app_routes :: "route list" where
  "app_routes =
     [public_route [Static ''login''] PLogin,
      public_route [Static ''signup''] PSignup,
      public_route [Static ''password-reset''] PPasswordResetRequest,
      public_route [Static ''password-reset'', Param ''token''] PPasswordReset,
      private_route [] PHome,
      private_route [Static ''dashboard''] PDashboard,
      private_route [Static ''reports''] PReportList,
      private_route [Static ''reports'', Static ''new''] PReportCreate,
      private_route [Static ''reports'', Static ''all''] PAllReports,
      private_route [Static ''reports'', Param ''id''] PReportDetail,
      private_route [Static ''reports'', Param ''id'', Static ''edit''] PReportEdit,
      private_route [Static ''approvals''] PApprovals,
      private_route [Static ''approvals'', Static ''processed''] PProcessed,
      private_route [Static ''payments''] PPayments,
      private_route [Static ''settings'', Static ''tenant''] PTenant,
      private_route [Splat] PNotFound]"

definition path_segments :: "string \<Rightarrow> string list" where
  \<comment> \<open>of a path that starts with a slash, without the slashes at its end\<close>
  "path_segments p = rev (dropWhile (\<lambda>s. s = []) (rev (split_on CHR ''/'' (drop 1 p))))"

definition lower_char :: "char \<Rightarrow> char" where
  "lower_char c = (let n = of_char c :: nat in if 65 \<le> n \<and> n \<le> 90 then char_of (n + 32) else c)"

fun match_pattern :: "segment list \<Rightarrow> string list \<Rightarrow> (string \<times> string) list option" where
  "match_pattern [] [] = Some []"
| "match_pattern [Splat] _ = Some []"
| "match_pattern (Static s # ps) (x # xs) =
     (if map lower_char s = map lower_char x then match_pattern ps xs else None)"
| "match_pattern (Param k # ps) (x # xs) =
     (if x = [] then None else map_option (\<lambda>m. (k, x) # m) (match_pattern ps xs))"
| "match_pattern _ _ = None"

fun segment_score :: "segment \<Rightarrow> int" where
  "segment_score (Static _) = 11"
| "segment_score (Param _) = 4"
| "segment_score Splat = -1"

definition pattern_score :: "segment list \<Rightarrow> int" where
  "pattern_score ps = sum_list (map segment_score ps)"

fun better :: "(route \<times> (string \<times> string) list) \<Rightarrow> (route \<times> (string \<times> string) list) option \<Rightarrow>
    (route \<times> (string \<times> string) list) option" where
  "better x None = Some x"
| "better x (Some y) =
     (if pattern_score (rt_pattern (fst y)) \<le> pattern_score (rt_pattern (fst x)) then Some x else Some y)"

definition match_routes :: "route list \<Rightarrow> string \<Rightarrow> (route \<times> (string \<times> string) list) option" where
  "match_routes rs p =
     foldr (\<lambda>r acc. case match_pattern (rt_pattern r) (path_segments p) of Some m \<Rightarrow> better (r, m) acc | None \<Rightarrow> acc) rs None"

subsection \<open>Guards of the routes\<close>

datatype shell_view =
    ShowAuthPage page_name
  | ShowInLayout page_name "(string \<times> string) list"
  | NavigateTo string "string option"

definition authLayout :: "auth_store \<Rightarrow> page_name \<Rightarrow> shell_view" where
  \<comment> \<open>the layout of all public pages\<close>
  "authLayout a p = (if useAuth a then NavigateTo ''/dashboard'' None else ShowAuthPage p)"

definition privateRoute :: "auth_store \<Rightarrow> string \<Rightarrow> string \<Rightarrow> shell_view \<Rightarrow> shell_view" where
  \<comment> \<open>the target of a redirect and the \<open>from\<close> of its state\<close>
  "privateRoute a pathname search outlet =
     (if \<not> useAuth a then NavigateTo ''/login'' (Some (pathname @ search)) else outlet)"

definition app_view :: "auth_store \<Rightarrow> string \<Rightarrow> string \<Rightarrow> shell_view option" where
  "app_view a pathname search =
     (case match_routes app_routes pathname of
        None \<Rightarrow> None
      | Some (r, m) \<Rightarrow>
          Some (if rt_private r
            then privateRoute a pathname search
              (if rt_page r = PHome then NavigateTo ''/dashboard'' None else ShowInLayout (rt_page r) m)
            else authLayout a (rt_page r)))"

definition notFoundPage :: "'e jsx" where
  "notFoundPage =
     El ''Box'' [(''data-testid'', AStr ''not-found-page'')]
       [El ''Typography'' [] [Txt ''The page was not found''],
        El ''Typography'' [] [Txt ''The URL may be wrong, or the page may have moved.''],
        El ''Box'' [] [El ''Link'' [(''data-testid'', AStr ''not-found-dashboard-link''), (''to'', AStr ''/dashboard'')]
          [Txt ''Back to the dashboard'']]]"

subsection \<open>The sidebar\<close>

record nav_item =
  ni_label :: string
  ni_path :: string
  ni_roles :: "role list"

definition NAV_ITEMS :: "nav_item list" where
  "NAV_ITEMS =
     [\<lparr>ni_label = ''Dashboard'', ni_path = ''/dashboard'', ni_roles = [Admin, Approver, Member, Accounting]\<rparr>,
      \<lparr>ni_label = ''My reports'', ni_path = ''/reports'', ni_roles = [Admin, Approver, Member, Accounting]\<rparr>,
      \<lparr>ni_label = ''Create a report'', ni_path = ''/reports/new'', ni_roles = [Admin, Approver, Member, Accounting]\<rparr>,
      \<lparr>ni_label = ''Waiting for approval'', ni_path = ''/approvals'', ni_roles = [Approver]\<rparr>,
      \<lparr>ni_label = ''Processed'', ni_path = ''/approvals/processed'', ni_roles = [Approver]\<rparr>,
      \<lparr>ni_label = ''Waiting for payment'', ni_path = ''/payments'', ni_roles = [Accounting]\<rparr>,
      \<lparr>ni_label = ''All reports'', ni_path = ''/reports/all'', ni_roles = [Accounting, Admin]\<rparr>,
      \<lparr>ni_label = ''Tenant'', ni_path = ''/settings/tenant'', ni_roles = [Admin]\<rparr>]"

definition visible_items :: "role \<Rightarrow> nav_item list" where
  "visible_items r = filter (\<lambda>i. r \<in> set (ni_roles i)) NAV_ITEMS"

definition starts_with :: "string \<Rightarrow> string \<Rightarrow> bool" where
  "starts_with s p \<longleftrightarrow> take (length p) s = p"

definition is_active :: "string \<Rightarrow> nav_item \<Rightarrow> bool" where
  "is_active currentPath i \<longleftrightarrow>
     (if ni_path i = ''/dashboard'' then currentPath = ''/dashboard'' else starts_with currentPath (ni_path i))"

datatype shell_event = ShClose | ShToggle | ShLogout | ShOpenMenu | ShCloseMenu

definition drawer_content :: "role \<Rightarrow> string \<Rightarrow> shell_event jsx" where
  "drawer_content r currentPath =
     El ''List'' []
       (map (\<lambda>i. El ''ListItemButton'' [(''to'', AStr (ni_path i)), (''selected'', ABool (is_active currentPath i)),
            (''onClick'', AEv ShClose),
            (''aria-current'', if is_active currentPath i then AStr ''page'' else AUndef)] [Txt (ni_label i)])
         (visible_items r))"

definition appSidebar :: "role \<Rightarrow> string \<Rightarrow> bool \<Rightarrow> shell_event jsx" where
  "appSidebar r currentPath isOpen =
     El ''Box'' [(''component'', AStr ''nav'')]
       [El ''Drawer'' [(''variant'', AStr ''temporary''), (''open'', ABool isOpen), (''onClose'', AEv ShClose)]
          [drawer_content r currentPath],
        El ''Drawer'' [(''variant'', AStr ''permanent''), (''open'', ABool True)] [drawer_content r currentPath]]"

subsection \<open>The header\<close>

fun roleLabels :: "role \<Rightarrow> string" where
  "roleLabels Admin = ''Administrator''"
| "roleLabels Approver = ''Approver''"
| "roleLabels Member = ''Member''"
| "roleLabels Accounting = ''Accounting''"

definition appHeader :: "string \<Rightarrow> role \<Rightarrow> bool \<Rightarrow> shell_event jsx" where
  \<comment> \<open>the last argument: the user menu is open (\<open>anchorEl\<close>)\<close>
  "appHeader name r menuOpen =
     (let who = name @ '' ('' @ roleLabels r @ '')'' in
      El ''AppBar'' []
        [El ''IconButton'' [(''aria-label'', AStr ''Open the menu''), (''onClick'', AEv ShToggle)] [],
         El ''Link'' [(''to'', AStr ''/dashboard'')] [Txt ''Expenses''],
         El ''Typography'' [] [Txt who],
         El ''IconButton'' [(''aria-label'', AStr ''User menu''), (''onClick'', AEv ShOpenMenu),
           (''aria-expanded'', if menuOpen then AStr ''true'' else AUndef)] [],
         El ''Menu'' [(''open'', ABool menuOpen), (''onClose'', AEv ShCloseMenu)]
           [El ''MenuItem'' [(''disabled'', ABool True)] [Txt who],
            El ''MenuItem'' [(''onClick'', AEv ShLogout)] [Txt ''Log out'']]])"

subsection \<open>The layout\<close>

record layout =
  sidebarOpen :: bool
  menuOpen :: bool
  logoutRunning :: bool
  layout_navs :: "string list"

definition mounted_layout :: layout where
  "mounted_layout = \<lparr>sidebarOpen = False, menuOpen = False, logoutRunning = False, layout_navs = []\<rparr>"

definition layout_effect :: "bool \<Rightarrow> auth_user option \<Rightarrow> layout \<Rightarrow> layout" where
  \<comment> \<open>the effect on \<open>isLoading\<close> and the user\<close>
  "layout_effect isLoading user s =
     (if \<not> isLoading \<and> user = None then s\<lparr>layout_navs := layout_navs s @ [''/login'']\<rparr> else s)"

fun layout_step :: "shell_event \<Rightarrow> layout \<Rightarrow> layout" where
  "layout_step ShToggle s = s\<lparr>sidebarOpen := \<not> sidebarOpen s\<rparr>"
| "layout_step ShClose s = s\<lparr>sidebarOpen := False\<rparr>"
| "layout_step ShOpenMenu s = s\<lparr>menuOpen := True\<rparr>"
| "layout_step ShCloseMenu s = s\<lparr>menuOpen := False\<rparr>"
| "layout_step ShLogout s = s\<lparr>menuOpen := False, logoutRunning := True\<rparr>"

definition logout_settled :: "layout \<Rightarrow> layout" where
  \<comment> \<open>\<open>onSettled\<close> of the call, with or without an error; the hook has cleared tokens and cache before\<close>
  "logout_settled s = s\<lparr>logoutRunning := False, layout_navs := layout_navs s @ [''/login'']\<rparr>"

definition appLayout :: "bool \<Rightarrow> auth_user option \<Rightarrow> string \<Rightarrow> layout \<Rightarrow> shell_event jsx \<Rightarrow> shell_event jsx" where
  "appLayout isLoading user currentPath s children =
     (if isLoading then pageSkeleton SkCard None
      else case user of
        None \<Rightarrow> NullJsx
      | Some u \<Rightarrow>
          El ''Box'' []
            [appHeader (au_name u) (au_role u) (menuOpen s),
             appSidebar (au_role u) currentPath (sidebarOpen s),
             El ''main'' [] [children]])"

subsection \<open>The route table\<close>

fun compatible :: "segment list \<Rightarrow> segment list \<Rightarrow> bool" where
  \<comment> \<open>some path may match both patterns\<close>
  "compatible [] [] = True"
| "compatible (Splat # ps) qs = True"
| "compatible ps (Splat # qs) = True"
| "compatible (Static s # ps) (Static t # qs) \<longleftrightarrow> map lower_char s = map lower_char t \<and> compatible ps qs"
| "compatible (x # ps) (y # qs) = compatible ps qs"
| "compatible _ _ = False"

lemma match_pattern_simps [simp]:
  "match_pattern [] xs = Some m \<longleftrightarrow> xs = [] \<and> m = []"
  "match_pattern (Static s # ps) xs = Some m \<longleftrightarrow>
     (\<exists>x ys. xs = x # ys \<and> map lower_char s = map lower_char x \<and> match_pattern ps ys = Some m)"
  "match_pattern (Param k # ps) xs = Some m \<longleftrightarrow>
     (\<exists>x ys n. xs = x # ys \<and> x \<noteq> [] \<and> match_pattern ps ys = Some n \<and> m = (k, x) # n)"
  by (cases xs; auto)+

lemma match_compatible:
  "match_pattern ps xs = Some m \<Longrightarrow> match_pattern qs xs = Some n \<Longrightarrow> compatible ps qs"
  by (induction ps qs arbitrary: xs m n rule: compatible.induct) auto

definition table_ok :: "route list \<Rightarrow> bool" where
  \<comment> \<open>no two routes that a path can both match are equally specific\<close>
  "table_ok rs \<longleftrightarrow>
     list_all (\<lambda>r. list_all (\<lambda>q. r = q \<or> pattern_score (rt_pattern r) \<noteq> pattern_score (rt_pattern q) \<or>
       \<not> compatible (rt_pattern r) (rt_pattern q)) rs) rs"

lemma table_okD:
  assumes "table_ok rs" "r \<in> set rs" "q \<in> set rs"
  shows "r = q \<or> pattern_score (rt_pattern r) \<noteq> pattern_score (rt_pattern q) \<or>
    \<not> compatible (rt_pattern r) (rt_pattern q)"
proof -
  have "list_all (\<lambda>q. r = q \<or> pattern_score (rt_pattern r) \<noteq> pattern_score (rt_pattern q) \<or>
      \<not> compatible (rt_pattern r) (rt_pattern q)) rs"
    using assms(1,2) unfolding table_ok_def list_all_iff by blast
  with assms(3) show ?thesis unfolding list_all_iff by blast
qed

lemma app_table_ok: "table_ok app_routes"
  by code_simp

abbreviation matched :: "route list \<Rightarrow> string \<Rightarrow> route \<Rightarrow> (string \<times> string) list \<Rightarrow> bool" where
  "matched rs p r m \<equiv> r \<in> set rs \<and> match_pattern (rt_pattern r) (path_segments p) = Some m"

lemma better_cases: "better x y = Some x \<or> better x y = y"
  by (cases y) auto

lemma match_routes_simps [simp]:
  "match_routes [] p = None"
  "match_routes (a # rs) p = (case match_pattern (rt_pattern a) (path_segments p) of
      Some m \<Rightarrow> better (a, m) (match_routes rs p) | None \<Rightarrow> match_routes rs p)"
  by (simp_all add: match_routes_def split: option.split)

lemma match_routes_sound: "match_routes rs p = Some (r, m) \<Longrightarrow> matched rs p r m"
proof (induction rs)
  case (Cons a rs)
  show ?case
  proof (cases "match_pattern (rt_pattern a) (path_segments p)")
    case None
    then show ?thesis using Cons by simp
  next
    case (Some n)
    then have "match_routes (a # rs) p = better (a, n) (match_routes rs p)" by simp
    then show ?thesis using Cons Some better_cases [of "(a, n)" "match_routes rs p"] by auto
  qed
qed simp

lemma match_routes_best:
  "matched rs p q n \<Longrightarrow>
   \<exists>r m. match_routes rs p = Some (r, m) \<and> pattern_score (rt_pattern q) \<le> pattern_score (rt_pattern r)"
proof (induction rs)
  case (Cons a rs)
  show ?case
  proof (cases "q \<in> set rs")
    case True
    then obtain r m where "match_routes rs p = Some (r, m)" "pattern_score (rt_pattern q) \<le> pattern_score (rt_pattern r)"
      using Cons by blast
    then show ?thesis by (auto split: option.split)
  next
    case False
    then have "match_pattern (rt_pattern a) (path_segments p) = Some n" "a = q" using Cons by auto
    then show ?thesis by (cases "match_routes rs p") auto
  qed
qed simp

lemma match_routes_order:
  assumes "table_ok rs" "set qs = set rs"
  shows "match_routes qs p = match_routes rs p"
proof (cases "match_routes rs p")
  case None
  then have "\<not> matched rs p q n" for q n using match_routes_best by fastforce
  then show ?thesis using match_routes_sound [of qs p] assms(2) None by (cases "match_routes qs p") auto
next
  case (Some x)
  then obtain r m where r: "match_routes rs p = Some (r, m)" by (cases x) auto
  then have mr: "matched rs p r m" by (rule match_routes_sound)
  then obtain q n where q: "match_routes qs p = Some (q, n)" "pattern_score (rt_pattern r) \<le> pattern_score (rt_pattern q)"
    using match_routes_best [of r qs p m] assms(2) by auto
  have mq: "matched rs p q n" using match_routes_sound [OF q(1)] assms(2) by simp
  then have "pattern_score (rt_pattern q) \<le> pattern_score (rt_pattern r)"
    using match_routes_best [of q rs p n] r by auto
  then have eq: "pattern_score (rt_pattern r) = pattern_score (rt_pattern q)" using q(2) by linarith
  have comp: "compatible (rt_pattern r) (rt_pattern q)"
    by (rule match_compatible [OF conjunct2 [OF mr] conjunct2 [OF mq]])
  have "r = q \<or> pattern_score (rt_pattern r) \<noteq> pattern_score (rt_pattern q) \<or>
      \<not> compatible (rt_pattern r) (rt_pattern q)"
    by (rule table_okD [OF assms(1) conjunct1 [OF mr] conjunct1 [OF mq]])
  with eq comp have "r = q" by blast
  with mr mq have "m = n" by (metis option.inject)
  with \<open>r = q\<close> show ?thesis using r q(1) by simp
qed

lemma some_route: "\<exists>r m. match_routes app_routes p = Some (r, m)"
proof -
  have "matched app_routes p (private_route [Splat] PNotFound) []" by (simp add: app_routes_def)
  then show ?thesis using match_routes_best by blast
qed

subsection \<open>Properties\<close>

text \<open>
  The order of the routes does not matter. For every path, any arrangement of the route table gives the same
  page with the same parameters; so a report can never take the place of the pages for a new report and
  for all reports, wherever their routes stand.
\<close>

theorem route_order_is_irrelevant:
  assumes "set rs = set app_routes"
  shows "match_routes rs p = match_routes app_routes p \<and>
    map_option (rt_page o fst) (match_routes rs ''/reports/all'') = Some PAllReports \<and>
    map_option (rt_page o fst) (match_routes rs ''/reports/new'') = Some PReportCreate \<and>
    map_option snd (match_routes rs ''/reports/42'') = Some [(''id'', ''42'')]"
proof -
  have eq: "match_routes rs q = match_routes app_routes q" for q
    by (rule match_routes_order [OF app_table_ok assms])
  have "map_option (rt_page o fst) (match_routes app_routes ''/reports/all'') = Some PAllReports"
    "map_option (rt_page o fst) (match_routes app_routes ''/reports/new'') = Some PReportCreate"
    "map_option snd (match_routes app_routes ''/reports/42'') = Some [(''id'', ''42'')]"
    by code_simp+
  then show ?thesis using eq by simp
qed

theorem route_order_is_irrelevant_witness:
  "map_option (rt_page o fst) (match_routes (rev app_routes) ''/reports/all'') = Some PAllReports"
  using route_order_is_irrelevant [of "rev app_routes" "[]"] by simp

text \<open>
  C20. Nothing is shown without a token but the pages to log in, to sign up and to reset a password, and these
  are not shown with one. Every path shows something; a private path without a token, also one that
  does not exist, leads to the login, which is told where to go back to.
\<close>

theorem private_pages_need_token:
  "\<exists>v. app_view a pathname search = Some v \<and>
    (case v of
       ShowAuthPage p \<Rightarrow> \<not> useAuth a \<and> p \<in> {PLogin, PSignup, PPasswordResetRequest, PPasswordReset}
     | ShowInLayout p m \<Rightarrow> useAuth a \<and> p \<notin> {PLogin, PSignup, PPasswordResetRequest, PPasswordReset}
     | NavigateTo t from \<Rightarrow>
         if useAuth a then t = ''/dashboard'' \<and> from = None
         else t = ''/login'' \<and> from = Some (pathname @ search))"
proof -
  obtain r m where r: "match_routes app_routes pathname = Some (r, m)" using some_route by blast
  then have "r \<in> set app_routes" using match_routes_sound by blast
  then have "rt_private r \<longleftrightarrow> rt_page r \<notin> {PLogin, PSignup, PPasswordResetRequest, PPasswordReset}"
    by (auto simp: app_routes_def)
  then show ?thesis
    using r by (auto simp: app_view_def privateRoute_def authLayout_def)
qed

text \<open>What the guard of a page makes of a user who opens it: the navigations of its effects, and whether it renders.\<close>

definition guard_navs :: "page_name \<Rightarrow> auth_user \<Rightarrow> navigation list" where
  "guard_navs p u =
     (case p of
        PApprovals \<Rightarrow> wl_navs (mounted_workflow approval_kind [] (Some u) None)
      | PPayments \<Rightarrow> wl_navs (mounted_workflow payment_kind [] (Some u) None)
      | PProcessed \<Rightarrow> pl_navs (mounted_processed [] (Some u) None)
      | PAllReports \<Rightarrow> al_navs (mounted_all_list [] (Some u) None)
      | PTenant \<Rightarrow> tp_navs (mounted_tenant (Some u) None)
      | _ \<Rightarrow> [])"

record list_results =
  \<comment> \<open>what the queries of the lists have brought\<close>
  lq_pending :: "pending_report list_result"
  lq_payable :: "payable_report list_result"
  lq_processed :: "processed_report list_result"

definition page_renders :: "locale_format \<Rightarrow> list_results \<Rightarrow> page_name \<Rightarrow> auth_user \<Rightarrow> bool" where
  \<comment> \<open>the pages that have no guard of their own render for everybody\<close>
  "page_renders lc q p u \<longleftrightarrow>
     (case p of
        PApprovals \<Rightarrow> approvalListPage lc (Some u) (lq_pending q) (mounted_workflow approval_kind [] (Some u) None) \<noteq> NullJsx
      | PPayments \<Rightarrow> paymentListPage lc (Some u) (lq_payable q) (mounted_workflow payment_kind [] (Some u) None) \<noteq> NullJsx
      | PProcessed \<Rightarrow> processedReportsPage lc (Some u) (lq_processed q) (mounted_processed [] (Some u) None) \<noteq> NullJsx
      | _ \<Rightarrow> True)"

definition open_to :: "page_name \<Rightarrow> auth_user \<Rightarrow> bool" where
  \<comment> \<open>the user may stay on the page and sees it\<close>
  "open_to p u \<longleftrightarrow> guard_navs p u = [] \<and> (\<forall>lc q. page_renders lc q p u)"

lemma redirects_simps [simp]:
  "wl_navs (mounted_workflow k sp (Some u) None) = (if au_role u = wk_role k then [] else [forbidden_redirect])"
  "pl_navs (mounted_processed sp (Some u) None) = (if au_role u = Approver then [] else [forbidden_redirect])"
  "al_navs (mounted_all_list sp (Some u) None) = (if may_see_all (au_role u) then [] else [forbidden_redirect])"
  "tp_navs (mounted_tenant (Some u) None) = (if au_role u = Admin then [] else [forbidden_redirect])"
  by (simp_all add: mounted_workflow_def Let_def error_effects_def is_403_def is_other_error_def role_effect_def
      url_effect_def role_redirect_def mounted_processed_def mounted_all_list_def mounted_tenant_def)

lemma guarded_pages:
  "open_to PApprovals u \<longleftrightarrow> au_role u = Approver" "open_to PPayments u \<longleftrightarrow> au_role u = Accounting"
  "open_to PProcessed u \<longleftrightarrow> au_role u = Approver" "open_to PAllReports u \<longleftrightarrow> may_see_all (au_role u)"
  "open_to PTenant u \<longleftrightarrow> au_role u = Admin"
  "p \<notin> {PApprovals, PPayments, PProcessed, PAllReports, PTenant} \<Longrightarrow> open_to p u"
  by (auto simp: open_to_def guard_navs_def page_renders_def approvalListPage_def paymentListPage_def workflow_guard
      processed_guard approval_kind_def payment_kind_def split: page_name.split)

definition page_of :: "string \<Rightarrow> page_name option" where
  \<comment> \<open>the page that a path shows to a user with a token\<close>
  "page_of p = map_option (rt_page o fst) (match_routes app_routes p)"

lemma page_of_view:
  "useAuth a \<Longrightarrow> page_of p = Some n \<Longrightarrow> n \<notin> {PLogin, PSignup, PPasswordResetRequest, PPasswordReset, PHome} \<Longrightarrow>
   \<exists>m. app_view a p search = Some (ShowInLayout n m)"
proof -
  assume a: "useAuth a" "page_of p = Some n" "n \<notin> {PLogin, PSignup, PPasswordResetRequest, PPasswordReset, PHome}"
  then obtain r m where r: "match_routes app_routes p = Some (r, m)" "rt_page r = n" by (auto simp: page_of_def)
  then have "r \<in> set app_routes" using match_routes_sound by blast
  then have "rt_private r" using a(3) r(2) by (auto simp: app_routes_def)
  then show ?thesis using a r by (simp add: app_view_def privateRoute_def)
qed

definition plain_id :: "string \<Rightarrow> bool" where
  \<comment> \<open>an identifier that stays one segment of a path and is none of the fixed ones\<close>
  "plain_id i \<longleftrightarrow> i \<noteq> [] \<and> CHR ''/'' \<notin> set i \<and> CHR ''?'' \<notin> set i \<and>
     map lower_char i \<noteq> ''new'' \<and> map lower_char i \<noteq> ''all''"

lemma split_on_none: "d \<notin> set s \<Longrightarrow> split_on d s = [s]"
  by (induction s) auto

lemma lower_eval:
  "lower_char CHR ''-'' = CHR ''-''" "lower_char CHR ''a'' = CHR ''a''" "lower_char CHR ''b'' = CHR ''b''" "lower_char CHR ''c'' = CHR ''c''"
  "lower_char CHR ''d'' = CHR ''d''" "lower_char CHR ''e'' = CHR ''e''" "lower_char CHR ''g'' = CHR ''g''" "lower_char CHR ''h'' = CHR ''h''"
  "lower_char CHR ''i'' = CHR ''i''" "lower_char CHR ''l'' = CHR ''l''" "lower_char CHR ''m'' = CHR ''m''" "lower_char CHR ''n'' = CHR ''n''"
  "lower_char CHR ''o'' = CHR ''o''" "lower_char CHR ''p'' = CHR ''p''" "lower_char CHR ''r'' = CHR ''r''" "lower_char CHR ''s'' = CHR ''s''"
  "lower_char CHR ''t'' = CHR ''t''" "lower_char CHR ''u'' = CHR ''u''" "lower_char CHR ''v'' = CHR ''v''" "lower_char CHR ''w'' = CHR ''w''"
  "lower_char CHR ''y'' = CHR ''y''"
  by code_simp+

lemma reports_path:
  assumes "plain_id i"
  shows "page_of (''/reports/'' @ i) = Some PReportDetail"
proof -
  have "split_on CHR ''/'' i = [i]" using assms by (simp add: split_on_none plain_id_def)
  then have "split_on CHR ''/'' (drop 1 (''/reports/'' @ i)) = [''reports'', i]" by simp
  then have "path_segments (''/reports/'' @ i) = [''reports'', i]"
    using assms by (simp add: path_segments_def plain_id_def)
  moreover have "map lower_char i \<noteq> ''new''" "map lower_char i \<noteq> ''all''" "i \<noteq> []"
    using assms by (simp_all add: plain_id_def)
  ultimately show ?thesis
    unfolding page_of_def match_routes_def app_routes_def
    by (simp add: lower_eval pattern_score_def del: map_eq_Cons_conv)
qed

lemma links_lists:
  "links (recentReportList lc rs) = map (\<lambda>r. ''/reports/'' @ rr_id r) rs @ [''/reports'']"
  "links (monthlySummaryTable lc ms) = []"
proof -
  have chip: "links (statusChip st) = []" for st by (cases st) (simp_all add: statusChip_def)
  have row: "links (recentReportRow lc r) = [''/reports/'' @ rr_id r]" for r
    by (simp add: recentReportRow_def chip)
  have "concat (map links (map (recentReportRow lc) rs)) = map (\<lambda>r. ''/reports/'' @ rr_id r) rs"
    by (induction rs) (simp_all add: row)
  then show "links (recentReportList lc rs) = map (\<lambda>r. ''/reports/'' @ rr_id r) rs @ [''/reports'']"
    by (cases rs) (simp_all add: recentReportList_def emptyState_def row)
  show "links (monthlySummaryTable lc ms) = []"
    by (auto simp: monthlySummaryTable_def concat_eq_Nil_conv)
qed

lemma dashboard_page_links:
  assumes "t \<in> set (links (dashboardPage lc False False None (Some d) (Some u) toast))"
  shows "t \<in> set (links (dashboard_cards (au_role u) d :: dash_event jsx)) \<or> t = ''/reports'' \<or>
    (\<exists>r \<in> set (or_empty (db_recent_reports d)). t = ''/reports/'' @ rr_id r)"
  using assms by (auto simp: dashboardPage_def appToast_def when_jsx_def links_lists split: if_splits)

text \<open>
  C30. The navigation and the guards of the pages agree. For every user and every item of the sidebar: when the
  sidebar shows the item, the page it leads to lets the user in and is rendered, whatever its query has
  brought; when it does not show it, the effect of that page sends the user to the dashboard with a
  message. And every link on the dashboard of the user - on its cards and in the list of the recent
  reports - leads to a page that is open to that user.
\<close>

theorem navigation_agrees_with_guards:
  assumes "list_all (\<lambda>r. plain_id (rr_id r)) (or_empty (db_recent_reports d))"
  shows "(\<forall>i \<in> set NAV_ITEMS. \<exists>p. page_of (ni_path i) = Some p \<and>
       (if i \<in> set (visible_items (au_role u)) then open_to p u else guard_navs p u = [forbidden_redirect])) \<and>
   (\<forall>t \<in> set (links (dashboardPage lc False False None (Some d) (Some u) toast)).
       \<exists>p. page_of (before CHR ''?'' t) = Some p \<and> open_to p u)"
proof
  have pages: "page_of ''/dashboard'' = Some PDashboard" "page_of ''/reports'' = Some PReportList"
    "page_of ''/reports/new'' = Some PReportCreate" "page_of ''/approvals'' = Some PApprovals"
    "page_of ''/approvals/processed'' = Some PProcessed" "page_of ''/payments'' = Some PPayments"
    "page_of ''/reports/all'' = Some PAllReports" "page_of ''/settings/tenant'' = Some PTenant"
    by code_simp+
  show "\<forall>i \<in> set NAV_ITEMS. \<exists>p. page_of (ni_path i) = Some p \<and>
       (if i \<in> set (visible_items (au_role u)) then open_to p u else guard_navs p u = [forbidden_redirect])"
    by (cases "au_role u") (simp_all add: NAV_ITEMS_def visible_items_def pages guarded_pages guard_navs_def
        approval_kind_def payment_kind_def may_see_all_def)
  have b: "before CHR ''?'' (''/reports?status='' @ s) = ''/reports''"
    "before CHR ''?'' (''/reports/all?status='' @ s) = ''/reports/all''" "before CHR ''?'' ''/approvals'' = ''/approvals''"
    "before CHR ''?'' ''/payments'' = ''/payments''" "before CHR ''?'' ''/reports'' = ''/reports''" for s
    by (simp_all add: before_def)
  have cards: "\<forall>t \<in> set (links (dashboard_cards (au_role u) d :: dash_event jsx)).
      \<exists>p. page_of (before CHR ''?'' t) = Some p \<and> open_to p u"
    using b unfolding dashboard_links by (cases "au_role u") (simp_all add: pages guarded_pages may_see_all_def)
  show "\<forall>t \<in> set (links (dashboardPage lc False False None (Some d) (Some u) toast)).
       \<exists>p. page_of (before CHR ''?'' t) = Some p \<and> open_to p u"
  proof
    fix t assume "t \<in> set (links (dashboardPage lc False False None (Some d) (Some u) toast))"
    then consider "t \<in> set (links (dashboard_cards (au_role u) d :: dash_event jsx))" | "t = ''/reports''"
      | r where "r \<in> set (or_empty (db_recent_reports d))" "t = ''/reports/'' @ rr_id r"
      using dashboard_page_links by blast
    then show "\<exists>p. page_of (before CHR ''?'' t) = Some p \<and> open_to p u"
    proof cases
      case (3 r)
      then have "plain_id (rr_id r)" using assms by (simp add: list_all_iff)
      moreover from this have "CHR ''?'' \<notin> set t" using 3(2) by (simp add: plain_id_def)
      ultimately show ?thesis using 3(2) reports_path by (simp add: guarded_pages)
    qed (use cards pages in \<open>auto simp: b guarded_pages\<close>)
  qed
qed

definition demo_user :: "role \<Rightarrow> auth_user" where
  "demo_user r = \<lparr>au_id = ''u'', au_name = ''n'', au_email = ''e'', au_role = r, au_tenant_id = ''t'', au_tenant_name = ''c''\<rparr>"

definition demo_dashboard :: dashboard where
  "demo_dashboard =
     \<lparr>db_my_draft_count = None, db_my_submitted_count = None, db_my_rejected_count = None,
      db_recent_reports = Some [\<lparr>rr_id = ''42'', rr_title = ''t'', rr_period_start = ''2026-04-01'',
        rr_period_end = ''2026-04-30'', rr_total_amount = 0, rr_status = Draft, rr_updated_at = ''v''\<rparr>],
      db_pending_approval_count = None, db_pending_payment_count = None, db_monthly_summary = None,
      db_tenant_draft_count = None, db_tenant_submitted_count = None, db_tenant_approved_count = None,
      db_tenant_rejected_count = None, db_tenant_paid_count = None, db_tenant_member_count = None\<rparr>"

theorem navigation_agrees_with_guards_witness:
  "(\<exists>p. page_of ''/approvals/processed'' = Some p \<and> open_to p (demo_user Approver)) \<and>
   (\<exists>p. page_of ''/approvals/processed'' = Some p \<and> guard_navs p (demo_user Member) = [forbidden_redirect])"
proof -
  have "list_all (\<lambda>r. plain_id (rr_id r)) (or_empty (db_recent_reports demo_dashboard))" by code_simp
  note nav = conjunct1 [OF navigation_agrees_with_guards [OF this]]
  have i: "NAV_ITEMS ! 4 \<in> set NAV_ITEMS" "ni_path (NAV_ITEMS ! 4) = ''/approvals/processed''"
    "NAV_ITEMS ! 4 \<in> set (visible_items (au_role (demo_user Approver)))"
    "NAV_ITEMS ! 4 \<notin> set (visible_items (au_role (demo_user Member)))"
    by (simp_all add: NAV_ITEMS_def visible_items_def demo_user_def)
  show ?thesis
    using bspec [OF nav [of "demo_user Approver"] i(1)] bspec [OF nav [of "demo_user Member"] i(1)] i(2-) by auto
qed

lemma card_targets:
  assumes "t \<in> set (links (dashboard_cards r d))"
  shows "t = ''/approvals'' \<or> t = ''/payments'' \<or>
    (\<exists>s. t = ''/reports?status='' @ status_name s \<or> t = ''/reports/all?status='' @ status_name s)"
proof -
  define f g where "f = (\<lambda>s. ''/reports/all?status='' @ status_name s)" and "g = (\<lambda>s. ''/reports?status='' @ status_name s)"
  have eq: "links (dashboard_cards r d) =
     (case r of
        Admin \<Rightarrow> map f [Draft, Submitted, Approved, Rejected, Paid]
      | _ \<Rightarrow> map g [Draft, Submitted, Rejected] @
          (if r = Approver then [''/approvals''] else if r = Accounting then [''/payments''] else []))"
    unfolding dashboard_links f_def g_def by (cases r) simp_all
  have "t = ''/approvals'' \<or> t = ''/payments'' \<or> (\<exists>s. t = g s \<or> t = f s)"
    using assms unfolding eq by (cases r) auto
  then show ?thesis unfolding f_def g_def .
qed

text \<open>
  The cards of the dashboard open their list with the filter they count: the status in the link is one that the
  filter of the list offers, and the query that the list reads from the link asks for the first page of
  the reports in that status.
\<close>

theorem cards_open_their_filter:
  assumes "t \<in> set (links (dashboard_cards r d))" "before CHR ''?'' t \<in> {''/reports'', ''/reports/all''}"
  shows "\<exists>s. parse_search (after CHR ''?'' t) = [(''status'', status_name s)] \<and>
    status_name s \<in> fst ` set status_options \<and>
    mp_status (report_list_params (parse_search (after CHR ''?'' t))) = Some (status_name s) \<and>
    mp_page (report_list_params (parse_search (after CHR ''?'' t))) = Some (Num 1) \<and>
    ap_status (all_list_params (parse_search (after CHR ''?'' t))) = Some (status_name s)"
proof -
  have "t \<noteq> ''/approvals'' \<and> t \<noteq> ''/payments''"
    using assms(2) by (auto simp: before_def)
  then obtain s where t: "t = ''/reports?status='' @ status_name s \<or> t = ''/reports/all?status='' @ status_name s"
    using card_targets [OF assms(1)] by blast
  have "search_string [(''status'', status_name s)] = ''status='' @ status_name s"
    by (cases s) (simp only:, code_simp)+
  then have p: "parse_search (''status='' @ status_name s) = [(''status'', status_name s)]"
    by (metis parse_search_string)
  have a: "after CHR ''?'' t = ''status='' @ status_name s"
    using t by (auto simp: after_def)
  have "status_name s \<noteq> []" by (cases s) simp_all
  then show ?thesis unfolding a p
    by (intro exI [of _ s], cases s)
      (simp_all add: status_options_def report_list_params_def all_list_params_def url_filters_def get_or_def or_undef_def
        url_page_def Let_def)
qed

theorem cards_open_their_filter_witness:
  "\<exists>s. parse_search (after CHR ''?'' ''/reports?status=draft'') = [(''status'', status_name s)]"
proof -
  let ?t = "''/reports?status=draft''"
  have "?t \<in> set (links (dashboard_cards Member undefined))" unfolding dashboard_links by simp
  moreover have "before CHR ''?'' ?t \<in> {''/reports'', ''/reports/all''}" by (simp add: before_def)
  ultimately show ?thesis using cards_open_their_filter [of ?t Member undefined] by blast
qed

definition router_step :: "auth_store \<Rightarrow> string \<Rightarrow> string" where
  \<comment> \<open>one navigation, when the user cannot be fetched\<close>
  "router_step a p =
     (case app_view a p [] of
        Some (NavigateTo q from) \<Rightarrow> q
      | Some (ShowInLayout n m) \<Rightarrow> last (p # layout_navs (layout_effect False None mounted_layout))
      | _ \<Rightarrow> p)"

lemma router_steps:
  "router_step a ''/login'' = (if useAuth a then ''/dashboard'' else ''/login'')"
  "router_step a ''/dashboard'' = ''/login''"
proof -
  have "match_routes app_routes ''/login'' = Some (public_route [Static ''login''] PLogin, [])"
    "match_routes app_routes ''/dashboard'' = Some (private_route [Static ''dashboard''] PDashboard, [])"
    by code_simp+
  then show "router_step a ''/login'' = (if useAuth a then ''/dashboard'' else ''/login'')"
    "router_step a ''/dashboard'' = ''/login''"
    by (simp_all add: router_step_def app_view_def authLayout_def privateRoute_def layout_effect_def mounted_layout_def)
qed

text \<open>
  When the user cannot be fetched although there is a token - the server fails -, the application never comes to
  rest: the layout leads to the login, the login, seeing the token, to the dashboard, and the layout
  fetches the user again; every second step is the login again. Without a token it stays at the login.
\<close>

theorem failing_user_fetch_never_rests:
  "if useAuth a
   then (router_step a ^^ (2 * n)) ''/dashboard'' = ''/dashboard'' \<and> (router_step a ^^ (2 * n + 1)) ''/dashboard'' = ''/login''
   else (router_step a ^^ (n + 1)) ''/dashboard'' = ''/login''"
proof -
  have "(router_step a ^^ (2 * n)) ''/dashboard'' = ''/dashboard''" if "useAuth a"
    using that by (induction n) (simp_all add: router_steps)
  moreover have "(router_step a ^^ (n + 1)) ''/dashboard'' = ''/login''" if "\<not> useAuth a"
    using that by (induction n) (simp_all add: router_steps)
  ultimately show ?thesis by (simp add: router_steps)
qed

text \<open>
  The item of the page one is on is always marked as active, but so is every item whose path its path starts
  with: on the page of the processed reports also the one of the pending reports, on the pages for a new
  report and for all reports also the one of the own reports.
\<close>

theorem active_items:
  "i \<in> set NAV_ITEMS \<longrightarrow> is_active (ni_path i) i"
  "map ni_path (filter (is_active ''/approvals/processed'') (visible_items Approver)) = [''/approvals'', ''/approvals/processed'']"
  "map ni_path (filter (is_active ''/reports/all'') (visible_items Accounting)) = [''/reports'', ''/reports/all'']"
  by (auto simp: NAV_ITEMS_def is_active_def starts_with_def visible_items_def)

end
