(* ===== verification/Auth_Pages.thy ===== *)
theory Auth_Pages
  imports App_Shell Query_Hooks
begin

text \<open>
  The pages to log in, to sign up and to reset a password (frontend/src/pages/login, signup, password-reset,
  auth): their schemas, forms and pages. Which strings are e-mail addresses is decided by the schema
  library and is a parameter. The forms validate as the form library documents it for the mode onBlur:
  leaving a field validates it until the first submission, changes do so afterwards; the schema
  library reports for every member the first check that fails.
\<close>

subsection \<open>Schemas\<close>

type_synonym form_values = "string \<Rightarrow> string"
  \<comment> \<open>the value of a field by its name\<close>

record field_rule =
  fr_name :: string
  fr_checks :: "((string \<Rightarrow> bool) \<times> string) list"

definition min_len :: "nat \<Rightarrow> string \<Rightarrow> (string \<Rightarrow> bool) \<times> string" where
  "min_len n msg = (\<lambda>s. n \<le> length s, msg)"

definition max_len :: "nat \<Rightarrow> string \<Rightarrow> (string \<Rightarrow> bool) \<times> string" where
  "max_len n msg = (\<lambda>s. length s \<le> n, msg)"

definition first_failed :: "((string \<Rightarrow> bool) \<times> string) list \<Rightarrow> string \<Rightarrow> string option" where
  "first_failed cs s = map_option snd (find (\<lambda>c. \<not> fst c s) cs)"

definition email_rule :: "(string \<Rightarrow> bool) \<Rightarrow> field_rule" where
  "email_rule is_email =
     \<lparr>fr_name = ''email'',
      fr_checks = [min_len 1 ''Enter an e-mail address'', max_len 254 ''At most 254 characters'',
        (is_email, ''Enter a valid e-mail address'')]\<rparr>"

definition password_rule :: "string \<Rightarrow> string \<Rightarrow> field_rule" where
  "password_rule n required =
     \<lparr>fr_name = n,
      fr_checks = [min_len 1 required, min_len 8 ''At least 8 characters'', max_len 128 ''At most 128 characters'']\<rparr>"

definition loginSchema :: "(string \<Rightarrow> bool) \<Rightarrow> field_rule list" where
  "loginSchema is_email = [email_rule is_email, password_rule ''password'' ''Enter a password'']"

definition signupSchema :: "(string \<Rightarrow> bool) \<Rightarrow> field_rule list" where
  "signupSchema is_email =
     [\<lparr>fr_name = ''company_name'', fr_checks = [min_len 1 ''Enter a company'', max_len 200 ''At most 200 characters'']\<rparr>,
      \<lparr>fr_name = ''user_name'', fr_checks = [min_len 1 ''Enter a name'', max_len 100 ''At most 100 characters'']\<rparr>,
      email_rule is_email, password_rule ''password'' ''Enter a password'']"

definition passwordResetRequestSchema :: "(string \<Rightarrow> bool) \<Rightarrow> field_rule list" where
  "passwordResetRequestSchema is_email = [email_rule is_email]"

definition passwordReset_rules :: "field_rule list" where
  "passwordReset_rules =
     [password_rule ''new_password'' ''Enter a new password'',
      \<lparr>fr_name = ''confirm_password'', fr_checks = [min_len 1 ''Enter the password again'']\<rparr>]"

type_synonym form_schema = "form_values \<Rightarrow> string \<Rightarrow> string option"
  \<comment> \<open>the error of a field\<close>

definition rules_schema :: "field_rule list \<Rightarrow> form_schema" where
  "rules_schema rs v k =
     (case find (\<lambda>r. fr_name r = k) rs of None \<Rightarrow> None | Some r \<Rightarrow> first_failed (fr_checks r) (v k))"

definition passwordResetSchema :: form_schema where
  \<comment> \<open>the refinement comes after the checks of its member\<close>
  "passwordResetSchema v k =
     (case rules_schema passwordReset_rules v k of
        Some m \<Rightarrow> Some m
      | None \<Rightarrow> if k = ''confirm_password'' \<and> v ''new_password'' \<noteq> v ''confirm_password''
                then Some ''The passwords do not match'' else None)"

subsection \<open>Forms\<close>

record auth_form =
  af_values :: form_values
  af_errors :: "string \<Rightarrow> string option"
  af_submitted :: bool

definition fresh_auth_form :: auth_form where
  "fresh_auth_form = \<lparr>af_values = (\<lambda>_. []), af_errors = (\<lambda>_. None), af_submitted = False\<rparr>"

definition auth_validate :: "form_schema \<Rightarrow> string list \<Rightarrow> auth_form \<Rightarrow> auth_form" where
  "auth_validate sch ks s =
     s\<lparr>af_errors := (\<lambda>k. if k \<in> set ks then sch (af_values s) k else af_errors s k)\<rparr>"

definition auth_change :: "form_schema \<Rightarrow> string \<Rightarrow> string \<Rightarrow> auth_form \<Rightarrow> auth_form" where
  "auth_change sch k x s =
     (let s1 = s\<lparr>af_values := (af_values s)(k := x)\<rparr> in if af_submitted s then auth_validate sch [k] s1 else s1)"

definition auth_blur :: "form_schema \<Rightarrow> string \<Rightarrow> auth_form \<Rightarrow> auth_form" where
  "auth_blur sch k s = (if af_submitted s then s else auth_validate sch [k] s)"

definition auth_submit :: "form_schema \<Rightarrow> string list \<Rightarrow> auth_form \<Rightarrow> form_values option \<times> auth_form" where
  \<comment> \<open>\<open>handleSubmit\<close>: the values of the callback, if it is called\<close>
  "auth_submit sch ks s =
     (if list_all (\<lambda>k. sch (af_values s) k = None) ks then Some (af_values s) else None,
      (auth_validate sch ks s)\<lparr>af_submitted := True\<rparr>)"

datatype auth_ui = UiInput string | UiSend

definition auth_field :: "bool \<Rightarrow> auth_form \<Rightarrow> string \<Rightarrow> string \<Rightarrow> auth_ui jsx" where
  "auth_field isPending s k label =
     appTextField \<lparr>tf_name = k, tf_label = label, tf_errorMessage = af_errors s k, tf_required = True,
       tf_rest = [(''disabled'', if isPending then ''true'' else ''false'')]\<rparr> (UiInput k)"

definition auth_form_view ::
  "(string \<times> string) list \<Rightarrow> string \<Rightarrow> string option \<Rightarrow> bool \<Rightarrow> auth_form \<Rightarrow> auth_ui jsx" where
  "auth_form_view inputs submitLabel apiError isPending s =
     El ''form'' [(''noValidate'', ABool True)]
       ([formAlert apiError ''error''] @ map (\<lambda>(k, l). auth_field isPending s k l) inputs @
        [submitButton submitLabel isPending False (Some UiSend)])"

definition loginForm :: "string option \<Rightarrow> bool \<Rightarrow> auth_form \<Rightarrow> auth_ui jsx" where
  "loginForm apiError isPending s =
     auth_form_view [(''email'', ''E-mail''), (''password'', ''Password'')] ''Log in'' apiError isPending s"

definition signupForm :: "string option \<Rightarrow> bool \<Rightarrow> auth_form \<Rightarrow> auth_ui jsx" where
  "signupForm apiError isPending s =
     auth_form_view
       [(''company_name'', ''Company''), (''user_name'', ''Name''), (''email'', ''E-mail''), (''password'', ''Password'')]
       ''Sign up'' apiError isPending s"

definition passwordResetRequestForm :: "string option \<Rightarrow> bool \<Rightarrow> auth_form \<Rightarrow> auth_ui jsx" where
  "passwordResetRequestForm apiError isPending s =
     auth_form_view [(''email'', ''E-mail'')] ''Send'' apiError isPending s"

definition passwordResetForm :: "string option \<Rightarrow> bool \<Rightarrow> auth_form \<Rightarrow> auth_ui jsx" where
  "passwordResetForm apiError isPending s =
     auth_form_view
       [(''new_password'', ''New password''), (''confirm_password'', ''New password again'')]
       ''Change the password'' apiError isPending s"

record auth_link =
  ln_prefix :: "string option"
  ln_label :: string
  ln_to :: string

definition authNavLinks :: "auth_link list \<Rightarrow> 'e jsx" where
  "authNavLinks ls =
     El ''Box'' [(''data-testid'', AStr ''auth-nav-links'')]
       (map (\<lambda>l. El ''Typography'' []
          [(case ln_prefix l of Some p \<Rightarrow> when_jsx (p \<noteq> []) (Txt p) | None \<Rightarrow> NullJsx),
           El ''Link'' [(''to'', AStr (ln_to l))] [Txt (ln_label l)]]) ls)"

subsection \<open>Messages\<close>

abbreviation "msg_rate_limit \<equiv> ''Wait a while and try again''"
abbreviation "msg_credentials \<equiv> ''The e-mail address or the password is wrong''"
abbreviation "msg_server \<equiv> ''A server error occurred''"

fun getLoginErrorMessage :: "js_error \<Rightarrow> string" where
  \<comment> \<open>of the errors there are, only those of the API have a code\<close>
  "getLoginErrorMessage (ApiClientError _ _ code _) =
     (if code = JStr ''RATE_LIMIT_EXCEEDED'' then msg_rate_limit else msg_credentials)"
| "getLoginErrorMessage _ = msg_credentials"

fun getSignupErrorMessage :: "js_error \<Rightarrow> string" where
  "getSignupErrorMessage (ApiClientError _ _ code _) =
     (if code = JStr ''EMAIL_ALREADY_EXISTS'' then ''This e-mail address is already registered''
      else if code = JStr ''RATE_LIMIT_EXCEEDED'' then msg_rate_limit else msg_server)"
| "getSignupErrorMessage _ = msg_server"

fun getErrorMessage :: "js_error \<Rightarrow> string" where
  \<comment> \<open>of both pages about the password\<close>
  "getErrorMessage (ApiClientError _ _ code _) =
     (if code = JStr ''RATE_LIMIT_EXCEEDED'' then msg_rate_limit else msg_server)"
| "getErrorMessage _ = msg_server"

subsection \<open>Pages\<close>

record auth_page =
  pg_form :: auth_form
  pg_apiError :: "string option"
  pg_pending :: bool

definition mounted_auth_page :: auth_page where
  "mounted_auth_page = \<lparr>pg_form = fresh_auth_form, pg_apiError = None, pg_pending = False\<rparr>"

datatype auth_event = AeChange string string | AeBlur string | AeSubmit

fun auth_page_step ::
  "form_schema \<Rightarrow> string list \<Rightarrow> auth_event \<Rightarrow> auth_page \<Rightarrow> form_values option \<times> auth_page" where
  \<comment> \<open>while a call runs fields and button are disabled; with values, \<open>handleSubmit\<close> starts the call\<close>
  "auth_page_step sch ks ev s =
     (if pg_pending s then (None, s)
      else case ev of
        AeChange k x \<Rightarrow> (None, s\<lparr>pg_form := auth_change sch k x (pg_form s)\<rparr>)
      | AeBlur k \<Rightarrow> (None, s\<lparr>pg_form := auth_blur sch k (pg_form s)\<rparr>)
      | AeSubmit \<Rightarrow>
          (case auth_submit sch ks (pg_form s) of
             (None, f) \<Rightarrow> (None, s\<lparr>pg_form := f\<rparr>)
           | (Some v, f) \<Rightarrow> (Some v, s\<lparr>pg_form := f, pg_apiError := None, pg_pending := True\<rparr>)))"

declare auth_page_step.simps [simp del]

abbreviation str_members :: "string list \<Rightarrow> form_values \<Rightarrow> (string \<times> jsval) list" where
  "str_members ks v \<equiv> map (\<lambda>k. (k, JStr (v k))) ks"

abbreviation "login_keys \<equiv> [''email'', ''password'']"
abbreviation "signup_keys \<equiv> [''company_name'', ''user_name'', ''email'', ''password'']"
abbreviation "reset_keys \<equiv> [''new_password'', ''confirm_password'']"

definition login_body :: "form_values \<Rightarrow> (string \<times> jsval) list" where
  "login_body v = str_members login_keys v"

definition signup_body :: "form_values \<Rightarrow> (string \<times> jsval) list" where
  "signup_body v = str_members signup_keys v"

definition stored_tokens :: "jsval \<Rightarrow> auth_store \<Rightarrow> auth_store" where
  \<comment> \<open>the handler's own \<open>setTokens\<close>; the hook has read both members before\<close>
  "stored_tokens data a =
     (case (js_get data ''access_token'', js_get data ''refresh_token'') of
        (Inr acc, Inr ref) \<Rightarrow> setTokens acc ref a
      | _ \<Rightarrow> a)"

definition login_settled ::
  "string option \<Rightarrow> js_error + jsval \<Rightarrow> auth_store \<times> auth_page \<Rightarrow> string option \<times> auth_store \<times> auth_page" where
  \<comment> \<open>\<open>handleSubmit\<close> from the settled call on. First argument: \<open>from\<close> of the location's state; result: where the handler
    navigates. Where the visitor ends up is the matter of \<open>login_race_step\<close>\<close>
  "login_settled from res x =
     (case res of
        Inl e \<Rightarrow> (None, fst x, (snd x)\<lparr>pg_apiError := Some (getLoginErrorMessage e), pg_pending := False\<rparr>)
      | Inr data \<Rightarrow>
          (Some (case from of Some f \<Rightarrow> f | None \<Rightarrow> ''/dashboard''), stored_tokens data (fst x),
           (snd x)\<lparr>pg_pending := False\<rparr>))"

text \<open>
  After an accepted login two things are still to happen: the handler of the page goes on, and the mutation
  tells the page that it is no longer pending, which renders the page again. The hook has stored the tokens before
  both, so a rendering of the login page now finds a token, and its layout, \<open>AuthLayout\<close>, navigates to the dashboard.
  The router renders a navigation later than it is made; until then the login page stays mounted. The two
  may come in either order, before or after the router renders.
\<close>

record login_race =
  lg_auth :: auth_store
  lg_url :: string
  lg_rendered :: string
  lg_handler :: bool
  lg_notified :: bool

definition login_accepted :: "jsval \<Rightarrow> auth_store \<Rightarrow> login_race" where
  \<comment> \<open>\<open>onSuccess\<close> of the hook has run\<close>
  "login_accepted data a =
     \<lparr>lg_auth = stored_tokens data a, lg_url = ''/login'', lg_rendered = ''/login'', lg_handler = False, lg_notified = False\<rparr>"

datatype login_race_event = LHandler | LNotify | LRender

definition view_of_url :: "auth_store \<Rightarrow> string \<Rightarrow> shell_view option" where
  "view_of_url a url = app_view a (before CHR ''?'' url) (if CHR ''?'' \<in> set url then CHR ''?'' # after CHR ''?'' url else [])"

definition redirected :: "shell_view option \<Rightarrow> login_race \<Rightarrow> login_race" where
  \<comment> \<open>the effect of a \<open>Navigate\<close> that is rendered\<close>
  "redirected v s = (case v of Some (NavigateTo u from) \<Rightarrow> s\<lparr>lg_url := u\<rparr> | _ \<Rightarrow> s)"

fun login_race_step :: "string option \<Rightarrow> jsval \<Rightarrow> login_race_event \<Rightarrow> login_race \<Rightarrow> login_race option" where
  \<comment> \<open>\<open>None\<close>: the event is not due\<close>
  "login_race_step from data LHandler s =
     (if lg_handler s then None
      else (case login_settled from (Inr data) (lg_auth s, mounted_auth_page) of
              (goto, a, pg) \<Rightarrow> Some (s\<lparr>lg_auth := a, lg_url := (case goto of Some u \<Rightarrow> u | None \<Rightarrow> lg_url s), lg_handler := True\<rparr>)))"
| "login_race_step from data LNotify s =
     (if lg_notified s then None
      else (let s1 = s\<lparr>lg_notified := True\<rparr>
            in Some (if lg_rendered s = ''/login'' then redirected (Some (authLayout (lg_auth s) PLogin)) s1 else s1)))"
| "login_race_step from data LRender s =
     (if lg_rendered s = lg_url s then None
      else Some (redirected (view_of_url (lg_auth s) (lg_url s)) (s\<lparr>lg_rendered := lg_url s\<rparr>)))"

primrec login_race_run ::
  "string option \<Rightarrow> jsval \<Rightarrow> login_race_event list \<Rightarrow> login_race \<Rightarrow> login_race option" where
  "login_race_run from data [] s = Some s"
| "login_race_run from data (e # es) s =
     (case login_race_step from data e s of None \<Rightarrow> None | Some t \<Rightarrow> login_race_run from data es t)"

definition signup_settled ::
  "js_error + jsval \<Rightarrow> auth_store \<times> auth_page \<Rightarrow> string option \<times> auth_store \<times> auth_page" where
  "signup_settled res x =
     (case res of
        Inl e \<Rightarrow> (None, fst x, (snd x)\<lparr>pg_apiError := Some (getSignupErrorMessage e), pg_pending := False\<rparr>)
      | Inr data \<Rightarrow> (Some ''/dashboard'', stored_tokens data (fst x), (snd x)\<lparr>pg_pending := False\<rparr>))"

definition loginPage :: "auth_page \<Rightarrow> auth_ui jsx" where
  "loginPage s =
     El ''AuthLayout'' []
       [loginForm (pg_apiError s) (pg_pending s) (pg_form s),
        authNavLinks
          [\<lparr>ln_prefix = Some ''No account yet?'', ln_label = ''Sign up'', ln_to = ''/signup''\<rparr>,
           \<lparr>ln_prefix = Some ''Forgot your password?'', ln_label = ''Reset it'', ln_to = ''/password-reset''\<rparr>]]"

definition signupPage :: "auth_page \<Rightarrow> auth_ui jsx" where
  "signupPage s =
     El ''AuthLayout'' []
       [signupForm (pg_apiError s) (pg_pending s) (pg_form s),
        authNavLinks [\<lparr>ln_prefix = Some ''Already have an account?'', ln_label = ''Log in'', ln_to = ''/login''\<rparr>]]"

abbreviation back_to_login :: "'e jsx" where
  "back_to_login \<equiv> authNavLinks [\<lparr>ln_prefix = None, ln_label = ''Back to the login'', ln_to = ''/login''\<rparr>]"

subsection \<open>Password reset\<close>

record request_page =
  rq_page :: auth_page
  isSubmitted :: bool

definition request_settled :: "js_error + jsval \<Rightarrow> request_page \<Rightarrow> request_page" where
  "request_settled res s =
     (case res of
        Inl e \<Rightarrow> s\<lparr>rq_page := (rq_page s)\<lparr>pg_apiError := Some (getErrorMessage e), pg_pending := False\<rparr>\<rparr>
      | Inr _ \<Rightarrow> s\<lparr>rq_page := (rq_page s)\<lparr>pg_pending := False\<rparr>, isSubmitted := True\<rparr>)"

definition passwordResetRequestComplete :: "'e jsx" where
  "passwordResetRequestComplete =
     El ''div'' [(''data-testid'', AStr ''password-reset-request-complete'')]
       [El ''p'' [] [Txt ''An e-mail to reset the password was sent. Set the password with the link in it.''],
        El ''p'' [] [Txt ''If it does not arrive, look in the spam folder.'']]"

definition passwordResetRequestPage :: "request_page \<Rightarrow> auth_ui jsx" where
  "passwordResetRequestPage s =
     El ''AuthLayout'' []
       [if isSubmitted s then passwordResetRequestComplete
        else passwordResetRequestForm (pg_apiError (rq_page s)) (pg_pending (rq_page s)) (pg_form (rq_page s)),
        back_to_login]"

datatype view_state = VForm | VComplete | VTokenInvalid

record reset_page =
  rs_page :: auth_page
  viewState :: view_state

definition mounted_reset :: reset_page where
  "mounted_reset = \<lparr>rs_page = mounted_auth_page, viewState = VForm\<rparr>"

definition reset_values :: "string option \<Rightarrow> form_values \<Rightarrow> string \<times> string" where
  \<comment> \<open>the token of the URL and what the form hands over: only the new password\<close>
  "reset_values token v = (case token of Some t \<Rightarrow> t | None \<Rightarrow> [], v ''new_password'')"

fun token_rejected :: "js_error \<Rightarrow> bool" where
  "token_rejected (ApiClientError _ _ code _) \<longleftrightarrow> code = JStr ''INVALID_TOKEN'' \<or> code = JStr ''TOKEN_EXPIRED''"
| "token_rejected _ = False"

definition reset_settled :: "js_error + jsval \<Rightarrow> reset_page \<Rightarrow> reset_page" where
  "reset_settled res s =
     (let idle = (rs_page s)\<lparr>pg_pending := False\<rparr> in
      case res of
        Inr _ \<Rightarrow> s\<lparr>rs_page := idle, viewState := VComplete\<rparr>
      | Inl e \<Rightarrow>
          if token_rejected e then s\<lparr>rs_page := idle, viewState := VTokenInvalid\<rparr>
          else s\<lparr>rs_page := idle\<lparr>pg_apiError := Some (getErrorMessage e)\<rparr>\<rparr>)"

definition passwordResetComplete :: "'e jsx" where
  "passwordResetComplete =
     El ''div'' [(''data-testid'', AStr ''password-reset-complete'')]
       [El ''p'' [] [Txt ''The password was changed.''], El ''Link'' [(''to'', AStr ''/login'')] [Txt ''To the login'']]"

definition passwordResetTokenInvalid :: "'e jsx" where
  "passwordResetTokenInvalid =
     El ''div'' [(''data-testid'', AStr ''password-reset-token-invalid'')]
       [El ''p'' [] [Txt ''The link is invalid or has expired. Ask for a new one.''],
        El ''Link'' [(''to'', AStr ''/password-reset'')] [Txt ''To the password reset'']]"

definition passwordResetPage :: "reset_page \<Rightarrow> auth_ui jsx" where
  "passwordResetPage s =
     El ''AuthLayout'' []
       [when_jsx (viewState s = VForm)
          (El ''Fragment'' []
             [passwordResetForm (pg_apiError (rs_page s)) (pg_pending (rs_page s)) (pg_form (rs_page s)), back_to_login]),
        when_jsx (viewState s = VComplete) passwordResetComplete,
        when_jsx (viewState s = VTokenInvalid) passwordResetTokenInvalid]"

datatype reset_event = ReForm auth_event | ReSettled "js_error + jsval"

inductive reset_step ::
  "string option \<Rightarrow> reset_page \<Rightarrow> reset_event \<Rightarrow> (string \<times> string) option \<Rightarrow> reset_page \<Rightarrow> bool"
  for token :: "string option" where
  \<comment> \<open>an event on the page and the call it starts; the form is there as long as \<open>viewState\<close> is \<open>form\<close>\<close>
  form: "viewState s = VForm \<Longrightarrow> auth_page_step passwordResetSchema reset_keys ev (rs_page s) = (v, p) \<Longrightarrow>
     reset_step token s (ReForm ev) (map_option (reset_values token) v) (s\<lparr>rs_page := p\<rparr>)"
| settled: "pg_pending (rs_page s) \<Longrightarrow> reset_step token s (ReSettled r) None (reset_settled r s)"

code_pred (modes: i \<Rightarrow> i \<Rightarrow> i \<Rightarrow> o \<Rightarrow> o \<Rightarrow> bool) reset_step .

subsection \<open>Schemas and forms\<close>

lemma first_failed_None [simp]: "first_failed cs s = None \<longleftrightarrow> (\<forall>c \<in> set cs. fst c s)"
  by (auto simp: first_failed_def find_None_iff)

lemmas schema_defs = email_rule_def password_rule_def loginSchema_def signupSchema_def
  passwordResetRequestSchema_def passwordReset_rules_def rules_schema_def min_len_def max_len_def

lemma passwordResetSchema_None:
  "passwordResetSchema v k = None \<longleftrightarrow>
     rules_schema passwordReset_rules v k = None \<and> (k = ''confirm_password'' \<longrightarrow> v ''new_password'' = v ''confirm_password'')"
  by (simp add: passwordResetSchema_def split: option.split)

lemma reset_schema_ok:
  "list_all (\<lambda>k. passwordResetSchema v k = None) reset_keys \<longleftrightarrow>
     v ''new_password'' = v ''confirm_password'' \<and> 8 \<le> length (v ''new_password'') \<and>
     length (v ''new_password'') \<le> 128"
  by (auto simp: passwordResetSchema_None schema_defs)

lemma auth_submit_Some:
  "auth_submit sch ks s = (Some v, f) \<Longrightarrow> v = af_values s \<and> list_all (\<lambda>k. sch (af_values s) k = None) ks"
  by (auto simp: auth_submit_def split: if_splits)

lemma page_step_Some:
  assumes "auth_page_step sch ks ev s = (Some v, p)"
  shows "ev = AeSubmit \<and> \<not> pg_pending s \<and> pg_pending p \<and> pg_apiError p = None \<and> v = af_values (pg_form s) \<and>
    list_all (\<lambda>k. sch v k = None) ks"
proof -
  obtain f where "ev = AeSubmit" "\<not> pg_pending s" "auth_submit sch ks (pg_form s) = (Some v, f)"
    "p = s\<lparr>pg_form := f, pg_apiError := None, pg_pending := True\<rparr>"
    using assms by (cases ev) (auto simp: auth_page_step.simps split: if_splits prod.splits option.splits)
  then show ?thesis using auth_submit_Some by fastforce
qed

lemma page_step_sends:
  "\<not> pg_pending s \<Longrightarrow> list_all (\<lambda>k. sch (af_values (pg_form s)) k = None) ks \<Longrightarrow>
   pg_pending (snd (auth_page_step sch ks AeSubmit s))"
  by (simp add: auth_page_step.simps auth_submit_def)

lemma page_step_pending:
  "auth_page_step sch ks ev s = (v, p) \<Longrightarrow> pg_pending p \<Longrightarrow> v \<noteq> None \<or> pg_pending s"
  by (cases ev) (auto simp: auth_page_step.simps split: if_splits prod.splits option.splits)

text \<open>
  What can be sent. The login and the signup form call the server with the values of their fields when these keep
  all limits, and never otherwise: lengths from 1 to 254 for the e-mail address, which the schema
  library has to accept too, 8 to 128 for the password, at most 200 for the company and 100 for the
  name, none of them empty. The limits include both bounds.
\<close>

theorem auth_forms_accept:
  "fst (auth_submit (rules_schema (loginSchema is_email)) login_keys s) =
     (if length (af_values s ''email'') \<in> {1..254} \<and> is_email (af_values s ''email'') \<and>
         length (af_values s ''password'') \<in> {8..128}
      then Some (af_values s) else None) \<and>
   fst (auth_submit (rules_schema (signupSchema is_email)) signup_keys s) =
     (if length (af_values s ''company_name'') \<in> {1..200} \<and> length (af_values s ''user_name'') \<in> {1..100} \<and>
         length (af_values s ''email'') \<in> {1..254} \<and> is_email (af_values s ''email'') \<and>
         length (af_values s ''password'') \<in> {8..128}
      then Some (af_values s) else None)"
  by (auto simp: auth_submit_def schema_defs)

text \<open>
  Correcting the other field does not help. After a submission refused because the two passwords differ, typing
  the first password to match the second keeps the message at the second one, although the form would
  now be sent; typing in the second field removes it.
\<close>

theorem mismatch_message_stays:
  assumes "8 \<le> length pw" "length pw \<le> 128" "length other \<in> {8..128}" "pw \<noteq> other"
  shows "let s = fresh_auth_form\<lparr>af_values := (\<lambda>_. [])(''new_password'' := other, ''confirm_password'' := pw)\<rparr>;
             refused = snd (auth_submit passwordResetSchema reset_keys s);
             first = auth_change passwordResetSchema ''new_password'' pw refused;
             second = auth_change passwordResetSchema ''confirm_password'' other refused
         in fst (auth_submit passwordResetSchema reset_keys s) = None \<and>
            af_errors first ''confirm_password'' = Some ''The passwords do not match'' \<and>
            fst (auth_submit passwordResetSchema reset_keys first) = Some (af_values first) \<and>
            af_errors second ''confirm_password'' = None"
proof -
  have ne: "pw \<noteq> []" "other \<noteq> []" using assms by auto
  show ?thesis
    unfolding Let_def auth_submit_def auth_change_def auth_validate_def fresh_auth_form_def reset_schema_ok
    using assms ne by (simp add: passwordResetSchema_def schema_defs Suc_le_eq first_failed_def)
qed

theorem mismatch_message_stays_witness:
  "af_errors (auth_change passwordResetSchema ''new_password'' ''abcdefgh''
     (snd (auth_submit passwordResetSchema reset_keys
       (fresh_auth_form\<lparr>af_values := (\<lambda>_. [])(''new_password'' := ''abcdefgg'', ''confirm_password'' := ''abcdefgh'')\<rparr>))))
   ''confirm_password'' = Some ''The passwords do not match''"
  using mismatch_message_stays [of "''abcdefgh''" "''abcdefgg''"] unfolding Let_def by simp

subsection \<open>Login\<close>

lemma text_of_form:
  "m \<in> set (texts_of (auth_form_view inputs l (Some m) p f))"
  by (simp add: auth_form_view_def formAlert_def)

text \<open>
  A failed login tells nothing about its reason: whatever is thrown, unless the server asks to wait, the page shows
  the same text, keeps the tokens and stays. So an unknown address, a wrong password and an account
  of another state look alike - and so does a server that does not answer.
\<close>

theorem failed_logins_look_alike:
  assumes "\<And>m st d. e \<noteq> ApiClientError m st (JStr ''RATE_LIMIT_EXCEEDED'') d"
  shows "login_settled from (Inl e) (a, s) =
      (None, a, s\<lparr>pg_apiError := Some msg_credentials, pg_pending := False\<rparr>) \<and>
    msg_credentials \<in> set (texts_of (loginPage (snd (snd (login_settled from (Inl e) (a, s))))))"
proof -
  have "getLoginErrorMessage e = msg_credentials" using assms by (cases e) auto
  then show ?thesis
    using text_of_form by (simp add: login_settled_def loginPage_def loginForm_def)
qed

theorem failed_logins_look_alike_witness:
  "login_settled None (Inl type_error) (load_auth \<lparr>st_items = Map.empty, st_get_ok = True, st_set_ok = True,
       st_remove_ok = True\<rparr>, mounted_auth_page) =
     login_settled None (Inl (ApiClientError ''m'' 401 (JStr ''INVALID_CREDENTIALS'') Undefined))
       (load_auth \<lparr>st_items = Map.empty, st_get_ok = True, st_set_ok = True, st_remove_ok = True\<rparr>, mounted_auth_page)"
proof -
  let ?a = "load_auth \<lparr>st_items = Map.empty, st_get_ok = True, st_set_ok = True, st_remove_ok = True\<rparr>"
  have "\<And>m st d. type_error \<noteq> ApiClientError m st (JStr ''RATE_LIMIT_EXCEEDED'') d" by simp
  note one = failed_logins_look_alike [OF this, of None ?a mounted_auth_page]
  have "\<And>n st d. ApiClientError ''m'' 401 (JStr ''INVALID_CREDENTIALS'') Undefined \<noteq>
      ApiClientError n st (JStr ''RATE_LIMIT_EXCEEDED'') d" by simp
  note two = failed_logins_look_alike [OF this, of None ?a mounted_auth_page]
  show ?thesis using one two by simp
qed

definition race_over :: "string option \<Rightarrow> jsval \<Rightarrow> login_race \<Rightarrow> bool" where
  \<comment> \<open>nothing is due any more\<close>
  "race_over from data s \<longleftrightarrow> list_all (\<lambda>e. login_race_step from data e s = None) [LHandler, LNotify, LRender]"

definition is_search :: "string \<Rightarrow> bool" where
  "is_search q \<longleftrightarrow> q = [] \<or> hd q = CHR ''?''"

lemma view_of_location:
  assumes "CHR ''?'' \<notin> set p" "is_search q"
  shows "view_of_url a (p @ q) = app_view a p q"
proof (cases q)
  case (Cons c q')
  with assms(2) have "q = CHR ''?'' # q'" by (simp add: is_search_def)
  then show ?thesis using assms(1) by (simp add: view_of_url_def)
qed (use assms(1) in \<open>simp add: view_of_url_def\<close>)

lemma stored_again:
  assumes "js_get data ''access_token'' = Inr acc" "js_get data ''refresh_token'' = Inr ref" "acc \<noteq> JNull"
  shows "useAuth (stored_tokens data a)"
  using assms by (simp add: stored_tokens_def useAuth_def setTokens_def getAccessToken_def Let_def)

abbreviation race :: "auth_store \<Rightarrow> string \<Rightarrow> string \<Rightarrow> bool \<Rightarrow> bool \<Rightarrow> login_race" where
  "race a url rendered h n \<equiv>
     \<lparr>lg_auth = a, lg_url = url, lg_rendered = rendered, lg_handler = h, lg_notified = n\<rparr>"

lemma race_run_iff:
  "login_race_run from data es s = Some r \<longleftrightarrow>
     es = [] \<and> r = s \<or>
     (\<exists>es' t. es = LHandler # es' \<and> login_race_step from data LHandler s = Some t \<and> login_race_run from data es' t = Some r) \<or>
     (\<exists>es' t. es = LNotify # es' \<and> login_race_step from data LNotify s = Some t \<and> login_race_run from data es' t = Some r) \<or>
     (\<exists>es' t. es = LRender # es' \<and> login_race_step from data LRender s = Some t \<and> login_race_run from data es' t = Some r)"
proof (cases es)
  case (Cons e es')
  then show ?thesis by (cases e) (auto split: option.splits)
qed auto

lemma race_steps:
  assumes "useAuth (stored_tokens data a)"
  shows "login_race_step (Some u) data LHandler (race a url r h n) =
      (if h then None else Some (race (stored_tokens data a) u r True n))"
    "login_race_step (Some u) data LNotify (race (stored_tokens data a) url r h n) =
      (if n then None
       else Some (race (stored_tokens data a) (if r = ''/login'' then ''/dashboard'' else url) r h True))"
  using assms by (simp_all add: login_settled_def authLayout_def redirected_def)

lemma race_render:
  assumes "view_of_url a url = Some (ShowInLayout p m) \<and> x = url \<or> view_of_url a url = Some (NavigateTo x from')"
  shows "login_race_step from data LRender (race a url r h n) =
      (if r = url then None else Some (race a x url h n))"
  using assms by (auto simp: redirected_def)

text \<open>All the runs there are: \<open>u\<close> is the origin, \<open>x\<close> what the router makes of it.\<close>

lemma race_runs:
  assumes "u \<noteq> ''/login''" "\<And>b. useAuth (stored_tokens data b)"
    and "\<And>b. view_of_url (stored_tokens data b) ''/dashboard'' = Some (ShowInLayout PDashboard [])"
    and "\<And>b. (\<exists>p m. view_of_url (stored_tokens data b) u = Some (ShowInLayout p m)) \<and> x = u \<or>
      view_of_url (stored_tokens data b) u = Some (NavigateTo x None) \<and> x = ''/dashboard'' \<and> u \<noteq> ''/dashboard''"
    and "login_race_run (Some u) data es (login_accepted data a) = Some s"
  shows "\<exists>b. lg_auth s = stored_tokens data b" "length es \<le> 5"
    "race_over (Some u) data s \<Longrightarrow> lg_rendered s = lg_url s \<and>
       lg_url s = (if es = [LHandler, LNotify, LRender] then ''/dashboard'' else x)"
proof -
  let ?f = "stored_tokens data" and ?D = "''/dashboard''" and ?L = "''/login''"
  note hn = race_steps [OF assms(2), of u]
  have rd: "login_race_step (Some u) data LRender (race (?f b) ?D r h n) =
      (if r = ?D then None else Some (race (?f b) ?D ?D h n))" for b r h n
    by (rule race_render) (use assms(3) in simp)
  have ru: "login_race_step (Some u) data LRender (race (?f b) u r h n) =
      (if r = u then None else Some (race (?f b) x u h n))" for b r h n
    using assms(4) [of b] race_render [of "?f b" u _ _ x None] by metis
  have x: "x = u \<or> x = ?D \<and> u \<noteq> ?D" using assms(4) by blast
  have rx: "login_race_step (Some u) data LRender (race (?f b) x r h n) =
      (if r = x then None else Some (race (?f b) x x h n))" for b r h n
    using x rd ru by metis
  have login_here: "login_race_step (Some u) data LRender (race b ?L ?L h n) = None" for b h n by simp
  note run = race_run_iff [of "Some u" data]
  note steps = hn rd ru rx assms(1) assms(1) [symmetric]
  let ?run = "login_race_run (Some u) data"
  have over: "?run es' (race (?f b) y y True True) = Some r \<longleftrightarrow> es' = [] \<and> r = race (?f b) y y True True"
    if "y = x \<or> y = ?D" for es' b y r
    by (subst run) (use that x in \<open>auto simp: steps simp del: login_race_step.simps\<close>)
  have redir: "?run es' (race (?f b) ?D ?L True True) = Some r \<longleftrightarrow> es' = [] \<and> r = race (?f b) ?D ?L True True \<or>
      es' = [LRender] \<and> r = race (?f b) ?D ?D True True" for es' b r
    by (subst run) (auto simp: steps over simp del: login_race_step.simps)
  have seen: "?run es' (race (?f b) x u True True) = Some r \<longleftrightarrow> es' = [] \<and> r = race (?f b) x u True True \<or>
      x \<noteq> u \<and> es' = [LRender] \<and> r = race (?f b) x x True True" for es' b r
    by (subst run) (use x in \<open>auto simp: steps over simp del: login_race_step.simps\<close>)
  have going: "?run es' (race (?f b) u z True True) = Some r \<longleftrightarrow> es' = [] \<and> r = race (?f b) u z True True \<or>
      (\<exists>es2. z \<noteq> u \<and> es' = LRender # es2 \<and> ?run es2 (race (?f b) x u True True) = Some r)" for es' b z r
    by (subst run) (auto simp: steps simp del: login_race_step.simps)
  have waiting: "?run es' (race (?f b) ?D ?D True False) = Some r \<longleftrightarrow> es' = [] \<and> r = race (?f b) ?D ?D True False \<or>
      es' = [LNotify] \<and> r = race (?f b) ?D ?D True True" for es' b r
    by (subst run) (auto simp: steps over simp del: login_race_step.simps)
  have landed: "?run es' (race (?f b) x u True False) = Some r \<longleftrightarrow> es' = [] \<and> r = race (?f b) x u True False \<or>
      (\<exists>es2. es' = LNotify # es2 \<and> ?run es2 (race (?f b) x u True True) = Some r) \<or>
      (\<exists>es2. x \<noteq> u \<and> es' = LRender # es2 \<and> ?run es2 (race (?f b) ?D ?D True False) = Some r)" for es' b r
    by (subst run) (use x in \<open>auto simp: steps simp del: login_race_step.simps\<close>)
  have moved: "?run es' (race (?f b) u ?L True False) = Some r \<longleftrightarrow> es' = [] \<and> r = race (?f b) u ?L True False \<or>
      (\<exists>es2. es' = LNotify # es2 \<and> ?run es2 (race (?f b) ?D ?L True True) = Some r) \<or>
      (\<exists>es2. es' = LRender # es2 \<and> ?run es2 (race (?f b) x u True False) = Some r)" for es' b r
    by (subst run) (auto simp: steps simp del: login_race_step.simps)
  have early2: "?run es' (race (?f b) ?D ?D False True) = Some r \<longleftrightarrow> es' = [] \<and> r = race (?f b) ?D ?D False True \<or>
      (\<exists>es2. es' = LHandler # es2 \<and> ?run es2 (race (?f (?f b)) u ?D True True) = Some r)" for es' b r
    by (subst run) (auto simp: steps simp del: login_race_step.simps)
  have early: "?run es' (race (?f b) ?D ?L False True) = Some r \<longleftrightarrow> es' = [] \<and> r = race (?f b) ?D ?L False True \<or>
      (\<exists>es2. es' = LHandler # es2 \<and> ?run es2 (race (?f (?f b)) u ?L True True) = Some r) \<or>
      (\<exists>es2. es' = LRender # es2 \<and> ?run es2 (race (?f b) ?D ?D False True) = Some r)" for es' b r
    by (subst run) (auto simp: steps simp del: login_race_step.simps)
  have all: "?run es' (race (?f b) ?L ?L False False) = Some r \<longleftrightarrow> es' = [] \<and> r = race (?f b) ?L ?L False False \<or>
      (\<exists>es2. es' = LHandler # es2 \<and> ?run es2 (race (?f (?f b)) u ?L True False) = Some r) \<or>
      (\<exists>es2. es' = LNotify # es2 \<and> ?run es2 (race (?f b) ?D ?L False True) = Some r)" for es' b r
    by (subst run) (auto simp: steps login_here simp del: login_race_step.simps)
  show "\<exists>b. lg_auth s = stored_tokens data b" "length es \<le> 5"
    "race_over (Some u) data s \<Longrightarrow> lg_rendered s = lg_url s \<and>
       lg_url s = (if es = [LHandler, LNotify, LRender] then ''/dashboard'' else x)"
    using assms(5) unfolding login_accepted_def all moved landed waiting early early2 going seen redir over
    using x by (auto simp: race_over_def steps simp del: login_race_step.simps)
qed

text \<open>
  C31. Back to where one came from, or to the dashboard. A visitor without a token who opens a private page is sent to the
  login, with the path and query of that page. When the server accepts the login, then in whatever order the handler
  goes on, the page is rendered again and the router renders what was navigated to, it all comes to an end
  after at most five such steps, with a token, and
  the visitor ends on a page behind the guard, never on the login. This is the page the visitor came from
  except in one order: when the login page is rendered again after the handler has navigated, but before the router has
  rendered that, its layout overrides the navigation and the visitor ends on the dashboard.
\<close>

theorem login_returns_to_origin:
  assumes "\<not> useAuth a" "app_view a pathname search = Some (NavigateTo t from)"
    and "CHR ''?'' \<notin> set pathname" "is_search search"
    and "js_get data ''access_token'' = Inr acc" "js_get data ''refresh_token'' = Inr ref" "acc \<noteq> JNull"
    and "login_race_run from data es (login_accepted data a) = Some s"
  shows "t = ''/login'' \<and> useAuth (lg_auth s) \<and> length es \<le> 5 \<and>
    (race_over from data s \<longrightarrow>
       (\<exists>p m. view_of_url (lg_auth s) (lg_url s) = Some (ShowInLayout p m)) \<and> lg_rendered s = lg_url s \<and>
       (if es = [LHandler, LNotify, LRender] \<or> app_view (lg_auth s) pathname search = Some (NavigateTo ''/dashboard'' None)
        then lg_url s = ''/dashboard''
        else lg_url s = pathname @ search))"
proof -
  let ?u = "pathname @ search" and ?f = "stored_tokens data"
  note view = view_of_location [OF assms(3,4)]
  obtain r m where r: "match_routes app_routes pathname = Some (r, m)" using some_route by blast
  have v: "rt_private r" "t = ''/login''" "from = Some ?u"
    using assms(1,2) r by (auto simp: app_view_def privateRoute_def authLayout_def split: if_splits)
  have auth: "useAuth (?f b)" for b by (rule stored_again [OF assms(5-7)])
  have origin: "app_view (?f b) pathname search =
      Some (if rt_page r = PHome then NavigateTo ''/dashboard'' None else ShowInLayout (rt_page r) m)" for b
    using r v(1) auth by (simp add: app_view_def privateRoute_def)
  have known: "match_routes app_routes ''/login'' = Some (public_route [Static ''login''] PLogin, [])"
    "match_routes app_routes ''/dashboard'' = Some (private_route [Static ''dashboard''] PDashboard, [])"
    by code_simp+
  have fixed: "view_of_url b ''/login'' = Some (authLayout b PLogin)"
    "view_of_url (?f b) ''/dashboard'' = Some (ShowInLayout PDashboard [])" for b
    using view_of_location [of "''/login''" "[]" b] view_of_location [of "''/dashboard''" "[]" "?f b"] auth
    by (simp_all add: is_search_def app_view_def known privateRoute_def)
  have login: "?u \<noteq> ''/login''"
    using view [of a] assms(1,2) fixed(1) [of a] by (auto simp: authLayout_def)
  define x where "x = (if rt_page r = PHome then ''/dashboard'' else ?u)"
  have home: "?u \<noteq> ''/dashboard''" if "rt_page r = PHome"
  proof
    assume e: "?u = ''/dashboard''"
    have "view_of_url (?f a) ''/dashboard'' = app_view (?f a) pathname search" using view [of "?f a"] unfolding e .
    then show False using fixed(2) [of a] that by (simp add: origin)
  qed
  have views: "(\<exists>p m. view_of_url (?f b) ?u = Some (ShowInLayout p m)) \<and> x = ?u \<or>
      view_of_url (?f b) ?u = Some (NavigateTo x None) \<and> x = ''/dashboard'' \<and> ?u \<noteq> ''/dashboard''" for b
    using home by (auto simp: view origin x_def)
  note runs = race_runs [OF login auth fixed(2) views assms(8) [unfolded v(3)]]
  from runs(1) obtain b where b: "lg_auth s = ?f b" by blast
  show ?thesis
    using runs(2,3) v(2) auth fixed(2) [of b] view origin by (auto simp: b v(3) x_def split: if_splits)
qed

theorem login_returns_to_origin_witness:
  "\<exists>a data s s'. login_race_run (Some ''/reports?page=2'') data [LHandler, LRender, LNotify] (login_accepted data a) = Some s \<and>
     lg_url s = ''/reports?page=2'' \<and>
     login_race_run (Some ''/reports?page=2'') data [LHandler, LNotify, LRender] (login_accepted data a) = Some s' \<and>
     lg_url s' = ''/dashboard''"
proof -
  let ?a = "load_auth \<lparr>st_items = Map.empty, st_get_ok = True, st_set_ok = True, st_remove_ok = True\<rparr>"
  let ?d = "JObj [(''access_token'', JStr ''a''), (''refresh_token'', JStr ''r'')]"
  let ?from = "Some ''/reports?page=2''"
  have n: "\<not> useAuth ?a"
    by (simp add: useAuth_def getAccessToken_def load_auth_def safeGetItem_def storage_getItem_def)
  have v: "app_view ?a ''/reports'' ''?page=2'' = Some (NavigateTo ''/login'' ?from)" by code_simp
  have u: "CHR ''?'' \<notin> set ''/reports''" "is_search ''?page=2''" by (simp_all add: is_search_def)
  have g: "js_get ?d ''access_token'' = Inr (JStr ''a'')" "js_get ?d ''refresh_token'' = Inr (JStr ''r'')"
    "JStr ''a'' \<noteq> JNull" by simp_all
  note ends = login_returns_to_origin [OF n v u g]
  have "case login_race_run ?from ?d [LHandler, LRender, LNotify] (login_accepted ?d ?a) of
      Some s \<Rightarrow> race_over ?from ?d s \<and> app_view (lg_auth s) ''/reports'' ''?page=2'' \<noteq> Some (NavigateTo ''/dashboard'' None)
    | None \<Rightarrow> False" by code_simp
  then obtain s where s: "login_race_run ?from ?d [LHandler, LRender, LNotify] (login_accepted ?d ?a) = Some s"
    "race_over ?from ?d s" "app_view (lg_auth s) ''/reports'' ''?page=2'' \<noteq> Some (NavigateTo ''/dashboard'' None)"
    by (auto split: option.splits)
  have "case login_race_run ?from ?d [LHandler, LNotify, LRender] (login_accepted ?d ?a) of
      Some s \<Rightarrow> race_over ?from ?d s | None \<Rightarrow> False" by code_simp
  then obtain s' where s': "login_race_run ?from ?d [LHandler, LNotify, LRender] (login_accepted ?d ?a) = Some s'"
    "race_over ?from ?d s'" by (auto split: option.splits)
  from ends [OF s(1)] s(2,3) have "lg_url s = ''/reports?page=2''" by simp
  moreover from ends [OF s'(1)] s'(2) have "lg_url s' = ''/dashboard''" by simp
  ultimately show ?thesis using s(1) s'(1) by blast
qed

subsection \<open>Resetting the password\<close>

inductive reset_reach :: "string option \<Rightarrow> reset_page \<Rightarrow> bool" for token :: "string option" where
  mounted: "reset_reach token mounted_reset"
| stepped: "reset_reach token s \<Longrightarrow> reset_step token s ev c s' \<Longrightarrow> reset_reach token s'"

inductive_cases reset_stepE [elim!]: "reset_step token s ev c s'"

inductive_simps reset_step_simps [simp]:
  "reset_step token s (ReForm ev) c s'"
  "reset_step token s (ReSettled r) c s'"

lemma settled_idle [simp]: "\<not> pg_pending (rs_page (reset_settled r s))"
  by (simp add: reset_settled_def Let_def split: sum.split)

lemma reset_reach_pending: "reset_reach token s \<Longrightarrow> pg_pending (rs_page s) \<Longrightarrow> viewState s = VForm"
  by (induction rule: reset_reach.induct) (auto simp: mounted_reset_def mounted_auth_page_def)

text \<open>
  C32. The password reset is over once the server has decided. In every state the page can reach: the message of success
  comes with an accepted call and the one about the link with a call refused for its token, each
  from nothing else; once one of them is there no event is possible any more, so no late answer can
  take it back; and what is on the page is the form, the success or the refusal, never two of them.
\<close>

theorem reset_decides_once:
  assumes "reset_reach token s"
  shows "(viewState s \<noteq> VForm \<longrightarrow> \<not> (\<exists>ev c s'. reset_step token s ev c s')) \<and>
    (\<forall>ev c s'. reset_step token s ev c s' \<longrightarrow>
       (viewState s' = VComplete \<longleftrightarrow> (\<exists>v. ev = ReSettled (Inr v))) \<and>
       (viewState s' = VTokenInvalid \<longleftrightarrow> (\<exists>e. ev = ReSettled (Inl e) \<and> token_rejected e)))"
  using reset_reach_pending [OF assms]
  by (auto simp: reset_settled_def Let_def split: sum.splits if_splits)

definition typed_reset :: "string \<Rightarrow> reset_page" where
  \<comment> \<open>the page with the same text in both fields, submitted\<close>
  "typed_reset pw = mounted_reset\<lparr>rs_page :=
     (let p1 = snd (auth_page_step passwordResetSchema reset_keys (AeChange ''new_password'' pw) mounted_auth_page);
          p2 = snd (auth_page_step passwordResetSchema reset_keys (AeChange ''confirm_password'' pw) p1)
      in snd (auth_page_step passwordResetSchema reset_keys AeSubmit p2))\<rparr>"

lemma typed_reset_reach:
  assumes "8 \<le> length pw" "length pw \<le> 128"
  shows "reset_reach token (typed_reset pw) \<and> pg_pending (rs_page (typed_reset pw))"
proof -
  let ?step = "auth_page_step passwordResetSchema reset_keys"
  let ?p1 = "snd (?step (AeChange ''new_password'' pw) mounted_auth_page)"
  let ?p2 = "snd (?step (AeChange ''confirm_password'' pw) ?p1)"
  have v: "af_values (pg_form ?p2) = (\<lambda>_. [])(''new_password'' := pw, ''confirm_password'' := pw)"
    "\<not> pg_pending ?p1" "\<not> pg_pending ?p2"
    by (simp_all add: auth_page_step.simps mounted_auth_page_def fresh_auth_form_def auth_change_def)
  have reach: "reset_reach token (mounted_reset\<lparr>rs_page := p\<rparr>) \<Longrightarrow>
      reset_reach token (mounted_reset\<lparr>rs_page := snd (?step ev p)\<rparr>)" for ev p
    by (rule stepped [where ev = "ReForm ev" and c = "map_option (reset_values token) (fst (?step ev p))"])
      (assumption, cases "?step ev p", simp add: mounted_reset_def)
  have "reset_reach token (mounted_reset\<lparr>rs_page := mounted_auth_page\<rparr>)"
    using mounted by (simp add: mounted_reset_def)
  then have "reset_reach token (typed_reset pw)"
    unfolding typed_reset_def Let_def by (intro reach)
  moreover have "pg_pending (snd (?step AeSubmit ?p2))"
    by (rule page_step_sends [OF v(3)]) (use assms in \<open>unfold reset_schema_ok v(1), simp\<close>)
  ultimately show ?thesis by (simp add: typed_reset_def Let_def)
qed

theorem reset_decides_once_witness:
  "\<not> (\<exists>ev c s'. reset_step (Some ''t'') (reset_settled (Inr JNull) (typed_reset ''abcdefgh'')) ev c s')"
proof -
  have t: "reset_reach (Some ''t'') (typed_reset ''abcdefgh'')" "pg_pending (rs_page (typed_reset ''abcdefgh''))"
    using typed_reset_reach [of "''abcdefgh''"] by simp_all
  have "reset_reach (Some ''t'') (reset_settled (Inr JNull) (typed_reset ''abcdefgh''))"
    by (rule stepped [where ev = "ReSettled (Inr JNull)" and c = None, OF t(1)]) (simp add: t(2))
  from reset_decides_once [OF this] show ?thesis by (simp add: reset_settled_def Let_def)
qed

text \<open>
  C33. Only a confirmed password is sent. A call of the reset page carries the token of the URL and a password of 8 to 128
  characters that both fields agree on, in a body without the confirmation; it starts from the form
  with no other call running, and removes the message of the call before.
\<close>

theorem reset_sends_confirmed_password:
  assumes "reset_step token s ev (Some (t, pw)) s'"
  shows "ev = ReForm AeSubmit \<and> viewState s = VForm \<and> \<not> pg_pending (rs_page s) \<and> pg_pending (rs_page s') \<and>
    pg_apiError (rs_page s') = None \<and> t = (case token of Some x \<Rightarrow> x | None \<Rightarrow> []) \<and>
    pw = af_values (pg_form (rs_page s)) ''new_password'' \<and> pw = af_values (pg_form (rs_page s)) ''confirm_password'' \<and>
    length pw \<in> {8..128} \<and>
    mu_init useExecutePasswordReset (t, pw) sig = api_put_init (PlainPayload (JObj [(''new_password'', JStr pw)])) sig"
proof -
  obtain e v p where e: "ev = ReForm e" "viewState s = VForm" "s' = s\<lparr>rs_page := p\<rparr>"
    "auth_page_step passwordResetSchema reset_keys e (rs_page s) = (Some v, p)" "(t, pw) = reset_values token v"
    using assms by (auto simp: eq_commute [of "Some (t, pw)"])
  note s = page_step_Some [OF e(4), unfolded reset_schema_ok]
  then show ?thesis using e(1-3,5) by (auto simp: reset_values_def useExecutePasswordReset_def)
qed

theorem reset_sends_confirmed_password_witness:
  "\<exists>c. reset_step (Some ''t'') (mounted_reset\<lparr>rs_page := mounted_auth_page\<lparr>pg_form :=
      fresh_auth_form\<lparr>af_values := (\<lambda>_. ''abcdefgh'')\<rparr>\<rparr>\<rparr>) (ReForm AeSubmit) (Some c)
      (mounted_reset\<lparr>rs_page := snd (auth_page_step passwordResetSchema reset_keys AeSubmit
        (mounted_auth_page\<lparr>pg_form := fresh_auth_form\<lparr>af_values := (\<lambda>_. ''abcdefgh'')\<rparr>\<rparr>))\<rparr>) \<and>
    c = (''t'', ''abcdefgh'')"
proof -
  let ?p = "mounted_auth_page\<lparr>pg_form := fresh_auth_form\<lparr>af_values := (\<lambda>_. ''abcdefgh'')\<rparr>\<rparr>"
  have ok: "list_all (\<lambda>k. passwordResetSchema (\<lambda>_. ''abcdefgh'') k = None) reset_keys"
    unfolding reset_schema_ok by simp
  then obtain p where p: "auth_page_step passwordResetSchema reset_keys AeSubmit ?p = (Some (\<lambda>_. ''abcdefgh''), p)"
    by (simp add: auth_page_step.simps auth_submit_def mounted_auth_page_def fresh_auth_form_def)
  then have st: "reset_step (Some ''t'') (mounted_reset\<lparr>rs_page := ?p\<rparr>) (ReForm AeSubmit) (Some (''t'', ''abcdefgh''))
      (mounted_reset\<lparr>rs_page := p\<rparr>)"
    using p by (simp add: mounted_reset_def reset_values_def)
  from reset_sends_confirmed_password [OF st] show ?thesis using st p by (simp)
qed

end
