(* ===== verification/Json_Types.thy ===== *)
theory Json_Types
  imports Query_Hooks
begin

text \<open>
  The types of request and response bodies (frontend/src/api/types.ts). The compiler checks them
  against the code that builds requests, but not against what the server sends, which is only cast.
  Here a type is data and \<open>has_type\<close> checks a value against it as the compiler would: the required
  members are there, optional ones may be missing or undefined, further members do not matter.
\<close>

datatype ts_type =
    TStr
  | TNum
  | TEnum "string list"
  | TArr ts_type
  | TObj "(string \<times> bool \<times> ts_type) list"  \<comment> \<open>name, required, type\<close>

fun has_type :: "jsval \<Rightarrow> ts_type \<Rightarrow> bool" where
  "has_type v TStr = (case v of JStr _ \<Rightarrow> True | _ \<Rightarrow> False)"
| "has_type v TNum = (case v of JNum _ \<Rightarrow> True | _ \<Rightarrow> False)"
| "has_type v (TEnum ss) = (case v of JStr s \<Rightarrow> s \<in> set ss | _ \<Rightarrow> False)"
| "has_type v (TArr t) = (case v of JArr vs \<Rightarrow> list_all (\<lambda>x. has_type x t) vs | _ \<Rightarrow> False)"
| "has_type v (TObj fs) =
     (case v of
        JObj ms \<Rightarrow> list_all (\<lambda>f. case map_of ms (fst f) of
            None \<Rightarrow> \<not> fst (snd f)
          | Some x \<Rightarrow> \<not> fst (snd f) \<and> x = Undefined \<or> has_type x (snd (snd f))) fs
      | _ \<Rightarrow> False)"

fun declared_only :: "jsval \<Rightarrow> ts_type \<Rightarrow> bool" where
  \<comment> \<open>no member that the type does not name\<close>
  "declared_only (JObj ms) (TObj fs) \<longleftrightarrow> list_all (\<lambda>m. fst m \<in> fst ` set fs) ms"
| "declared_only _ _ \<longleftrightarrow> True"

abbreviation req_member :: "string \<Rightarrow> ts_type \<Rightarrow> string \<times> bool \<times> ts_type" where
  "req_member k t \<equiv> (k, True, t)"

abbreviation opt_member :: "string \<Rightarrow> ts_type \<Rightarrow> string \<times> bool \<times> ts_type" where
  "opt_member k t \<equiv> (k, False, t)"

subsection \<open>The types\<close>

definition ApiResponse :: "ts_type \<Rightarrow> ts_type" where
  "ApiResponse t = TObj [req_member ''data'' t]"

definition ValidationError :: ts_type where
  "ValidationError = TObj [req_member ''field'' TStr, req_member ''message'' TStr]"

definition ApiError :: ts_type where
  "ApiError = TObj [req_member ''error'' (TObj
     [req_member ''code'' TStr, req_member ''message'' TStr, opt_member ''details'' (TArr ValidationError)])]"

definition Role_type :: ts_type where
  "Role_type = TEnum [''admin'', ''approver'', ''member'', ''accounting'']"

definition AuthTokens :: ts_type where
  "AuthTokens = TObj
     [req_member ''user'' (TObj [req_member ''id'' TStr, req_member ''name'' TStr, req_member ''email'' TStr, req_member ''role'' Role_type]),
      req_member ''tenant'' (TObj [req_member ''id'' TStr, req_member ''name'' TStr]),
      req_member ''access_token'' TStr, req_member ''refresh_token'' TStr]"

definition ExpenseReportCreateRequest :: ts_type where
  "ExpenseReportCreateRequest = TObj
     [req_member ''title'' TStr, req_member ''period_start'' TStr, req_member ''period_end'' TStr,
      opt_member ''reference_report_id'' TStr]"

definition ExpenseReportUpdateRequest :: ts_type where
  "ExpenseReportUpdateRequest = TObj
     [req_member ''title'' TStr, req_member ''period_start'' TStr, req_member ''period_end'' TStr, req_member ''updated_at'' TStr]"

definition ExpenseItemCreateRequest :: ts_type where
  "ExpenseItemCreateRequest = TObj
     [req_member ''expense_date'' TStr, req_member ''amount'' TNum, req_member ''category_id'' TStr, req_member ''description'' TStr]"

definition ExpenseItemUpdateRequest :: ts_type where
  "ExpenseItemUpdateRequest = TObj
     [req_member ''expense_date'' TStr, req_member ''amount'' TNum, req_member ''category_id'' TStr, req_member ''description'' TStr,
      req_member ''updated_at'' TStr]"

definition RejectRequest :: ts_type where
  "RejectRequest = TObj [req_member ''reason'' TStr, req_member ''updated_at'' TStr]"

definition ApproveRequest :: ts_type where
  "ApproveRequest = TObj [opt_member ''comment'' TStr, req_member ''updated_at'' TStr]"

definition Pagination :: ts_type where
  "Pagination = TObj [req_member ''current_page'' TNum, req_member ''per_page'' TNum, req_member ''total_count'' TNum,
     req_member ''total_pages'' TNum]"

definition ApiListResponse :: "ts_type \<Rightarrow> ts_type" where
  "ApiListResponse t = TObj [req_member ''data'' (TArr t), req_member ''pagination'' Pagination]"

definition MimeType :: ts_type where
  "MimeType = TEnum [''image/jpeg'', ''image/png'', ''application/pdf'']"

definition ReportStatus :: ts_type where
  "ReportStatus = TEnum [''draft'', ''submitted'', ''approved'', ''rejected'', ''paid'']"

definition UserSummary :: ts_type where
  "UserSummary = TObj [req_member ''id'' TStr, req_member ''name'' TStr]"

definition AttachmentAccess :: ts_type where
  "AttachmentAccess = TObj [req_member ''url'' TStr, req_member ''file_name'' TStr, req_member ''mime_type'' MimeType,
     req_member ''file_size'' TNum, req_member ''expires_at'' TStr]"

definition HealthCheckResponse :: ts_type where
  "HealthCheckResponse = TObj [req_member ''status'' (TEnum [''ok'', ''degraded'']),
     req_member ''checks'' (TObj [req_member ''database'' (TEnum [''ok'', ''error''])])]"

definition ExpenseReportSummary :: ts_type where
  "ExpenseReportSummary = TObj
     [req_member ''id'' TStr, req_member ''title'' TStr, req_member ''period_start'' TStr, req_member ''period_end'' TStr,
      req_member ''status'' ReportStatus, req_member ''total_amount'' TNum, opt_member ''submitted_at'' TStr,
      req_member ''created_at'' TStr, req_member ''updated_at'' TStr, opt_member ''submitter'' UserSummary]"

definition CreateItemInput :: ts_type where
  \<comment> \<open>the argument of the hook (frontend/src/hooks/useItems.ts)\<close>
  "CreateItemInput = TObj
     [req_member ''expense_date'' TStr, req_member ''amount'' TNum, req_member ''category_id'' TStr, req_member ''description'' TStr,
      req_member ''reportId'' TStr]"

definition UpdateItemInput :: ts_type where
  "UpdateItemInput = TObj
     [req_member ''expense_date'' TStr, req_member ''amount'' TNum, req_member ''category_id'' TStr, req_member ''description'' TStr,
      req_member ''updated_at'' TStr, req_member ''reportId'' TStr, req_member ''itemId'' TStr]"

definition VersionBody :: ts_type where
  \<comment> \<open>the inline type of the bodies of submitting and paying\<close>
  "VersionBody = TObj [req_member ''updated_at'' TStr]"

lemmas request_types = CreateItemInput_def UpdateItemInput_def VersionBody_def ExpenseReportCreateRequest_def ExpenseReportUpdateRequest_def ExpenseItemCreateRequest_def
  ExpenseItemUpdateRequest_def RejectRequest_def ApproveRequest_def

subsection \<open>Properties\<close>

definition typed_body :: "init \<Rightarrow> ts_type \<Rightarrow> bool" where
  "typed_body i t \<longleftrightarrow> (case in_body i of Some (JsonBody v) \<Rightarrow> has_type v t \<and> declared_only v t | _ \<Rightarrow> False)"

lemma typed_body_post [simp]: "typed_body (api_post_init (PlainPayload (JObj ms)) sig) t \<longleftrightarrow>
    has_type (JObj ms) t \<and> declared_only (JObj ms) t"
  by (simp add: typed_body_def api_post_init_def payload_body_def json_body_def)

lemma typed_body_put [simp]: "typed_body (api_put_init (PlainPayload (JObj ms)) sig) t \<longleftrightarrow>
    has_type (JObj ms) t \<and> declared_only (JObj ms) t"
  by (simp add: typed_body_def api_put_init_def payload_body_def json_body_def)

lemma map_of_rest: "map_of (rest_members ks ms) k = (if k \<in> set ks then None else map_of ms k)"
  by (induction ms) (auto simp: rest_members_def)

lemma typed_rest:
  assumes "has_type (JObj ms) (TObj fs)" "set gs \<subseteq> set fs" "fst ` set gs \<inter> set ks = {}"
  shows "has_type (JObj (rest_members ks ms)) (TObj gs)"
  using assms by (fastforce simp: list_all_iff map_of_rest)

lemma declared_rest:
  "declared_only (JObj (rest_members ks ms)) (TObj fs) \<longleftrightarrow>
     (\<forall>m \<in> set ms. fst m \<in> fst ` set fs \<or> fst m \<in> set ks)"
  unfolding declared_only.simps list_all_iff rest_members_def set_filter by blast

lemmas item_members_defs = createItem_body_def updateItem_body_def create_item_members_def update_item_members_def
  item_members_def rest_members_def

text \<open>
  C39. Requests have their declared types. Every mutation on reports, items and decisions - to create, update
  and submit a report, to approve, reject and pay it, to create and update an item - sends a JSON object with
  all members its request type requires, each of its type, and optional ones only with a value of their
  type; and with the arguments the application builds, no member that the type does not name. The two hooks
  of items send all of their argument but the identifiers: for every object that the compiler accepts as
  their argument, whatever members it has besides, the body is of the request type too, and it has undeclared
  members exactly when the argument has some.
\<close>

theorem request_bodies_are_typed:
  assumes "has_type (JObj cm) CreateItemInput" and "has_type (JObj um) UpdateItemInput"
  shows "typed_body (mu_init useCreateReport cr sig) ExpenseReportCreateRequest \<and>
   typed_body (mu_init useUpdateReport ur sig) ExpenseReportUpdateRequest \<and>
   typed_body (mu_init useSubmitReport si sig) VersionBody \<and>
   typed_body (mu_init useApproveReport ai sig) ApproveRequest \<and>
   typed_body (mu_init useRejectReport ri sig) RejectRequest \<and>
   typed_body (mu_init useMarkAsPaid pi sig) VersionBody \<and>
   typed_body (mu_init useCreateItem ci sig) ExpenseItemCreateRequest \<and>
   typed_body (mu_init useUpdateItem ui sig) ExpenseItemUpdateRequest \<and>
   has_type (JObj (createItem_body cm)) ExpenseItemCreateRequest \<and>
   has_type (JObj (updateItem_body um)) ExpenseItemUpdateRequest \<and>
   (declared_only (JObj (createItem_body cm)) ExpenseItemCreateRequest \<longleftrightarrow> declared_only (JObj cm) CreateItemInput) \<and>
   (declared_only (JObj (updateItem_body um)) ExpenseItemUpdateRequest \<longleftrightarrow> declared_only (JObj um) UpdateItemInput)"
proof -
  have reports: "typed_body (mu_init useCreateReport cr sig) ExpenseReportCreateRequest"
    "typed_body (mu_init useUpdateReport ur sig) ExpenseReportUpdateRequest"
    "typed_body (mu_init useSubmitReport si sig) VersionBody" "typed_body (mu_init useApproveReport ai sig) ApproveRequest"
    "typed_body (mu_init useRejectReport ri sig) RejectRequest" "typed_body (mu_init useMarkAsPaid pi sig) VersionBody"
    by (simp_all add: mutation_defs request_types key_str_def split: option.split)
  have items: "typed_body (mu_init useCreateItem ci sig) ExpenseItemCreateRequest"
    "typed_body (mu_init useUpdateItem ui sig) ExpenseItemUpdateRequest"
    by (simp_all add: mutation_defs request_types item_members_defs)
  have "has_type (JObj (createItem_body cm)) ExpenseItemCreateRequest"
    unfolding createItem_body_def ExpenseItemCreateRequest_def
    by (rule typed_rest [OF assms(1) [unfolded CreateItemInput_def]]) auto
  moreover have "has_type (JObj (updateItem_body um)) ExpenseItemUpdateRequest"
    unfolding updateItem_body_def ExpenseItemUpdateRequest_def
    by (rule typed_rest [OF assms(2) [unfolded UpdateItemInput_def]]) auto
  moreover have "declared_only (JObj (createItem_body cm)) ExpenseItemCreateRequest \<longleftrightarrow> declared_only (JObj cm) CreateItemInput"
    unfolding createItem_body_def ExpenseItemCreateRequest_def CreateItemInput_def declared_rest
    by (simp add: list_all_iff disj_assoc)
  moreover have "declared_only (JObj (updateItem_body um)) ExpenseItemUpdateRequest \<longleftrightarrow> declared_only (JObj um) UpdateItemInput"
    unfolding updateItem_body_def ExpenseItemUpdateRequest_def UpdateItemInput_def declared_rest
    by (simp add: list_all_iff disj_assoc)
  ultimately show ?thesis using reports items by blast
qed

theorem request_bodies_are_typed_witness:
  "\<exists>cm. createItem_body cm = [(''expense_date'', JStr ''2026-04-01''), (''amount'', JNum 1), (''category_id'', JStr ''c''),
       (''description'', JStr ''d''), (''memo'', JNull)] \<and>
     has_type (JObj (createItem_body cm)) ExpenseItemCreateRequest \<and>
     \<not> declared_only (JObj (createItem_body cm)) ExpenseItemCreateRequest"
proof -
  let ?ms = "[(''expense_date'', JStr ''2026-04-01''), (''amount'', JNum 1), (''category_id'', JStr ''c''), (''description'', JStr ''d'')]"
  let ?cm = "(''reportId'', JStr ''r1'') # ?ms @ [(''memo'', JNull)]"
  let ?um = "[(''reportId'', JStr ''r1''), (''itemId'', JStr ''i1'')] @ ?ms @ [(''updated_at'', JStr ''v1'')]"
  have t: "has_type (JObj ?cm) CreateItemInput" "has_type (JObj ?um) UpdateItemInput" by code_simp+
  have "\<not> declared_only (JObj ?cm) CreateItemInput" by code_simp
  then show ?thesis
    using request_bodies_are_typed [OF t] by (intro exI [of _ ?cm]) (simp add: createItem_body_def rest_members_def)
qed

lemma typed_member:
  assumes "has_type v (TObj fs)" "(k, True, t) \<in> set fs"
  shows "\<exists>x. js_get v k = Inr x \<and> has_type x t"
proof -
  obtain ms where v: "v = JObj ms" using assms(1) by (cases v) auto
  have "case map_of ms k of None \<Rightarrow> False | Some x \<Rightarrow> has_type x t"
    using assms unfolding v by (auto simp: list_all_iff split: option.splits dest!: bspec)
  then show ?thesis by (auto simp: v split: option.splits)
qed

lemma typed_string: "has_type v TStr \<longleftrightarrow> (\<exists>s. v = JStr s)"
  by (cases v) auto

text \<open>The enumerations of the data model are those of the declared types.\<close>

lemma ex_role: "(\<exists>r. P r) \<longleftrightarrow> P Admin \<or> P Approver \<or> P Member \<or> P Accounting"
proof
  assume "\<exists>r. P r"
  then obtain r where "P r" ..
  then show "P Admin \<or> P Approver \<or> P Member \<or> P Accounting" by (cases r) simp_all
qed blast

lemma ex_status: "(\<exists>r. P r) \<longleftrightarrow> P Draft \<or> P Submitted \<or> P Approved \<or> P Rejected \<or> P Paid"
proof
  assume "\<exists>r. P r"
  then obtain r where "P r" ..
  then show "P Draft \<or> P Submitted \<or> P Approved \<or> P Rejected \<or> P Paid" by (cases r) simp_all
qed blast

lemma declared_roles: "has_type (JStr s) Role_type \<longleftrightarrow> (\<exists>r. s = role_name r)"
  unfolding ex_role by (simp add: Role_type_def)

lemma declared_statuses: "has_type (JStr s) ReportStatus \<longleftrightarrow> (\<exists>r. s = status_name r)"
  unfolding ex_status by (simp add: ReportStatus_def)

lemma typed_list:
  assumes "has_type v (ApiListResponse t)"
  shows "\<exists>rows p n. js_path v [''data''] = Inr (JArr rows) \<and> list_all (\<lambda>x. has_type x t) rows \<and>
    js_get v ''pagination'' = Inr p \<and> js_get p ''total_pages'' = Inr (JNum n)"
proof -
  obtain d p where d: "js_get v ''data'' = Inr d" "has_type d (TArr t)" and p: "js_get v ''pagination'' = Inr p" "has_type p Pagination"
    using typed_member [OF assms [unfolded ApiListResponse_def], of "''data''" "TArr t"]
      typed_member [OF assms [unfolded ApiListResponse_def], of "''pagination''" Pagination]
    by (auto simp del: has_type.simps)
  obtain n where n: "js_get p ''total_pages'' = Inr n" "has_type n TNum"
    using typed_member [OF p(2) [unfolded Pagination_def], of "''total_pages''" TNum] by (auto simp del: has_type.simps)
  obtain rows where "d = JArr rows" "list_all (\<lambda>x. has_type x t) rows" using d(2) by (cases d) auto
  moreover obtain k where "n = JNum k" using n(2) by (cases n) auto
  ultimately show ?thesis using d(1) p(1) n(1) by simp
qed

lemma typed_tokens:
  assumes "has_type d AuthTokens"
  shows "\<exists>a r. js_get d ''access_token'' = Inr (JStr a) \<and> js_get d ''refresh_token'' = Inr (JStr r)"
  using typed_member [OF assms [unfolded AuthTokens_def], of "''access_token''" TStr]
    typed_member [OF assms [unfolded AuthTokens_def], of "''refresh_token''" TStr]
  by (auto simp: typed_string simp del: has_type.simps)

text \<open>
  Answers of their declared type are read as such. From a body that is an \<open>ApiResponse\<close> of the tokens, both the
  login and the refresh take two strings: the login stores exactly them, drops the cached user and
  fetches the new one with them, and there is a session afterwards.
\<close>

theorem typed_tokens_are_stored:
  assumes "has_type v (ApiResponse AuthTokens)" "rs_json resp = Inr v"
  shows "\<exists>d a r. js_path v [''data''] = Inr d \<and> refreshed_tokens resp = Inr (JStr a, JStr r) \<and>
    auth_success matches fetch d (w, c) =
      (Inr d, prefetch fetch useCurrentUser
         (w\<lparr>auth := setTokens (JStr a) (JStr r) (auth w)\<rparr>, invalidateQueries matches me_key c)) \<and>
    useAuth (setTokens (JStr a) (JStr r) (auth w))"
proof -
  obtain d where d: "js_get v ''data'' = Inr d" "has_type d AuthTokens"
    using typed_member [OF assms(1) [unfolded ApiResponse_def], of "''data''" AuthTokens]
    by (auto simp del: has_type.simps)
  obtain a r where "js_get d ''access_token'' = Inr (JStr a)" "js_get d ''refresh_token'' = Inr (JStr r)"
    using typed_tokens [OF d(2)] by blast
  then show ?thesis using d(1) assms(2)
    by (simp add: refreshed_tokens_def auth_success_def useAuth_def Let_def)
qed

definition demo_tokens :: jsval where
  "demo_tokens = JObj [(''data'', JObj
     [(''user'', JObj [(''id'', JStr ''u''), (''name'', JStr ''n''), (''email'', JStr ''e''), (''role'', JStr ''member'')]),
      (''tenant'', JObj [(''id'', JStr ''t''), (''name'', JStr ''t'')]),
      (''access_token'', JStr ''a''), (''refresh_token'', JStr ''r'')])]"

theorem typed_tokens_are_stored_witness:
  "\<exists>a r. refreshed_tokens \<lparr>rs_code = 200, rs_json = Inr demo_tokens, rs_content_length = None\<rparr> = Inr (JStr a, JStr r)"
proof -
  have "has_type demo_tokens (ApiResponse AuthTokens)" by code_simp
  from typed_tokens_are_stored [OF this,
      of "\<lparr>rs_code = 200, rs_json = Inr demo_tokens, rs_content_length = None\<rparr>" prefix playback "logged_in []" all_fresh]
  show ?thesis by auto
qed

text \<open>
  Errors of their declared type keep their code, and only validation errors keep their text. From a body that is an
  \<open>ApiError\<close> the client throws an error with the code and the status of the answer; its message is the
  server's for a validation error and one of the client's own table for every other code, known or
  not, so no other text of the server reaches the user.
\<close>

theorem typed_errors_keep_their_code:
  assumes "has_type v ApiError" "rs_json resp = Inr v"
  shows "\<exists>code m d. js_path v [''error'', ''code''] = Inr (JStr code) \<and> js_path v [''error'', ''message''] = Inr (JStr m) \<and>
    handleErrorResponse resp = ApiClientError
      (if code = ''VALIDATION_ERROR'' then m
       else case server_message code of Some x \<Rightarrow> x | None \<Rightarrow> msg_internal_error)
      (rs_code resp) (JStr code) d"
proof -
  note e = typed_member [OF assms(1) [unfolded ApiError_def], of "''error''"]
  obtain x where x: "js_get v ''error'' = Inr x"
    "has_type x (TObj [req_member ''code'' TStr, req_member ''message'' TStr, opt_member ''details'' (TArr ValidationError)])"
    using e by (auto simp del: has_type.simps)
  obtain code m where cm: "js_get x ''code'' = Inr (JStr code)" "js_get x ''message'' = Inr (JStr m)"
    using typed_member [OF x(2), of "''code''" TStr] typed_member [OF x(2), of "''message''" TStr]
    by (auto simp: typed_string simp del: has_type.simps)
  obtain ms where "x = JObj ms" using x(2) by (cases x) auto
  then obtain d where "js_get x ''details'' = Inr d" by simp
  then show ?thesis using x(1) cm assms(2)
    by (simp add: handleErrorResponse_def error_fields_def error_text_def)
qed

theorem typed_errors_keep_their_code_witness:
  "\<exists>d. handleErrorResponse \<lparr>rs_code = 409, rs_json = Inr (JObj [(''error'', JObj [(''code'', JStr ''VALIDATION_ERROR''),
       (''message'', JStr ''m'')])]), rs_content_length = None\<rparr> = ApiClientError ''m'' 409 (JStr ''VALIDATION_ERROR'') d"
proof -
  let ?v = "JObj [(''error'', JObj [(''code'', JStr ''VALIDATION_ERROR''), (''message'', JStr ''m'')])]"
  have "has_type ?v ApiError" by code_simp
  from typed_errors_keep_their_code [OF this, of "\<lparr>rs_code = 409, rs_json = Inr ?v, rs_content_length = None\<rparr>"]
  show ?thesis by auto
qed

end
