(* ===== verification/Panel_Moves.thy ===== *)
theory Panel_Moves
  imports Item_Slide_Panel
begin

text \<open>
  What an operation of the slide panel (frontend/src/pages/reports/ItemSlidePanel.tsx) may change that
  others rely on: the flags that the attachment area sets, the list of pending files, which changes only
  together with the key that remounts their control, the files that a save holds or has posted, and the
  log of its calls. One lemma per operation of the panel.
\<close>

subsection \<open>What an operation of the panel does to the rest\<close>

definition panel_files :: "panel \<Rightarrow> upload_file set" where
  \<comment> \<open>the files the panel holds, its runs send, or it has posted\<close>
  "panel_files p =
     set (panelFiles p) \<union> (\<Union>r \<in> set (runs p). set (rn_files r)) \<union>
     {f. \<exists>path c. OPostAttachment path f c \<in> set (outs p)}"

fun no_submit :: "panel_out \<Rightarrow> bool" where
  "no_submit (OItemSubmit data) = False"
| "no_submit _ = True"

definition panel_moves :: "bool \<Rightarrow> upload_file set \<Rightarrow> panel \<Rightarrow> panel \<Rightarrow> bool" where
  \<comment> \<open>the flags of the children stay, the list of files changes only with the key, no file appears from nowhere, the
    log grows, and without \<open>S\<close> by no submitted item\<close>
  "panel_moves S X p q \<longleftrightarrow>
     internalIsUploading q = internalIsUploading p \<and> internalIsDeleting q = internalIsDeleting p \<and>
     (attachmentAddModeResetKey p < attachmentAddModeResetKey q \<or>
      attachmentAddModeResetKey q = attachmentAddModeResetKey p \<and> panelFiles q = panelFiles p) \<and>
     panel_files q \<subseteq> panel_files p \<union> X \<and>
     (\<exists>new. outs q = outs p @ new \<and> (S \<or> list_all no_submit new))"

lemma moves_refl [simp]: "panel_moves S X p p"
  by (simp add: panel_moves_def)

lemma moves_trans: "panel_moves S X p q \<Longrightarrow> panel_moves S X q r \<Longrightarrow> panel_moves S X p r"
  unfolding panel_moves_def by (elim conjE disjE) auto

lemma moves_same:
  assumes "internalIsUploading q = internalIsUploading p" "internalIsDeleting q = internalIsDeleting p"
    "attachmentAddModeResetKey q = attachmentAddModeResetKey p" "panelFiles q = panelFiles p"
    "set (runs q) \<subseteq> set (runs p)" "outs q = outs p"
  shows "panel_moves S X p q"
  using assms by (auto simp: panel_moves_def panel_files_def)

lemma moves_emit:
  assumes "\<And>path f c. x = OPostAttachment path f c \<Longrightarrow> f \<in> panel_files p \<union> X" "S \<or> no_submit x"
  shows "panel_moves S X p (emit x p)"
  using assms by (auto simp: panel_moves_def panel_files_def emit_def)

lemma moves_resetDirtyState: "panel_moves S X p (resetDirtyState p)"
  by (auto simp: panel_moves_def panel_files_def resetDirtyState_def emit_def Let_def)

lemma moves_afterSubmit: "panel_moves S X p (afterSubmit r p)"
  by (auto simp: afterSubmit_emit after_out_def split: after_submit.split intro: moves_emit)

lemma moves_end_run: "panel_moves S X p (end_run r p)"
  by (rule moves_same) (auto simp: end_run_def)

lemma moves_item_saved: "panel_moves S X p (item_saved r p)"
  unfolding item_saved_def Let_def
  by (rule moves_trans [OF _ moves_afterSubmit], rule moves_trans [OF _ moves_resetDirtyState],
      rule moves_trans [OF _ moves_emit]) (auto intro: moves_same)

lemma moves_post_toast: "panel_moves S X p (post_toast_effect p)"
proof -
  have "panel_moves S X p (afterSubmit r (resetDirtyState (p\<lparr>pendingPostToastAction := None\<rparr>)))" for r
    by (rule moves_trans [OF _ moves_afterSubmit], rule moves_trans [OF _ moves_resetDirtyState])
      (simp add: moves_same)
  then show ?thesis
    by (auto simp: post_toast_effect_def split: option.split intro: moves_trans [OF _ moves_emit])
qed

lemma moves_all_sent: "panel_moves S X p (all_sent r n p)"
proof -
  let ?p = "p\<lparr>isSequentialUploading := False\<rparr>"
  have 0: "panel_moves S X p ?p" by (simp add: moves_same)
  have "panel_moves S X p (end_run r (item_saved r ?p))"
    by (rule moves_trans [OF _ moves_end_run], rule moves_trans [OF 0 moves_item_saved])
  moreover have "panel_moves S X p (post_toast_effect (end_run r (?p\<lparr>pendingPostToastAction := a, apiToast := b\<rparr>)))"
    for a b
    by (rule moves_trans [OF _ moves_post_toast], rule moves_trans [OF _ moves_end_run]) (simp add: moves_same)
  ultimately show ?thesis by (simp add: all_sent_def Let_def)
qed

lemma moves_upload_stopped: "panel_moves S X p (upload_stopped r p)"
  unfolding upload_stopped_def by (rule moves_trans [OF _ moves_end_run]) (simp add: moves_same)

lemma moves_next_file:
  assumes "r \<in> set (runs p)"
  shows "panel_moves S X p (next_file r item i n p)"
proof (cases rule: next_file_cases [of r i item n p])
  case goes_on
  have "panel_moves S X p (set_stage r (Sending item i n) p)"
    using assms by (auto simp: panel_moves_def panel_files_def set_stage_def)
  moreover have "rn_files r ! i \<in> panel_files (set_stage r (Sending item i n) p)"
  proof -
    have "r\<lparr>rn_stage := Sending item i n\<rparr> \<in> set (runs (set_stage r (Sending item i n) p))"
      using assms by (force simp: set_stage_def)
    moreover have "rn_files r ! i \<in> set (rn_files (r\<lparr>rn_stage := Sending item i n\<rparr>))" using goes_on(1) by simp
    ultimately show ?thesis unfolding panel_files_def by blast
  qed
  ultimately show ?thesis unfolding goes_on(3) by (auto intro!: moves_trans [OF _ moves_emit])
qed (simp_all add: moves_all_sent moves_upload_stopped)

lemma moves_invalidations: "panel_moves S X p (foldl (\<lambda>t k. emit (OInvalidate k) t) p ks)"
proof (induction ks arbitrary: p)
  case (Cons k ks)
  have "panel_moves S X p (emit (OInvalidate k) p)" by (rule moves_emit) simp_all
  with Cons show ?case by (auto intro: moves_trans)
qed simp

lemma moves_create_settles: "panel_moves S X p (create_settles c res p)"
proof (cases "\<exists>r. find_run c p = Some r \<and> rn_stage r = Creating")
  case True
  then obtain r where r: "find_run c p = Some r" "rn_stage r = Creating" by blast
  define p1 where "p1 = (if creating p = Some c then p\<lparr>creating := None\<rparr> else p)"
  define p2 where "p2 = foldl (\<lambda>t k. emit (OInvalidate k) t) p1 (mu_invalidates useCreateItem (rn_input r))"
  have 1: "panel_moves S X p p1" by (simp add: p1_def moves_same)
  have 2: "panel_moves S X p p2" unfolding p2_def by (rule moves_trans [OF 1 moves_invalidations])
  have runs2: "runs p2 = runs p" by (simp add: p2_def p1_def)
  have failed: "panel_moves S X u (create_failed r err u)" for err u
    unfolding create_failed_def by (rule moves_trans [OF _ moves_end_run]) (simp add: moves_same)
  have created: "panel_moves S X p2 (item_created r i p2)" for i
  proof (cases "rn_files r = []")
    case True
    then show ?thesis by (simp add: item_created_def moves_trans [OF moves_item_saved moves_end_run])
  next
    case False
    let ?u = "p2\<lparr>isSequentialUploading := True, sequentialUploadProgress := (0, length (rn_files r))\<rparr>"
    have "r \<in> set (runs ?u)" using find_run_Some [OF r(1)] by (simp add: runs2)
    then have "panel_moves S X p2 (next_file r i 0 0 ?u)" by (intro moves_trans [OF moves_same moves_next_file]) auto
    then show ?thesis using False by (simp add: item_created_def)
  qed
  have "create_settles c res p =
      (case res of Inl err \<Rightarrow> create_failed r err p1
       | Inr v \<Rightarrow> (case js_get v ''id'' of Inl err \<Rightarrow> create_failed r err p2
                   | Inr i \<Rightarrow> item_created r (js_to_string i) p2))"
    using r by (simp add: create_settles_def Let_def p1_def p2_def split: sum.split)
  then show ?thesis
    using moves_trans [OF 1 failed] moves_trans [OF 2 failed] moves_trans [OF 2 created]
    by (simp split: sum.split)
next
  case False
  then have "create_settles c res p = p" by (intro create_settles_other) auto
  then show ?thesis by simp
qed

lemma moves_upload_settles: "panel_moves S X p (upload_settles c res p)"
proof (cases "\<exists>r item i n. find_run c p = Some r \<and> rn_stage r = Sending item i n")
  case True
  then obtain r item i n where r: "find_run c p = Some r" "rn_stage r = Sending item i n" by blast
  have m: "r \<in> set (runs p)" using find_run_Some [OF r(1)] by simp
  have "panel_moves S X p (next_file r item j k (p\<lparr>sequentialUploadProgress := x\<rparr>))" for j k x
    using m by (intro moves_trans [OF moves_same moves_next_file]) auto
  then show ?thesis
    using r moves_next_file [OF m] by (auto simp: upload_settles_def moves_upload_stopped split: sum.split)
next
  case False
  then have "upload_settles c res p = p" by (intro upload_settles_other) (metis stage.exhaust option.exhaust)
  then show ?thesis by simp
qed

lemma moves_abort: "panel_moves S X p (abortSequentialUpload p)"
  by (auto simp: abortSequentialUpload_def moves_same split: option.split)

lemma moves_close:
  "panel_moves S X p (handleCloseAttempt pr p)" "panel_moves S X p (handleDiscard p)"
proof -
  have c: "panel_moves S X p (emit OCancelDelete (emit OCancelUpload p))"
    by (rule moves_trans [OF moves_emit moves_emit]) auto
  have "panel_moves S X p (emit OClose (emit OCancelDelete (emit OCancelUpload p)))"
    by (rule moves_trans [OF c moves_emit]) auto
  moreover have "panel_moves S X p (emit OClose ((abortSequentialUpload p)\<lparr>abortToast := t\<rparr>))" for t
    by (rule moves_trans [OF _ moves_emit], rule moves_trans [OF moves_abort]) (auto intro: moves_same)
  moreover have "panel_moves S X p (p\<lparr>isDiscardDialogOpen := True\<rparr>)" by (simp add: moves_same)
  ultimately show "panel_moves S X p (handleCloseAttempt pr p)" by (simp add: handleCloseAttempt_def)
  have a: "panel_moves S X p (emit OFormReset ((abortSequentialUpload (emit OCancelDelete (emit OCancelUpload p)))\<lparr>isDiscardDialogOpen := False\<rparr>))"
    by (rule moves_trans [OF _ moves_emit], rule moves_trans [OF moves_trans [OF c moves_abort]])
      (auto intro: moves_same)
  have "panel_moves S X u (u\<lparr>isFormDirty := False, panelFiles := [], attachmentAddModeResetKey := Suc (attachmentAddModeResetKey u)\<rparr>)" for u
    by (auto simp: panel_moves_def panel_files_def)
  then show "panel_moves S X p (handleDiscard p)"
    unfolding handleDiscard_def Let_def
    by (intro moves_trans [OF _ moves_emit] moves_trans [OF a]) auto
qed

fun callback_files :: "panel_callback \<Rightarrow> upload_file set" where
  "callback_files (PanelSubmit mode files) = set files"
| "callback_files (PanelSaveAndContinue files) = set files"

lemma moves_new_run:
  assumes "internalIsUploading q = internalIsUploading p" "internalIsDeleting q = internalIsDeleting p"
    "attachmentAddModeResetKey q = attachmentAddModeResetKey p" "panelFiles q = panelFiles p"
    "\<exists>r. runs q = runs p @ [r] \<and> rn_files r = files" "outs q = outs p"
  shows "panel_moves S (set files) p q"
  using assms by (auto simp: panel_moves_def panel_files_def)

lemma moves_submit: "panel_moves S (set files) p (handleAddModeSubmit pr files data cont p)"
  unfolding handleAddModeSubmit_def Let_def
  by (cases "sequentialAbortControllerRef p"; rule moves_trans [OF moves_new_run moves_emit]) simp_all

lemma moves_callback: "panel_moves True (callback_files cb) p (panel_callback_runs pr (cb, data) p)"
  by (cases cb) (auto simp: moves_submit intro: moves_emit)

lemma moves_quiet:
  "panel_moves S X p (handleDiscardCancel p)" "panel_moves S X p (open_effect pr p)"
  "panel_moves S X p (form_dirty_changes b p)" "panel_moves S X p (close_panel_toast k p)"
  by (cases k; simp_all add: handleDiscardCancel_def open_effect_def form_dirty_changes_def close_panel_toast_def
      moves_resetDirtyState moves_same)+

end
