(* ===== verification/Panel_System.thy ===== *)
theory Panel_System
  imports Panel_Moves
begin

text \<open>
  The slide panel together with what it contains: the item form (ItemForm.tsx), the attachment area
  (AttachmentArea.tsx) and the upload control in it (AttachmentUploader.tsx), as
  frontend/src/pages/reports/ItemSlidePanel.tsx puts them together. The theories of the parts log
  what a part calls; here the calls reach the part that receives them: notices of the upload control go
  through the area to the panel, the panel cancels and resets through its refs, a saved form runs the
  callback of the panel, and a change of the key or of the permission remounts the children. The
  children live in the drawer, which mounts them when it opens and, as documented for the library
  (\<open>keepMounted\<close> is off), unmounts them when the transition that closes it has ended. Each event has
  its guard, from what is rendered and from the modal dialogs, and its effect.
\<close>

subsection \<open>Events of the upload control and of the area\<close>

datatype uploader_act =
    UChoose "upload_file list"
  | UDrop "upload_file list"
  | UDragOver
  | UDragLeave bool
  | URemove nat
  | UPreview upload_file
  | UStarted
  | USettled nat "js_error + jsval"

definition new_files :: "upload_file list \<Rightarrow> uploader \<Rightarrow> bool" where
  "new_files fs u \<longleftrightarrow> list_all (\<lambda>f. f_ident f \<notin> f_ident ` set (pendingFiles u)) fs"

fun uploader_can :: "uploader_props \<Rightarrow> uploader_act \<Rightarrow> uploader \<Rightarrow> bool" where
  "uploader_can pr (UChoose fs) u \<longleftrightarrow> \<not> isUploading pr u \<and> new_files fs u"
| "uploader_can pr (UDrop fs) u \<longleftrightarrow> new_files fs u"
| "uploader_can pr (URemove i) u \<longleftrightarrow> pr_mode pr = AddMode \<and> i < length (pendingFiles u)"
| "uploader_can pr (UPreview f) u \<longleftrightarrow> f \<in> set (pendingFiles u)"
| "uploader_can pr _ u \<longleftrightarrow> True"

fun uploader_acts :: "uploader_props \<Rightarrow> uploader_act \<Rightarrow> uploader \<Rightarrow> uploader" where
  "uploader_acts pr (UChoose fs) u = handleChange pr fs u"
| "uploader_acts pr (UDrop fs) u = handleDrop pr fs u"
| "uploader_acts pr UDragOver u = handleDragOver pr u"
| "uploader_acts pr (UDragLeave b) u = handleDragLeave b u"
| "uploader_acts pr (URemove i) u = handlePendingFileRemove pr i u"
| "uploader_acts pr (UPreview f) u = handlePendingFilePreview f u"
| "uploader_acts pr UStarted u = u\<lparr>up_hook := upload_step RunFn (up_hook u)\<rparr>"
| "uploader_acts pr (USettled k res) u = settle_upload k res u"

datatype area_act =
    AAsk string
  | ACancelAsk
  | AConfirm
  | AStarted
  | ASettled nat "js_error + jsval"
  | ARowError string
  | AToastClosed

fun area_can :: "area_props \<Rightarrow> area_act \<Rightarrow> area \<Rightarrow> bool" where
  "area_can pr (AAsk att) a \<longleftrightarrow> ar_canModify pr \<and> deletingId a \<noteq> Some att \<and> confirmTargetId a = None"
| "area_can pr ACancelAsk a \<longleftrightarrow> confirmTargetId a \<noteq> None \<and> \<not> delete_pending a"
| "area_can pr AConfirm a \<longleftrightarrow> confirmTargetId a \<noteq> None \<and> \<not> delete_pending a"
| "area_can pr _ a \<longleftrightarrow> True"

fun area_acts :: "area_props \<Rightarrow> area_act \<Rightarrow> area \<Rightarrow> area" where
  "area_acts pr (AAsk att) a = handleDeleteRequest att a"
| "area_acts pr ACancelAsk a = handleCancelDelete a"
| "area_acts pr AConfirm a = handleConfirmDelete pr a"
| "area_acts pr AStarted a = a\<lparr>del_hook := delete_step RunFn (del_hook a)\<rparr>"
| "area_acts pr (ASettled k res) a = settle_delete k res a"
| "area_acts pr (ARowError m) a = showToast SevError m a"
| "area_acts pr AToastClosed a = closeToast a"

subsection \<open>State\<close>

record content =
  ct_form :: "panel_callback item_form"
  ct_variant :: area_variant
  ct_area :: area
  ct_uploader :: "uploader option"

record psys =
  ps_props :: panel_props
  ps_panel :: panel
  ps_content :: "content option"

definition uploader_of :: "panel_props \<Rightarrow> area_variant \<Rightarrow> uploader_props" where
  \<comment> \<open>what the area passes to the upload control\<close>
  "uploader_of pr v =
     (case v of
        ContentArea i \<Rightarrow> \<lparr>pr_reportId = pp_reportId pr, pr_itemId = Some i, pr_mode = EditMode\<rparr>
      | _ \<Rightarrow> \<lparr>pr_reportId = pp_reportId pr, pr_itemId = None, pr_mode = AddMode\<rparr>)"

definition area_of :: "panel_props \<Rightarrow> string \<Rightarrow> area_props" where
  "area_of pr i = \<lparr>ar_reportId = pp_reportId pr, ar_itemId = i, ar_canModify = canModify pr\<rparr>"

definition form_props_of :: "psys \<Rightarrow> panel_callback form_props" where
  "form_props_of s = panel_form_props (ps_props s) (ps_panel s)"

subsection \<open>Calls from the children to the panel\<close>

definition area_hears :: "area_variant \<Rightarrow> parent_call \<Rightarrow> area \<Rightarrow> area" where
  "area_hears v = (case v of AddModeArea _ \<Rightarrow> add_mode_call | _ \<Rightarrow> area_uploader_call)"

definition area_becomes :: "area \<Rightarrow> content \<Rightarrow> psys \<Rightarrow> psys" where
  "area_becomes a c s =
     s\<lparr>ps_content := Some (c\<lparr>ct_area := a\<rparr>),
       ps_panel := panel_hears_all (drop (length (panel_calls (ct_area c))) (panel_calls a)) (ps_panel s)\<rparr>"

definition calls_before :: "content \<Rightarrow> parent_call list" where
  "calls_before c = (case ct_uploader c of None \<Rightarrow> [] | Some u \<Rightarrow> calls_made u)"

definition uploader_becomes :: "uploader \<Rightarrow> content \<Rightarrow> psys \<Rightarrow> psys" where
  "uploader_becomes u c s =
     area_becomes
       (foldl (\<lambda>a x. area_hears (ct_variant c) x a) (ct_area c) (drop (length (calls_before c)) (calls_made u)))
       (c\<lparr>ct_uploader := Some u\<rparr>) s"

subsection \<open>Mounting and unmounting\<close>

definition drop_uploader :: "psys \<Rightarrow> psys" where
  "drop_uploader s =
     (case ps_content s of
        None \<Rightarrow> s
      | Some c \<Rightarrow>
          (case ct_uploader c of
             None \<Rightarrow> s
           | Some u \<Rightarrow>
               (let s1 = uploader_becomes (unmount_uploader u) c s
                in s1\<lparr>ps_content := map_option (ct_uploader_update (\<lambda>_. None)) (ps_content s1)\<rparr>)))"

definition unmount_children :: "psys \<Rightarrow> psys" where
  "unmount_children s =
     (case ps_content s of
        None \<Rightarrow> s
      | Some c \<Rightarrow> drop_uploader (area_becomes (unmount_area (ct_area c)) c s))"

definition fit_uploader :: "psys \<Rightarrow> psys" where
  \<comment> \<open>the upload control is there exactly with the permission to modify\<close>
  "fit_uploader s =
     (case ps_content s of
        None \<Rightarrow> s
      | Some c \<Rightarrow>
          if ct_variant c \<noteq> NothingShown \<and> canModify (ps_props s)
          then (if ct_uploader c = None
                then uploader_becomes (mounted_uploader (uploader_of (ps_props s) (ct_variant c))) c s
                else s)
          else drop_uploader s)"

definition place_area :: "area_variant \<Rightarrow> psys \<Rightarrow> psys" where
  "place_area v s =
     s\<lparr>ps_content :=
         map_option (\<lambda>c. c\<lparr>ct_variant := v, ct_area := mounted_area, ct_uploader := None\<rparr>) (ps_content s)\<rparr>"

definition refit :: "psys \<Rightarrow> psys" where
  \<comment> \<open>a commit: another component or another key remounts the area\<close>
  "refit s =
     (case ps_content s of
        None \<Rightarrow> s
      | Some c \<Rightarrow>
          (let v = panel_area_variant (ps_props s) (ps_panel s)
           in fit_uploader (if ct_variant c = v then s else place_area v (unmount_children s))))"

definition mount_content :: "psys \<Rightarrow> psys" where
  "mount_content s =
     (let c = \<lparr>ct_form = mounted_form (form_props_of s),
               ct_variant = panel_area_variant (ps_props s) (ps_panel s), ct_area = mounted_area,
               ct_uploader = None\<rparr>
      in fit_uploader (s\<lparr>ps_content := Some c\<rparr>))"

definition content_gone :: "psys \<Rightarrow> psys" where
  \<comment> \<open>the closing transition has ended\<close>
  "content_gone s = (unmount_children s)\<lparr>ps_content := None\<rparr>"

subsection \<open>Calls from the panel to the children\<close>

definition uploadCancelRef :: "content \<Rightarrow> uploader option" where
  \<comment> \<open>whose \<open>cancel\<close> the ref holds: the effect of the upload control registers it while it is mounted, and only
    the area of an item passes the ref on\<close>
  "uploadCancelRef c = (case ct_variant c of ContentArea _ \<Rightarrow> ct_uploader c | _ \<Rightarrow> None)"

definition deleteCancelRef :: "content \<Rightarrow> area option" where
  "deleteCancelRef c = (case ct_variant c of ContentArea _ \<Rightarrow> Some (ct_area c) | _ \<Rightarrow> None)"

definition child_hears :: "panel_out \<Rightarrow> psys \<Rightarrow> psys" where
  \<comment> \<open>calls through \<open>formResetRef\<close>, \<open>uploadCancelRef\<close> and \<open>deleteCancelRef\<close>\<close>
  "child_hears x s =
     (case ps_content s of
        None \<Rightarrow> s
      | Some c \<Rightarrow>
          (case x of
             OFormReset \<Rightarrow> s\<lparr>ps_content := Some (c\<lparr>ct_form := form_reset (form_props_of s) (ct_form c)\<rparr>)\<rparr>
           | OCancelUpload \<Rightarrow>
               (case uploadCancelRef c of
                  None \<Rightarrow> s
                | Some u \<Rightarrow>
                    s\<lparr>ps_content := Some (c\<lparr>ct_uploader := Some (u\<lparr>up_hook := upload_step Cancel (up_hook u)\<rparr>)\<rparr>)\<rparr>)
           | OCancelDelete \<Rightarrow>
               (case deleteCancelRef c of
                  None \<Rightarrow> s
                | Some a \<Rightarrow> s\<lparr>ps_content := Some (c\<lparr>ct_area := a\<lparr>del_hook := delete_step Cancel (del_hook a)\<rparr>\<rparr>)\<rparr>)
           | _ \<Rightarrow> s))"

lemmas child_calls = child_hears_def uploadCancelRef_def deleteCancelRef_def

definition panel_does :: "(panel \<Rightarrow> panel) \<Rightarrow> psys \<Rightarrow> psys" where
  "panel_does f s =
     (let p = ps_panel s; q = f p
      in refit (foldl (\<lambda>t x. child_hears x t) (s\<lparr>ps_panel := q\<rparr>) (drop (length (outs p)) (outs q))))"

definition leaving_is_held :: "psys \<Rightarrow> bool" where
  \<comment> \<open>the listener of \<open>beforeunload\<close>, by which the browser asks before the page is left, is registered\<close>
  "leaving_is_held s \<longleftrightarrow> isDirty (ps_props s) (ps_panel s)"

subsection \<open>Events\<close>

datatype psys_event =
    SRender panel_props
  | SExited
  | SForm form_event
  | STyped item_values
  | SNotified
  | SClose
  | SDiscard dialog_event
  | SUploader uploader_act
  | SArea area_act
  | SCreated nat "js_error + jsval"
  | SSent nat "js_error + jsval"
  | SToastClosed panel_toast

definition parent_renders :: "panel_props \<Rightarrow> psys \<Rightarrow> psys" where
  "parent_renders pr s =
     (let s1 = s\<lparr>ps_props := pr\<rparr>;
          s2 = (if pp_open pr \<and> ps_content s1 = None then mount_content s1 else refit s1)
      in if pp_open (ps_props s) \<and> \<not> pp_open pr then panel_does (open_effect pr) s2 else s2)"

definition mounted_psys :: "panel_props \<Rightarrow> psys" where
  "mounted_psys pr =
     (let s = \<lparr>ps_props = pr, ps_panel = mounted_panel, ps_content = None\<rparr>
      in if pp_open pr then mount_content s else panel_does (open_effect pr) s)"

definition form_acts :: "form_event \<Rightarrow> content \<Rightarrow> psys \<Rightarrow> psys" where
  "form_acts e c s =
     (if e = EFormCancel then panel_does (handleCloseAttempt (ps_props s)) s
      else (case form_event_step e (form_props_of s) (ct_form c) of
              (calls, f) \<Rightarrow>
                foldl (\<lambda>t x. panel_does (panel_callback_runs (ps_props t) x) t)
                  (s\<lparr>ps_content := Some (c\<lparr>ct_form := f\<rparr>)\<rparr>) calls))"

definition psys_does :: "(item_values \<Rightarrow> item_values \<Rightarrow> bool) \<Rightarrow> psys_event \<Rightarrow> psys \<Rightarrow> psys" where
  \<comment> \<open>\<open>differs\<close> is the form library's comparison of the values with the default values\<close>
  "psys_does differs e s =
     (case e of
        SRender pr \<Rightarrow> parent_renders pr s
      | SExited \<Rightarrow> content_gone s
      | SClose \<Rightarrow> panel_does (handleCloseAttempt (ps_props s)) s
      | SDiscard EConfirm \<Rightarrow> panel_does handleDiscard s
      | SDiscard EClose \<Rightarrow> panel_does handleDiscardCancel s
      | SCreated k res \<Rightarrow> panel_does (create_settles k res) s
      | SSent k res \<Rightarrow> panel_does (upload_settles k res) s
      | SToastClosed k \<Rightarrow> panel_does (close_panel_toast k) s
      | _ \<Rightarrow>
          (case ps_content s of
             None \<Rightarrow> s
           | Some c \<Rightarrow>
               (case e of
                  SForm ev \<Rightarrow> form_acts ev c s
                | STyped v \<Rightarrow> s\<lparr>ps_content := Some (c\<lparr>ct_form := form_change v (ct_form c)\<rparr>)\<rparr>
                | SNotified \<Rightarrow>
                    (case notify_dirty differs (ct_form c) of
                       (b, f) \<Rightarrow>
                         (let s1 = s\<lparr>ps_content := Some (c\<lparr>ct_form := f\<rparr>)\<rparr>
                          in case b of None \<Rightarrow> s1 | Some d \<Rightarrow> panel_does (form_dirty_changes d) s1))
                | SUploader a \<Rightarrow>
                    (case ct_uploader c of
                       None \<Rightarrow> s
                     | Some u \<Rightarrow>
                         refit (uploader_becomes (uploader_acts (uploader_of (ps_props s) (ct_variant c)) a u) c s))
                | SArea a \<Rightarrow>
                    (case ct_variant c of
                       ContentArea i \<Rightarrow> refit (area_becomes (area_acts (area_of (ps_props s) i) a (ct_area c)) c s)
                     | _ \<Rightarrow> s)
                | _ \<Rightarrow> s)))"

subsection \<open>Guards\<close>

definition content_started :: "content \<Rightarrow> bool" where
  \<comment> \<open>the library has started the mutation functions, before the next event of the user or of the network\<close>
  "content_started c \<longleftrightarrow>
     queued (del_hook (ct_area c)) = [] \<and>
     (case ct_uploader c of None \<Rightarrow> True | Some u \<Rightarrow> queued (up_hook u) = [])"

definition dialogs_closed :: "psys \<Rightarrow> content \<Rightarrow> bool" where
  "dialogs_closed s c \<longleftrightarrow> \<not> isDiscardDialogOpen (ps_panel s) \<and> \<not> periodWarningDialogOpen (ct_form c)"

definition undisturbed :: "psys \<Rightarrow> content \<Rightarrow> bool" where
  \<comment> \<open>no modal dialog lies over the drawer\<close>
  "undisturbed s c \<longleftrightarrow> dialogs_closed s c \<and> confirmTargetId (ct_area c) = None"

fun by_user_upload :: "uploader_act \<Rightarrow> bool" where
  "by_user_upload UStarted = False"
| "by_user_upload (USettled _ _) = False"
| "by_user_upload _ = True"

fun by_user_area :: "area_act \<Rightarrow> bool" where
  "by_user_area (AAsk _) = True"
| "by_user_area ACancelAsk = True"
| "by_user_area AConfirm = True"
| "by_user_area _ = False"

definition form_offers :: "psys \<Rightarrow> content \<Rightarrow> form_event \<Rightarrow> bool" where
  \<comment> \<open>the buttons of the form, or those of its warning when it is open\<close>
  "form_offers s c e \<longleftrightarrow>
     (case e of
        EWarn d \<Rightarrow> periodWarningDialogOpen (ct_form c) \<and> (d = EConfirm \<or> d = EClose)
      | EFieldChange \<Rightarrow> False
      | _ \<Rightarrow> undisturbed s c \<and> e \<in> set (concat (map clickable (item_form_buttons (form_props_of s)))))"

fun saves :: "psys_event \<Rightarrow> bool" where
  "saves (SForm EFormSubmit) = True"
| "saves (SForm ESaveAndContinue) = True"
| "saves (SForm (EWarn EConfirm)) = True"
| "saves _ = False"

definition psys_can :: "psys_event \<Rightarrow> psys \<Rightarrow> bool" where
  "psys_can e s \<longleftrightarrow>
     (case ps_content s of
        None \<Rightarrow>
          (case e of
             SRender _ \<Rightarrow> True
           | SDiscard _ \<Rightarrow> isDiscardDialogOpen (ps_panel s)
           | SCreated _ _ \<Rightarrow> True
           | SSent _ _ \<Rightarrow> True
           | SToastClosed k \<Rightarrow> True
           | _ \<Rightarrow> False)
      | Some c \<Rightarrow>
          (case e of
             SExited \<Rightarrow> \<not> pp_open (ps_props s) \<and> content_started c
           | SToastClosed k \<Rightarrow> True
           | SForm ev \<Rightarrow> form_offers s c ev \<and> content_started c
           | STyped v \<Rightarrow> undisturbed s c \<and> \<not> isReadOnly (form_props_of s) \<and> \<not> fp_isPending (form_props_of s)
           | SNotified \<Rightarrow> True
           | SClose \<Rightarrow> undisturbed s c \<and> content_started c
           | SDiscard _ \<Rightarrow> isDiscardDialogOpen (ps_panel s) \<and> content_started c
           | SUploader a \<Rightarrow>
               (case ct_uploader c of
                  None \<Rightarrow> False
                | Some u \<Rightarrow>
                    (by_user_upload a \<longrightarrow> undisturbed s c) \<and>
                    uploader_can (uploader_of (ps_props s) (ct_variant c)) a u)
           | SArea a \<Rightarrow>
               (case ct_variant c of
                  ContentArea i \<Rightarrow>
                    (by_user_area a \<longrightarrow> dialogs_closed s c) \<and> area_can (area_of (ps_props s) i) a (ct_area c)
                | _ \<Rightarrow> False)
           | _ \<Rightarrow> content_started c))"

text \<open>
  A run is \<open>calm\<close> when a save is started only after every earlier one is over, as in the theory of the
  panel.
\<close>

definition psys_step ::
  "(item_values \<Rightarrow> item_values \<Rightarrow> bool) \<Rightarrow> bool \<Rightarrow> psys \<Rightarrow> psys \<Rightarrow> bool" where
  "psys_step differs calm s t \<longleftrightarrow>
     (\<exists>e. psys_can e s \<and> (calm \<longrightarrow> saves e \<longrightarrow> runs (ps_panel s) = []) \<and> t = psys_does differs e s)"

fun psys_run ::
  "(item_values \<Rightarrow> item_values \<Rightarrow> bool) \<Rightarrow> bool \<Rightarrow> psys_event list \<Rightarrow> psys \<Rightarrow> psys option" where
  \<comment> \<open>a list of events, as long as their guards hold\<close>
  "psys_run differs calm [] s = Some s"
| "psys_run differs calm (e # es) s =
     (if psys_can e s \<and> (calm \<longrightarrow> saves e \<longrightarrow> runs (ps_panel s) = [])
      then psys_run differs calm es (psys_does differs e s) else None)"

abbreviation psys_reach :: "(item_values \<Rightarrow> item_values \<Rightarrow> bool) \<Rightarrow> bool \<Rightarrow> psys \<Rightarrow> bool" where
  "psys_reach differs calm \<equiv> reach (\<lambda>s. \<exists>pr. s = mounted_psys pr) (psys_step differs calm)"

text \<open>For evaluation: the size limit compared as an integer.\<close>

lemma validateFile_code [code]:
  "validateFile file =
     (if f_type file \<notin> set ALLOWED_MIME_TYPES then Some msg_file_type
      else if 5242880 < int (f_size file) then Some msg_file_size else None)"
  by (simp add: validateFile_def MAX_FILE_SIZE_BYTES_def)

subsection \<open>What the upload control tells the panel\<close>

fun call_told :: "bool \<Rightarrow> parent_call \<Rightarrow> panel_call list" where
  "call_told True (PendingFilesChange fs) = [PPendingFilesChange fs]"
| "call_told False (UploadingChange b) = [PUploadingChange b]"
| "call_told False UploadAborted = [PUploadAborted]"
| "call_told _ _ = []"

definition adds_files :: "area_variant \<Rightarrow> bool" where
  "adds_files v \<longleftrightarrow> (case v of AddModeArea _ \<Rightarrow> True | _ \<Rightarrow> False)"

definition told :: "area_variant \<Rightarrow> parent_call list \<Rightarrow> panel_call list" where
  "told v xs = concat (map (call_told (adds_files v)) xs)"

lemma told_simps [simp]:
  "told v [] = []" "told v (x # xs) = call_told (adds_files v) x @ told v xs" "told v (xs @ ys) = told v xs @ told v ys"
  by (simp_all add: told_def)

lemma area_hears_step:
  "panel_calls (area_hears v x a) = panel_calls a @ call_told (adds_files v) x"
  "del_hook (area_hears v x a) = del_hook a" "confirmTargetId (area_hears v x a) = confirmTargetId a"
  by (cases v; cases x; simp add: area_hears_def adds_files_def)+

lemma area_hears_all:
  "panel_calls (foldl (\<lambda>a x. area_hears v x a) a xs) = panel_calls a @ told v xs"
  "del_hook (foldl (\<lambda>a x. area_hears v x a) a xs) = del_hook a"
  "confirmTargetId (foldl (\<lambda>a x. area_hears v x a) a xs) = confirmTargetId a"
  by (induction xs arbitrary: a) (simp_all add: area_hears_step)

lemma panel_hears_all_simps [simp]:
  "panel_hears_all [] p = p" "panel_hears_all (x # xs) p = panel_hears_all xs (panel_hears x p)"
  by (simp_all add: panel_hears_all_def)

definition news :: "content \<Rightarrow> uploader \<Rightarrow> parent_call list" where
  "news c u = drop (length (calls_before c)) (calls_made u)"

lemma uploader_becomes_eq:
  "uploader_becomes u c s =
     s\<lparr>ps_content := Some (c\<lparr>ct_uploader := Some u,
         ct_area := foldl (\<lambda>a x. area_hears (ct_variant c) x a) (ct_area c) (news c u)\<rparr>),
       ps_panel := panel_hears_all (told (ct_variant c) (news c u)) (ps_panel s)\<rparr>"
  by (simp add: uploader_becomes_def area_becomes_def area_hears_all news_def)

abbreviation busy :: "uploader \<Rightarrow> bool" where
  "busy u \<equiv> queued (up_hook u) \<noteq> [] \<or> in_flight (up_hook u) \<noteq> []"

lemma uploads_ok_mode: "pr_mode pr = pr_mode pr' \<Longrightarrow> uploads_ok pr u = uploads_ok pr' u"
  by (simp add: uploads_ok_def)

lemma uploader_of_mode [simp]:
  "pr_mode (uploader_of pr v) = (if adds_files v \<or> v = NothingShown then AddMode else EditMode)"
  by (simp add: uploader_of_def adds_files_def split: area_variant.split)

lemma uploads_ok_uploader_of: "uploads_ok (uploader_of pr v) u = uploads_ok (uploader_of pr' v) u"
  by (rule uploads_ok_mode) simp

text \<open>What an event of the control adds to its calls: nothing, the new list of files, or the change of the flag.\<close>

definition heard_well :: "area_variant \<Rightarrow> upload_file list \<Rightarrow> bool \<Rightarrow> parent_call list \<Rightarrow> uploader \<Rightarrow> bool" where
  "heard_well v pend was_busy new u' \<longleftrightarrow>
     (if adds_files v
      then told v new = [] \<and> pendingFiles u' = pend \<or> told v new = [PPendingFilesChange (pendingFiles u')]
      else told v new = [] \<and> (busy u' \<longrightarrow> was_busy) \<or> told v new = [PUploadingChange True] \<or>
           \<not> busy u' \<and> (told v new = [PUploadingChange False] \<or> told v new = [PUploadingChange False, PUploadAborted]))"

definition tells :: "area_variant \<Rightarrow> uploader \<Rightarrow> uploader \<Rightarrow> bool" where
  "tells v u u' \<longleftrightarrow>
     (\<exists>new. calls_made u' = calls_made u @ new \<and> heard_well v (pendingFiles u) (busy u) new u')"

lemmas tells_defs = tells_def heard_well_def

lemma tells_nothing:
  "calls_made u' = calls_made u \<Longrightarrow> pendingFiles u' = pendingFiles u \<Longrightarrow> (busy u' \<longrightarrow> busy u) \<Longrightarrow> tells v u u'"
  by (simp add: tells_defs)

lemma revoke_all_pending [simp]: "pendingFiles (revoke_all u) = pendingFiles u"
proof -
  have "pendingFiles (foldl (\<lambda>s u. revoke u s) s us) = pendingFiles s" for us and s :: uploader
    by (induction us arbitrary: s) simp_all
  then show ?thesis by (simp add: revoke_all_def)
qed

lemma pending_effects_calls:
  "calls_made (pending_effects pr n u) =
     calls_made u @ (if pr_mode pr = AddMode then [PendingFilesChange (pendingFiles u)] else [])"
  by (simp add: pending_effects_def Let_def)

lemma tells_handleFile:
  assumes "uploads_ok pr u" "pr_mode pr = (if adds_files v then AddMode else EditMode)"
  shows "tells v u (handleFile pr f u)"
proof (cases "validateFile f")
  case None
  show ?thesis
  proof (cases "adds_files v")
    case True
    then show ?thesis using assms None
      by (simp add: handleFile_def Let_def addPendingFile_def tells_defs pending_effects_calls)
  next
    case False
    then show ?thesis using assms None
      by (auto simp: handleFile_def startUpload_def Let_def tells_defs split: option.split)
  qed
qed (simp add: handleFile_def tells_nothing)

lemma settle_calls:
  assumes "uploads_ok pr u" "hook_busy (up_hook u) k" "pr_mode pr = EditMode" "\<not> adds_files v"
  shows "tells v u (settle_upload k res u)"
proof -
  have "hook_inv (up_hook u)" using assms(1) hook_reach_inv by (auto simp: uploads_ok_def)
  then have "\<not> busy (settle_upload k res u)"
    using assms(2) by (cases rule: hook_inv_cases)
      (auto simp: settle_upload_hook upload_step_def hook_settle_def Let_def split: option.split sum.split)
  then show ?thesis using assms(2,4)
    by (auto simp: tells_defs settle_upload_def upload_succeeded_def upload_failed_def Let_def split: sum.split)
qed

lemma tells_acts:
  assumes ok: "uploads_ok pr u" and m: "pr_mode pr = (if adds_files v then AddMode else EditMode)"
    and can: "uploader_can pr a u"
  shows "tells v u (uploader_acts pr a u)"
proof (cases a)
  case (UChoose fs)
  then show ?thesis using tells_handleFile [OF ok m] by (cases fs) (simp_all add: handleChange_def tells_nothing)
next
  case (UDrop fs)
  let ?u = "u\<lparr>isDragOver := False\<rparr>"
  have "uploads_ok pr ?u" using ok by (simp add: uploads_ok_def sends_valid_def)
  then have "tells v ?u (handleFile pr f ?u)" for f by (rule tells_handleFile [OF _ m])
  moreover have "tells v ?u w = tells v u w" for w by (simp add: tells_defs)
  ultimately have "tells v u (handleFile pr f ?u)" for f by blast
  then show ?thesis using UDrop by (cases fs) (simp_all add: handleDrop_def Let_def tells_nothing)
next
  case (URemove i)
  then have am: "adds_files v" "pr_mode pr = AddMode" using can m by (auto split: if_splits)
  have c: "calls_made (handlePendingFileRemove pr i u) =
      calls_made u @ [PendingFileRemoved, PendingFilesChange (pendingFiles (handlePendingFileRemove pr i u))]"
    using am by (auto simp: handlePendingFileRemove_def Let_def pending_effects_calls split: option.split)
  have "told v [PendingFileRemoved, PendingFilesChange (pendingFiles (handlePendingFileRemove pr i u))] =
      [PPendingFilesChange (pendingFiles (handlePendingFileRemove pr i u))]"
    using am by simp
  then show ?thesis using URemove am c by (auto simp: tells_defs)
next
  case UStarted
  then show ?thesis
    by (auto simp: tells_defs upload_step_def hook_run_fn_def Let_def split: list.split)
next
  case (USettled k res)
  show ?thesis
  proof (cases "hook_busy (up_hook u) k")
    case True
    then have "pr_mode pr \<noteq> AddMode" using ok by (auto simp: uploads_ok_def)
    then have "pr_mode pr = EditMode" "\<not> adds_files v" using m by (simp_all split: if_splits)
    from settle_calls [OF ok True this] USettled show ?thesis by simp
  qed (simp add: USettled settle_upload_def tells_nothing)
qed (auto simp: handleDragOver_def handleDragLeave_def handlePendingFilePreview_def tells_nothing split: option.split)

lemma acts_step: "uploader_can pr a u \<Longrightarrow> uploader_step pr u (uploader_acts pr a u)"
  by (cases a) (auto simp: new_files_def list_all_iff
      intro: choose drop_file drag_over drag_leave remove preview started settled)

lemma unmount_tells:
  "calls_made (unmount_uploader u) = calls_made u \<or> calls_made (unmount_uploader u) = calls_made u @ [UploadAborted]"
  by (simp add: unmount_uploader_def Let_def)

subsection \<open>What the panel hears\<close>

lemma hears_keeps [simp]:
  "runs (panel_hears_all xs p) = runs p" "outs (panel_hears_all xs p) = outs p"
  "attachmentAddModeResetKey (panel_hears_all xs p) = attachmentAddModeResetKey p"
  "creating (panel_hears_all xs p) = creating p" "isSequentialUploading (panel_hears_all xs p) = isSequentialUploading p"
  "isDiscardDialogOpen (panel_hears_all xs p) = isDiscardDialogOpen p"
proof -
  have "panel_hears x p = p\<lparr>internalIsUploading := internalIsUploading (panel_hears x p),
      internalIsDeleting := internalIsDeleting (panel_hears x p), abortToast := abortToast (panel_hears x p),
      panelFiles := panelFiles (panel_hears x p)\<rparr>" for x p by (cases x) simp_all
  then have "runs (panel_hears x p) = runs p" "outs (panel_hears x p) = outs p"
    "attachmentAddModeResetKey (panel_hears x p) = attachmentAddModeResetKey p" "creating (panel_hears x p) = creating p"
    "isSequentialUploading (panel_hears x p) = isSequentialUploading p"
    "isDiscardDialogOpen (panel_hears x p) = isDiscardDialogOpen p" for x p
    by (cases x; simp)+
  then show "runs (panel_hears_all xs p) = runs p" "outs (panel_hears_all xs p) = outs p"
    "attachmentAddModeResetKey (panel_hears_all xs p) = attachmentAddModeResetKey p"
    "creating (panel_hears_all xs p) = creating p" "isSequentialUploading (panel_hears_all xs p) = isSequentialUploading p"
    "isDiscardDialogOpen (panel_hears_all xs p) = isDiscardDialogOpen p"
    by (induction xs arbitrary: p) simp_all
qed

lemma hears_may_start [simp]: "may_start (panel_hears_all xs p) = may_start p"
  by (simp add: may_start_def)

lemma hears_variant [simp]: "panel_area_variant pr (panel_hears_all xs p) = panel_area_variant pr p"
  by (simp add: panel_area_variant_def)

lemma hears_reach: "panel_reach calm p \<Longrightarrow> panel_reach calm (panel_hears_all xs p)"
  by (induction xs arbitrary: p) (simp_all add: area_calls)

definition silent_calls :: "panel_call list \<Rightarrow> bool" where
  "silent_calls xs \<longleftrightarrow> set xs \<subseteq> {PUploadAborted, PDeleteAborted}"

lemma hears_silent:
  "silent_calls xs \<Longrightarrow> panelFiles (panel_hears_all xs p) = panelFiles p \<and>
     internalIsUploading (panel_hears_all xs p) = internalIsUploading p \<and>
     internalIsDeleting (panel_hears_all xs p) = internalIsDeleting p"
  by (induction xs arbitrary: p) (auto simp: silent_calls_def)

lemma panel_files_hears:
  "panelFiles (panel_hears_all xs p) = panelFiles p \<Longrightarrow> panel_files (panel_hears_all xs p) = panel_files p"
  by (simp add: panel_files_def)

subsection \<open>The invariant of the composition\<close>

definition valid_files :: "upload_file set \<Rightarrow> bool" where
  "valid_files F \<longleftrightarrow> (\<forall>f \<in> F. validateFile f = None)"

lemma valid_files_mono: "valid_files G \<Longrightarrow> F \<subseteq> G \<Longrightarrow> valid_files F"
  by (auto simp: valid_files_def)

lemma valid_files_Un [simp]: "valid_files (F \<union> G) \<longleftrightarrow> valid_files F \<and> valid_files G"
  by (auto simp: valid_files_def)

definition content_ok :: "panel \<Rightarrow> content \<Rightarrow> bool" where
  "content_ok p c \<longleftrightarrow>
     form_reach (ct_form c) \<and>
     (\<forall>cb v. pendingSubmitCallback (ct_form c) = Some (cb, v) \<longrightarrow> may_start p \<and> valid_files (callback_files cb)) \<and>
     hook_reach useDeleteAttachment (del_hook (ct_area c)) \<and>
     (delete_pending (ct_area c) \<longrightarrow> internalIsDeleting p) \<and>
     (\<forall>u. ct_uploader c = Some u \<longrightarrow>
        ct_variant c \<noteq> NothingShown \<and> (\<forall>pr. uploads_ok (uploader_of pr (ct_variant c)) u) \<and>
        (busy u \<longrightarrow> internalIsUploading p))"

definition parts_ok :: "bool \<Rightarrow> psys \<Rightarrow> bool" where
  "parts_ok calm s \<longleftrightarrow>
     panel_reach calm (ps_panel s) \<and> valid_files (panel_files (ps_panel s)) \<and>
     (\<forall>c. ps_content s = Some c \<longrightarrow> content_ok (ps_panel s) c)"

definition files_shown :: "panel \<Rightarrow> content \<Rightarrow> bool" where
  "files_shown p c \<longleftrightarrow> (\<forall>u. ct_uploader c = Some u \<longrightarrow> adds_files (ct_variant c) \<longrightarrow> panelFiles p = pendingFiles u)"

definition fitted :: "psys \<Rightarrow> bool" where
  \<comment> \<open>after a commit the children are those that the render asks for\<close>
  "fitted s \<longleftrightarrow>
     (\<forall>c. ps_content s = Some c \<longrightarrow>
        ct_variant c = panel_area_variant (ps_props s) (ps_panel s) \<and>
        (ct_uploader c \<noteq> None \<longleftrightarrow> ct_variant c \<noteq> NothingShown \<and> canModify (ps_props s)) \<and>
        files_shown (ps_panel s) c)"

definition synced :: "psys \<Rightarrow> bool" where
  "synced s \<longleftrightarrow>
     (\<forall>c. ps_content s = Some c \<longrightarrow> ct_variant c = panel_area_variant (ps_props s) (ps_panel s) \<longrightarrow>
        files_shown (ps_panel s) c)"

lemma content_ok_hears_silent:
  "silent_calls xs \<Longrightarrow> content_ok p c \<Longrightarrow> content_ok (panel_hears_all xs p) c"
  using hears_silent [of xs p] unfolding content_ok_def by simp

lemma drop_uploader_cases:
  assumes "ps_content s = Some c"
  obtains xs a where "silent_calls xs" "del_hook a = del_hook (ct_area c)"
    "drop_uploader s = s\<lparr>ps_panel := panel_hears_all xs (ps_panel s),
       ps_content := Some (c\<lparr>ct_uploader := None, ct_area := a\<rparr>)\<rparr>"
proof (cases "ct_uploader c")
  case None
  then have "drop_uploader s = s\<lparr>ps_panel := panel_hears_all [] (ps_panel s),
      ps_content := Some (c\<lparr>ct_uploader := None, ct_area := ct_area c\<rparr>)\<rparr>"
    using assms by (simp add: drop_uploader_def)
  then show ?thesis using that [of "[]" "ct_area c"] by (simp add: silent_calls_def)
next
  case (Some u)
  let ?new = "news c (unmount_uploader u)"
  have "silent_calls (told (ct_variant c) ?new)"
    using unmount_tells [of u] Some
    by (cases "adds_files (ct_variant c)") (auto simp: news_def calls_before_def silent_calls_def)
  moreover have "drop_uploader s = s\<lparr>ps_panel := panel_hears_all (told (ct_variant c) ?new) (ps_panel s),
      ps_content := Some (c\<lparr>ct_uploader := None, ct_area := foldl (\<lambda>a x. area_hears (ct_variant c) x a) (ct_area c) ?new\<rparr>)\<rparr>"
    using assms Some by (simp add: drop_uploader_def uploader_becomes_eq Let_def)
  ultimately show ?thesis using that area_hears_all(2) by blast
qed

lemma unmount_children_cases:
  assumes "ps_content s = Some c"
  obtains xs c' where "silent_calls xs" "ct_form c' = ct_form c"
    "unmount_children s = s\<lparr>ps_panel := panel_hears_all xs (ps_panel s), ps_content := Some c'\<rparr>"
proof -
  let ?a = "unmount_area (ct_area c)"
  let ?ys = "drop (length (panel_calls (ct_area c))) (panel_calls ?a)"
  let ?s = "area_becomes ?a c s"
  have ys: "silent_calls ?ys" by (auto simp: unmount_area_def Let_def silent_calls_def tell_def)
  have s: "?s = s\<lparr>ps_content := Some (c\<lparr>ct_area := ?a\<rparr>), ps_panel := panel_hears_all ?ys (ps_panel s)\<rparr>"
    by (simp add: area_becomes_def)
  obtain xs a where xs: "silent_calls xs" "drop_uploader ?s = ?s\<lparr>ps_panel := panel_hears_all xs (ps_panel ?s),
      ps_content := Some (c\<lparr>ct_area := ?a, ct_uploader := None, ct_area := a\<rparr>)\<rparr>"
    by (rule drop_uploader_cases [of ?s "c\<lparr>ct_area := ?a\<rparr>"]) (simp_all add: s)
  have "panel_hears_all xs (panel_hears_all ?ys (ps_panel s)) = panel_hears_all (?ys @ xs) (ps_panel s)"
    by (simp add: panel_hears_all_def)
  then have e: "unmount_children s = s\<lparr>ps_panel := panel_hears_all (?ys @ xs) (ps_panel s),
      ps_content := Some (c\<lparr>ct_area := ?a, ct_uploader := None, ct_area := a\<rparr>)\<rparr>"
    using assms xs(2) s by (simp add: unmount_children_def)
  have "silent_calls (?ys @ xs)" using ys xs(1) by (simp add: silent_calls_def)
  then show ?thesis by (rule that [OF _ _ e]) simp
qed

lemma mounted_heard_well: "heard_well v pend False (calls_made (mounted_uploader (uploader_of pr v))) (mounted_uploader (uploader_of pr v))"
  if "v \<noteq> NothingShown"
  using that by (simp add: heard_well_def mounted_uploader_def fresh_hook_def)

lemma uploader_becomes_ok:
  assumes ok: "parts_ok calm s" and c: "ps_content s = Some c" and v: "ct_variant c \<noteq> NothingShown"
    and u: "uploads_ok (uploader_of pr (ct_variant c)) u"
    and h: "heard_well (ct_variant c) pend was_busy (news c u) u" and b: "was_busy \<longrightarrow> internalIsUploading (ps_panel s)"
  shows "parts_ok calm (uploader_becomes u c s)"
    "adds_files (ct_variant c) \<longrightarrow> panelFiles (ps_panel s) = pend \<longrightarrow>
       panelFiles (ps_panel (uploader_becomes u c s)) = pendingFiles u"
proof -
  let ?p = "ps_panel s" and ?xs = "told (ct_variant c) (news c u)"
  let ?q = "panel_hears_all ?xs ?p"
  have cok: "content_ok ?p c" and reach: "panel_reach calm ?p" and files: "valid_files (panel_files ?p)"
    using ok c by (auto simp: parts_ok_def)
  have valid: "valid_files (set (pendingFiles u))" using u by (auto simp: uploads_ok_def sends_valid_def valid_files_def)
  have q: "valid_files (panel_files ?q) \<and> internalIsDeleting ?q = internalIsDeleting ?p \<and> (busy u \<longrightarrow> internalIsUploading ?q)"
    using h b files valid v u
    by (auto simp: heard_well_def panel_files_def valid_files_def uploads_ok_def split: if_splits)
  have "content_ok ?q (c\<lparr>ct_uploader := Some u, ct_area := foldl (\<lambda>a x. area_hears (ct_variant c) x a) (ct_area c) (news c u)\<rparr>)"
    using cok q v u uploads_ok_uploader_of [of pr]
    by (auto simp: content_ok_def delete_pending_def area_hears_all)
  then show "parts_ok calm (uploader_becomes u c s)"
    using q hears_reach [OF reach] by (simp add: parts_ok_def uploader_becomes_eq)
  show "adds_files (ct_variant c) \<longrightarrow> panelFiles (ps_panel s) = pend \<longrightarrow>
       panelFiles (ps_panel (uploader_becomes u c s)) = pendingFiles u"
    using h by (auto simp: heard_well_def uploader_becomes_eq)
qed

subsection \<open>Commits keep the invariant\<close>

lemma parts_okD:
  assumes "parts_ok calm s"
  shows "panel_reach calm (ps_panel s)" "valid_files (panel_files (ps_panel s))"
    "ps_content s = Some c \<Longrightarrow> content_ok (ps_panel s) c"
  using assms by (auto simp: parts_ok_def)

lemma parts_ok_silent:
  assumes "parts_ok calm s" "silent_calls xs" "\<And>c. ct = Some c \<Longrightarrow> content_ok (ps_panel s) c"
  shows "parts_ok calm (s\<lparr>ps_panel := panel_hears_all xs (ps_panel s), ps_content := ct\<rparr>)"
  using parts_okD(1,2) [OF assms(1)] hears_silent [OF assms(2), of "ps_panel s"] assms(3)
    content_ok_hears_silent [OF assms(2)] hears_reach panel_files_hears
  by (auto simp: parts_ok_def)

lemma drop_uploader_ok:
  assumes ok: "parts_ok calm s" and c: "ps_content s = Some c"
  shows "parts_ok calm (drop_uploader s)" "ps_props (drop_uploader s) = ps_props s"
    "\<exists>a. ps_content (drop_uploader s) = Some (c\<lparr>ct_uploader := None, ct_area := a\<rparr>)"
    "panel_area_variant pr (ps_panel (drop_uploader s)) = panel_area_variant pr (ps_panel s)"
proof -
  obtain xs a where d: "silent_calls xs" "del_hook a = del_hook (ct_area c)"
    "drop_uploader s = s\<lparr>ps_panel := panel_hears_all xs (ps_panel s),
       ps_content := Some (c\<lparr>ct_uploader := None, ct_area := a\<rparr>)\<rparr>"
    by (rule drop_uploader_cases [OF c])
  have "content_ok (ps_panel s) (c\<lparr>ct_uploader := None, ct_area := a\<rparr>)"
    using parts_okD(3) [OF ok c] d(2) by (auto simp: content_ok_def delete_pending_def)
  then show "parts_ok calm (drop_uploader s)" unfolding d(3) by (intro parts_ok_silent [OF ok d(1)]) auto
  show "ps_props (drop_uploader s) = ps_props s"
    "\<exists>a. ps_content (drop_uploader s) = Some (c\<lparr>ct_uploader := None, ct_area := a\<rparr>)"
    "panel_area_variant pr (ps_panel (drop_uploader s)) = panel_area_variant pr (ps_panel s)"
    unfolding d(3) by auto
qed

lemma fit_uploader_ok:
  assumes ok: "parts_ok calm s" and c: "ps_content s = Some c"
    and v: "ct_variant c = panel_area_variant (ps_props s) (ps_panel s)" and f: "files_shown (ps_panel s) c"
  shows "parts_ok calm (fit_uploader s) \<and> fitted (fit_uploader s) \<and> ps_props (fit_uploader s) = ps_props s"
proof (cases "ct_variant c \<noteq> NothingShown \<and> canModify (ps_props s)")
  case False
  then have "fit_uploader s = drop_uploader s" using c by (auto simp: fit_uploader_def)
  then show ?thesis
    using drop_uploader_ok [OF ok c] v False by (auto simp: fitted_def files_shown_def)
next
  case True
  show ?thesis
  proof (cases "ct_uploader c")
    case (Some u)
    then have "fit_uploader s = s" using c True by (auto simp: fit_uploader_def)
    then show ?thesis using ok c v f True Some by (auto simp: fitted_def)
  next
    case None
    let ?u = "mounted_uploader (uploader_of (ps_props s) (ct_variant c))"
    have e: "fit_uploader s = uploader_becomes ?u c s" using c True None by (simp add: fit_uploader_def)
    have n: "news c ?u = calls_made ?u" using None by (simp add: news_def calls_before_def)
    have h: "heard_well (ct_variant c) (panelFiles (ps_panel s)) False (news c ?u) ?u"
      unfolding n using mounted_heard_well True by simp
    note b = uploader_becomes_ok [OF ok c _ uploads_ok_mounted h]
    have "ps_content (uploader_becomes ?u c s) = Some (c\<lparr>ct_uploader := Some ?u,
        ct_area := foldl (\<lambda>a x. area_hears (ct_variant c) x a) (ct_area c) (news c ?u)\<rparr>)"
      "ps_props (uploader_becomes ?u c s) = ps_props s"
      "panel_area_variant (ps_props s) (ps_panel (uploader_becomes ?u c s)) = panel_area_variant (ps_props s) (ps_panel s)"
      by (simp_all add: uploader_becomes_eq)
    then show ?thesis unfolding e using b True v by (auto simp: fitted_def files_shown_def)
  qed
qed

lemma refit_ok:
  assumes ok: "parts_ok calm s" and f: "synced s"
  shows "parts_ok calm (refit s) \<and> fitted (refit s) \<and> ps_props (refit s) = ps_props s"
proof (cases "ps_content s")
  case None
  then show ?thesis using ok by (simp add: refit_def fitted_def)
next
  case (Some c)
  let ?v = "panel_area_variant (ps_props s) (ps_panel s)"
  show ?thesis
  proof (cases "ct_variant c = ?v")
    case True
    then have "files_shown (ps_panel s) c" using f Some by (simp add: synced_def)
    with fit_uploader_ok [OF ok Some True] True Some show ?thesis by (simp add: refit_def Let_def)
  next
    case False
    obtain xs c' where d: "silent_calls xs" "ct_form c' = ct_form c"
      "unmount_children s = s\<lparr>ps_panel := panel_hears_all xs (ps_panel s), ps_content := Some c'\<rparr>"
      by (rule unmount_children_cases [OF Some])
    let ?c = "c'\<lparr>ct_variant := ?v, ct_area := mounted_area, ct_uploader := None\<rparr>"
    let ?s = "place_area ?v (unmount_children s)"
    have s: "?s = s\<lparr>ps_panel := panel_hears_all xs (ps_panel s), ps_content := Some ?c\<rparr>"
      unfolding d(3) by (simp add: place_area_def)
    have "content_ok (ps_panel s) ?c"
      using parts_okD(3) [OF ok Some] d(2)
      by (auto simp: content_ok_def delete_pending_def mounted_area_def hook_reach_fresh, simp_all add: fresh_hook_def)
    then have "parts_ok calm ?s" unfolding s by (intro parts_ok_silent [OF ok d(1)]) auto
    moreover have "ps_content ?s = Some ?c" "ps_props ?s = ps_props s"
      "ct_variant ?c = panel_area_variant (ps_props ?s) (ps_panel ?s)"
      unfolding s by simp_all
    moreover have "files_shown (ps_panel ?s) ?c" by (simp add: files_shown_def)
    ultimately have "parts_ok calm (fit_uploader ?s) \<and> fitted (fit_uploader ?s) \<and> ps_props (fit_uploader ?s) = ps_props s"
      using fit_uploader_ok [of calm ?s ?c] by simp
    then show ?thesis using Some False by (simp add: refit_def Let_def)
  qed
qed

lemma mount_content_ok:
  assumes ok: "parts_ok calm s"
  shows "parts_ok calm (mount_content s) \<and> fitted (mount_content s) \<and> ps_props (mount_content s) = ps_props s"
proof -
  let ?c = "\<lparr>ct_form = mounted_form (form_props_of s), ct_variant = panel_area_variant (ps_props s) (ps_panel s),
      ct_area = mounted_area, ct_uploader = None\<rparr>"
  let ?s = "s\<lparr>ps_content := Some ?c\<rparr>"
  have "content_ok (ps_panel s) ?c"
    using form_mounted [of "form_props_of s"]
    by (auto simp: content_ok_def delete_pending_def mounted_area_def hook_reach_fresh, simp_all add: fresh_hook_def mounted_form_def)
  then have "parts_ok calm ?s" using ok by (simp add: parts_ok_def)
  then show ?thesis
    using fit_uploader_ok [of calm ?s ?c] by (simp add: mount_content_def Let_def files_shown_def)
qed

lemma content_gone_ok:
  assumes ok: "parts_ok calm s"
  shows "parts_ok calm (content_gone s) \<and> fitted (content_gone s) \<and> ps_props (content_gone s) = ps_props s"
proof (cases "ps_content s")
  case None
  then show ?thesis using ok by (simp add: content_gone_def unmount_children_def fitted_def parts_ok_def)
next
  case (Some c)
  obtain xs c' where d: "silent_calls xs" "ct_form c' = ct_form c"
    "unmount_children s = s\<lparr>ps_panel := panel_hears_all xs (ps_panel s), ps_content := Some c'\<rparr>"
    by (rule unmount_children_cases [OF Some])
  have "content_gone s = s\<lparr>ps_panel := panel_hears_all xs (ps_panel s), ps_content := None\<rparr>"
    unfolding content_gone_def d(3) by simp
  then show ?thesis using parts_ok_silent [OF ok d(1), of None] by (simp add: fitted_def)
qed

subsection \<open>Operations of the panel keep the invariant\<close>

definition same_skeleton :: "psys \<Rightarrow> psys \<Rightarrow> bool" where
  \<comment> \<open>the same panel and the same children, apart from the form and the hooks\<close>
  "same_skeleton s t \<longleftrightarrow>
     ps_props t = ps_props s \<and> ps_panel t = ps_panel s \<and>
     (case (ps_content s, ps_content t) of
        (None, None) \<Rightarrow> True
      | (Some c, Some d) \<Rightarrow>
          ct_variant d = ct_variant c \<and> map_option pendingFiles (ct_uploader d) = map_option pendingFiles (ct_uploader c) \<and>
          (content_started c \<longrightarrow> content_started d)
      | _ \<Rightarrow> False)"

lemma skeleton_refl: "same_skeleton s s"
  by (simp add: same_skeleton_def split: option.split)

lemma skeleton_trans: "same_skeleton s t \<Longrightarrow> same_skeleton t u \<Longrightarrow> same_skeleton s u"
  by (auto simp: same_skeleton_def split: option.splits)

lemma skeleton_started:
  "same_skeleton s t \<Longrightarrow> (\<forall>c. ps_content s = Some c \<longrightarrow> content_started c) \<Longrightarrow> ps_content t = Some d \<Longrightarrow> content_started d"
  by (auto simp: same_skeleton_def split: option.splits)

lemma form_reset_pending [simp]: "pendingSubmitCallback (form_reset p f) = pendingSubmitCallback f"
  by (simp add: form_reset_def)

lemma delete_hook_cancel:
  "hook_reach useDeleteAttachment h \<Longrightarrow> queued h = [] \<Longrightarrow> hook_reach useDeleteAttachment (delete_step Cancel h)"
  by (rule delete_hook_reach) (simp_all add: one_at_a_time_def)

lemma upload_cancel_ok:
  "uploads_ok pr u \<Longrightarrow> queued (up_hook u) = [] \<Longrightarrow> uploads_ok pr (u\<lparr>up_hook := upload_step Cancel (up_hook u)\<rparr>)"
  using uploads_ok_step [OF cancelled] by blast

definition cancels :: "panel_out list \<Rightarrow> bool" where
  "cancels xs \<longleftrightarrow> OCancelUpload \<in> set xs \<or> OCancelDelete \<in> set xs"

definition all_started :: "psys \<Rightarrow> bool" where
  "all_started s \<longleftrightarrow> (\<forall>c. ps_content s = Some c \<longrightarrow> content_started c)"

lemma skeleton_all_started: "same_skeleton s t \<Longrightarrow> all_started s \<Longrightarrow> all_started t"
  unfolding all_started_def using skeleton_started by blast

lemma child_hears_ok:
  assumes ok: "parts_ok calm s" and st: "cancels [x] \<longrightarrow> all_started s"
  shows "parts_ok calm (child_hears x s) \<and> same_skeleton s (child_hears x s)"
proof (cases "ps_content s")
  case None
  then show ?thesis using ok by (simp add: child_calls skeleton_refl)
next
  case (Some c)
  have cok: "content_ok (ps_panel s) c" by (rule parts_okD(3) [OF ok Some])
  have cs: "content_started c" if "x = OCancelUpload \<or> x = OCancelDelete"
    using st Some that by (auto simp: cancels_def all_started_def)
  have new: "parts_ok calm (s\<lparr>ps_content := Some d\<rparr>)" if "content_ok (ps_panel s) d" for d
    using ok that by (simp add: parts_ok_def)
  show ?thesis
  proof (cases x)
    case OFormReset
    have "content_ok (ps_panel s) (c\<lparr>ct_form := form_reset (form_props_of s) (ct_form c)\<rparr>)"
      using cok by (auto simp: content_ok_def intro: form_was_reset)
    from new [OF this] show ?thesis using Some OFormReset
      by (simp add: child_calls same_skeleton_def content_started_def)
  next
    case OCancelUpload
    show ?thesis
    proof (cases "\<exists>i u. ct_variant c = ContentArea i \<and> ct_uploader c = Some u")
      case True
      then obtain i u where u: "ct_variant c = ContentArea i" "ct_uploader c = Some u" by blast
      let ?u = "u\<lparr>up_hook := upload_step Cancel (up_hook u)\<rparr>"
      have q: "queued (up_hook u) = []" using cs OCancelUpload u by (simp add: content_started_def)
      have "\<forall>pr. uploads_ok (uploader_of pr (ContentArea i)) ?u"
        using upload_cancel_ok [OF _ q] cok u by (simp add: content_ok_def)
      then have "content_ok (ps_panel s) (c\<lparr>ct_uploader := Some ?u\<rparr>)"
        using cok u hook_idle_steps by (simp add: content_ok_def)
      from new [OF this] show ?thesis using Some OCancelUpload u q cs hook_idle_steps
        by (simp add: child_calls same_skeleton_def content_started_def)
    next
      case False
      then have "child_hears x s = s" using Some OCancelUpload
        by (auto simp: child_calls split: area_variant.split option.split)
      then show ?thesis using ok by (simp add: skeleton_refl)
    qed
  next
    case OCancelDelete
    let ?a = "(ct_area c)\<lparr>del_hook := delete_step Cancel (del_hook (ct_area c))\<rparr>"
    have "content_ok (ps_panel s) (c\<lparr>ct_area := ?a\<rparr>)"
      using cok cs OCancelDelete delete_hook_cancel
      by (auto simp: content_ok_def content_started_def delete_pending_def delete_hook_effects)
    from new [OF this] show ?thesis using Some OCancelDelete cs ok
      by (auto simp: child_calls same_skeleton_def content_started_def delete_hook_effects split: area_variant.split)
  qed (use ok Some in \<open>simp_all add: child_calls skeleton_refl\<close>)
qed

lemma children_hear_ok:
  assumes "parts_ok calm s" "cancels xs \<longrightarrow> all_started s"
  shows "parts_ok calm (foldl (\<lambda>t x. child_hears x t) s xs) \<and> same_skeleton s (foldl (\<lambda>t x. child_hears x t) s xs)"
  using assms
proof (induction xs arbitrary: s)
  case (Cons x xs)
  let ?t = "child_hears x s"
  have st: "cancels [x] \<longrightarrow> all_started s" "cancels xs \<longrightarrow> all_started s" using Cons.prems(2) by (auto simp: cancels_def)
  have t: "parts_ok calm ?t" "same_skeleton s ?t" using child_hears_ok [OF Cons.prems(1) st(1)] by auto
  have "cancels xs \<longrightarrow> all_started ?t" using skeleton_all_started [OF t(2)] st(2) by blast
  from Cons.IH [OF t(1) this] t(2) show ?case by (auto intro: skeleton_trans)
qed (simp add: skeleton_refl)

lemma panel_does_ok:
  assumes ok: "parts_ok calm s" and fit: "fitted s" and r: "panel_reach calm (f (ps_panel s))"
    and m: "panel_moves S X (ps_panel s) (f (ps_panel s))" and X: "valid_files X"
    and st: "cancels (drop (length (outs (ps_panel s))) (outs (f (ps_panel s)))) \<longrightarrow> all_started s"
    and ms: "\<And>c. ps_content s = Some c \<Longrightarrow> pendingSubmitCallback (ct_form c) \<noteq> None \<Longrightarrow> may_start (f (ps_panel s))"
  shows "parts_ok calm (panel_does f s) \<and> fitted (panel_does f s) \<and> ps_props (panel_does f s) = ps_props s"
proof -
  let ?p = "ps_panel s"
  let ?q = "f ?p"
  let ?s = "s\<lparr>ps_panel := ?q\<rparr>"
  let ?t = "foldl (\<lambda>t x. child_hears x t) ?s (drop (length (outs ?p)) (outs ?q))"
  have "valid_files (panel_files ?q)"
    using m X parts_okD(2) [OF ok] by (auto simp: panel_moves_def valid_files_def)
  moreover have "content_ok ?q c" if "ps_content s = Some c" for c
    using parts_okD(3) [OF ok that] m ms [OF that] by (auto simp: content_ok_def panel_moves_def)
  ultimately have ok': "parts_ok calm ?s" using r by (simp add: parts_ok_def)
  have t: "parts_ok calm ?t \<and> same_skeleton ?s ?t"
    by (intro children_hear_ok [OF ok']) (use st in \<open>simp add: all_started_def\<close>)
  have "synced ?t"
  proof (unfold synced_def, intro allI impI)
    fix d assume d: "ps_content ?t = Some d" "ct_variant d = panel_area_variant (ps_props ?t) (ps_panel ?t)"
    obtain c where c: "ps_content s = Some c" "ct_variant d = ct_variant c"
      "map_option pendingFiles (ct_uploader d) = map_option pendingFiles (ct_uploader c)"
      using t d(1) by (auto simp: same_skeleton_def split: option.splits)
    have pt: "ps_panel ?t = ?q" "ps_props ?t = ps_props s" using t by (auto simp: same_skeleton_def)
    have fc: "ct_variant c = panel_area_variant (ps_props s) ?p" "files_shown ?p c"
      using fit c(1) by (auto simp: fitted_def)
    have "panelFiles ?q = panelFiles ?p" if "adds_files (ct_variant c)"
    proof -
      have "attachmentAddModeResetKey ?q = attachmentAddModeResetKey ?p"
        using fc(1) d(2) c(2) that pt
        by (auto simp: panel_area_variant_def attachmentArea_def adds_files_def split: if_splits option.splits)
      then show ?thesis using m by (auto simp: panel_moves_def)
    qed
    then show "files_shown (ps_panel ?t) d"
      using fc(2) c pt by (cases "ct_uploader c") (auto simp: files_shown_def)
  qed
  with t refit_ok [of calm ?t] show ?thesis
    by (auto simp: panel_does_def Let_def same_skeleton_def)
qed

subsection \<open>Events keep the invariant\<close>

lemma may_start_quiet:
  "may_start p \<Longrightarrow> may_start (handleDiscardCancel p)" "may_start p \<Longrightarrow> may_start (open_effect pr p)"
  "may_start p \<Longrightarrow> may_start (form_dirty_changes b p)" "may_start p \<Longrightarrow> may_start (close_panel_toast k p)"
  using core_quiet [where s = p] by (simp_all add: may_start_def core_def)

lemma may_start_abort: "may_start p \<Longrightarrow> may_start (abortSequentialUpload p)"
  by (auto simp: may_start_def abortSequentialUpload_def split: option.split)

lemma may_start_close: "may_start p \<Longrightarrow> may_start (handleCloseAttempt pr p)" "may_start p \<Longrightarrow> may_start (handleDiscard p)"
proof -
  assume p: "may_start p"
  have e: "may_start (emit x u) = may_start u" for x u by (simp add: may_start_def)
  have f: "may_start (u\<lparr>abortToast := x\<rparr>) = may_start u" "may_start (u\<lparr>isDiscardDialogOpen := b\<rparr>) = may_start u"
    "may_start (u\<lparr>isFormDirty := b, panelFiles := fs, attachmentAddModeResetKey := k\<rparr>) = may_start u" for u x b fs k
    by (simp_all add: may_start_def)
  show "may_start (handleCloseAttempt pr p)" "may_start (handleDiscard p)"
    using p may_start_abort by (simp_all add: handleCloseAttempt_def handleDiscard_def Let_def e f)
qed

lemma may_start_settles:
  assumes "panel_reach calm p" "may_start p"
  shows "may_start (create_settles c res p)" "may_start (upload_settles c res p)"
proof -
  have inv: "creation_inv p" by (rule panel_reach_creation_inv [OF assms(1)])
  have "\<not> (\<exists>r. find_run c p = Some r \<and> rn_stage r = Creating)"
    using inv assms(2) find_run_Some [of c p] by (fastforce simp: creation_inv_def may_start_def)
  then have "create_settles c res p = p" by (intro create_settles_other) auto
  then show "may_start (create_settles c res p)" using assms(2) by simp
  show "may_start (upload_settles c res p)"
  proof (cases "\<exists>r item i n. find_run c p = Some r \<and> rn_stage r = Sending item i n")
    case True
    then obtain r item i n where r: "find_run c p = Some r" "rn_stage r = Sending item i n" by blast
    show ?thesis
      using upload_settles_advances [OF r] assms(2) r(2) by (auto simp: run_advances_def may_start_def)
  next
    case False
    then have "upload_settles c res p = p" by (intro upload_settles_other) (metis stage.exhaust option.exhaust)
    then show ?thesis using assms(2) by simp
  qed
qed

definition good :: "bool \<Rightarrow> psys \<Rightarrow> bool" where
  "good calm s \<longleftrightarrow> parts_ok calm s \<and> fitted s"

lemma valid_empty [simp]: "valid_files {}"
  by (simp add: valid_files_def)

lemma pending_may_start:
  "parts_ok calm s \<Longrightarrow> ps_content s = Some c \<Longrightarrow> pendingSubmitCallback (ct_form c) \<noteq> None \<Longrightarrow> may_start (ps_panel s)"
  by (auto dest!: parts_okD(3) simp: content_ok_def)

lemma good_panel_op:
  assumes "good calm s" "panel_moves False {} (ps_panel s) (f (ps_panel s))" "panel_reach calm (f (ps_panel s))"
    "may_start (ps_panel s) \<Longrightarrow> may_start (f (ps_panel s))"
    "cancels (drop (length (outs (ps_panel s))) (outs (f (ps_panel s)))) \<longrightarrow> all_started s"
  shows "good calm (panel_does f s)"
  using panel_does_ok [of calm s f False "{}"] assms pending_may_start by (auto simp: good_def)

lemma good_render:
  assumes g: "good calm s"
  shows "good calm (parent_renders pr s)"
proof -
  let ?s1 = "s\<lparr>ps_props := pr\<rparr>"
  define s2 where "s2 = (if pp_open pr \<and> ps_content ?s1 = None then mount_content ?s1 else refit ?s1)"
  have ok: "parts_ok calm ?s1" using g by (simp add: good_def parts_ok_def)
  have "synced ?s1" using g by (auto simp: good_def fitted_def synced_def)
  then have s2: "parts_ok calm s2 \<and> fitted s2" using mount_content_ok [OF ok] refit_ok [OF ok] by (simp add: s2_def)
  show ?thesis
  proof (cases "pp_open (ps_props s) \<and> \<not> pp_open pr")
    case False
    then show ?thesis using s2 by (auto simp: parent_renders_def s2_def Let_def good_def)
  next
    case True
    then have e: "parent_renders pr s = panel_does (open_effect pr) s2" by (simp add: parent_renders_def s2_def Let_def)
    have "\<not> cancels (drop (length (outs u)) (outs (open_effect pr u)))" for u
      by (simp add: open_effect_def resetDirtyState_def emit_def Let_def cancels_def)
    then show ?thesis unfolding e using s2 parts_okD(1) [of calm s2]
      by (intro good_panel_op) (auto simp: good_def moves_quiet may_start_quiet intro: opened_or_closed)
  qed
qed

lemma area_acts_tell:
  assumes h: "hook_reach useDeleteAttachment (del_hook a)" and can: "area_can pr e a"
  shows "hook_reach useDeleteAttachment (del_hook (area_acts pr e a)) \<and>
    (\<exists>new. panel_calls (area_acts pr e a) = panel_calls a @ new \<and>
       (new = [] \<and> (delete_pending (area_acts pr e a) \<longrightarrow> delete_pending a) \<or> new = [PDeletingChange True] \<or>
        \<not> delete_pending (area_acts pr e a) \<and> (new = [PDeletingChange False] \<or> new = [PDeletingChange False, PDeleteAborted])))"
proof (cases e)
  case AConfirm
  then have idle: "queued (del_hook a) = []" "in_flight (del_hook a) = []" using can by (auto simp: delete_pending_def)
  then have "hook_reach useDeleteAttachment (delete_step (Mutate p) (del_hook a))" for p
    by (intro delete_hook_reach [OF h]) (simp add: one_at_a_time_def)
  then show ?thesis using AConfirm can by (auto simp: handleConfirmDelete_def Let_def)
next
  case AStarted
  have "hook_reach useDeleteAttachment (delete_step RunFn (del_hook a))"
    by (rule delete_hook_reach [OF h]) (simp add: one_at_a_time_def)
  then show ?thesis using AStarted by (auto simp: delete_pending_def delete_hook_run)
next
  case (ASettled k res)
  show ?thesis
  proof (cases "hook_busy (del_hook a) k")
    case True
    have r: "hook_reach useDeleteAttachment (delete_step (Settle k res) (del_hook a))"
      by (rule delete_hook_reach [OF h]) (simp add: one_at_a_time_def)
    have idle: "queued (delete_step (Settle k res) (del_hook a)) = []" "in_flight (delete_step (Settle k res) (del_hook a)) = []"
      using idle_after_settle [OF h True] by (simp_all add: delete_hook_effects delete_hook_settle_flight [OF True])
    have s: "settle_delete k res a = delete_settled res (a\<lparr>del_hook := delete_step (Settle k res) (del_hook a)\<rparr>)"
      using True by (simp add: settle_delete_def)
    have "\<not> delete_pending (settle_delete k res a)" unfolding s delete_pending_def using idle by simp
    moreover have "panel_calls (delete_settled res b) = panel_calls b @ [PDeletingChange False] \<or>
        panel_calls (delete_settled res b) = panel_calls b @ [PDeletingChange False, PDeleteAborted]" for b
      by (auto simp: delete_settled_def Let_def split: sum.split)
    moreover have "hook_reach useDeleteAttachment (del_hook (settle_delete k res a))" unfolding s using r by simp
    ultimately show ?thesis using ASettled s
      by (metis (no_types, lifting) area.select_convs(5) area.surjective area.update_convs(4) area_acts.simps(5))
  qed (use h ASettled in \<open>simp add: settle_delete_def\<close>)
qed (use h in \<open>simp_all add: handleDeleteRequest_def handleCancelDelete_def delete_pending_def\<close>)

lemma good_area_event:
  assumes g: "good calm s" and c: "ps_content s = Some c" "ct_variant c = ContentArea i"
    and can: "area_can (area_of (ps_props s) i) e (ct_area c)"
  shows "good calm (refit (area_becomes (area_acts (area_of (ps_props s) i) e (ct_area c)) c s))"
proof -
  let ?a = "area_acts (area_of (ps_props s) i) e (ct_area c)"
  let ?t = "area_becomes ?a c s"
  let ?p = "ps_panel s"
  have ok: "parts_ok calm s" using g by (simp add: good_def)
  have cok: "content_ok ?p c" by (rule parts_okD(3) [OF ok c(1)])
  obtain new where n: "panel_calls ?a = panel_calls (ct_area c) @ new" "hook_reach useDeleteAttachment (del_hook ?a)"
    and new: "new = [] \<and> (delete_pending ?a \<longrightarrow> delete_pending (ct_area c)) \<or> new = [PDeletingChange True] \<or>
        \<not> delete_pending ?a \<and> (new = [PDeletingChange False] \<or> new = [PDeletingChange False, PDeleteAborted])"
    using area_acts_tell [OF _ can] cok by (auto simp: content_ok_def)
  let ?q = "panel_hears_all new ?p"
  have t: "?t = s\<lparr>ps_content := Some (c\<lparr>ct_area := ?a\<rparr>), ps_panel := ?q\<rparr>" by (simp add: area_becomes_def n(1))
  have q: "panelFiles ?q = panelFiles ?p" "internalIsUploading ?q = internalIsUploading ?p"
    "delete_pending ?a \<longrightarrow> internalIsDeleting ?q"
    using new cok by (auto simp: content_ok_def)
  have "content_ok ?q (c\<lparr>ct_area := ?a\<rparr>)" using cok q n(2) by (auto simp: content_ok_def)
  then have "parts_ok calm ?t"
    unfolding t using hears_reach [OF parts_okD(1) [OF ok]] parts_okD(2) [OF ok] panel_files_hears [OF q(1)]
    by (simp add: parts_ok_def)
  moreover have "\<not> adds_files (ct_variant c)" using c(2) by (simp add: adds_files_def)
  then have "synced ?t" unfolding t by (auto simp: synced_def files_shown_def)
  ultimately show ?thesis using refit_ok by (auto simp: good_def)
qed

lemma good_uploader_event:
  assumes g: "good calm s" and c: "ps_content s = Some c" "ct_uploader c = Some u"
    and can: "uploader_can (uploader_of (ps_props s) (ct_variant c)) e u"
  shows "good calm (refit (uploader_becomes (uploader_acts (uploader_of (ps_props s) (ct_variant c)) e u) c s))"
proof -
  let ?pr = "uploader_of (ps_props s) (ct_variant c)"
  let ?u = "uploader_acts ?pr e u"
  let ?t = "uploader_becomes ?u c s"
  have ok: "parts_ok calm s" and fit: "fitted s" using g by (auto simp: good_def)
  have cok: "content_ok (ps_panel s) c" by (rule parts_okD(3) [OF ok c(1)])
  then have v: "ct_variant c \<noteq> NothingShown" and u: "uploads_ok ?pr u" and b: "busy u \<longrightarrow> internalIsUploading (ps_panel s)"
    using c(2) by (auto simp: content_ok_def)
  have "pr_mode ?pr = (if adds_files (ct_variant c) then AddMode else EditMode)" using v by simp
  from tells_acts [OF u this can] obtain new where "calls_made ?u = calls_made u @ new"
      "heard_well (ct_variant c) (pendingFiles u) (busy u) new ?u"
    by (auto simp: tells_def)
  then have h: "heard_well (ct_variant c) (pendingFiles u) (busy u) (news c ?u) ?u"
    using c(2) by (simp add: news_def calls_before_def)
  have u': "uploads_ok ?pr ?u" by (rule uploads_ok_step [OF acts_step [OF can] u])
  note t = uploader_becomes_ok [OF ok c(1) v u' h b]
  have "files_shown (ps_panel s) c" using fit c(1) by (auto simp: fitted_def)
  then have "adds_files (ct_variant c) \<longrightarrow> panelFiles (ps_panel ?t) = pendingFiles ?u"
    using t(2) c(2) by (auto simp: files_shown_def)
  moreover have "ps_content ?t = Some d \<Longrightarrow> ct_variant d = ct_variant c \<and> ct_uploader d = Some ?u" for d
    by (auto simp: uploader_becomes_eq)
  ultimately have "synced ?t" by (simp add: synced_def files_shown_def)
  with t(1) show ?thesis using refit_ok by (auto simp: good_def)
qed

text \<open>What an event of the form gives: a question about the period, a save, or nothing.\<close>

definition offered_callback :: "panel_props \<Rightarrow> panel \<Rightarrow> panel_callback \<Rightarrow> bool" where
  "offered_callback pr p cb \<longleftrightarrow>
     cb = PanelSubmit (pp_mode pr) (panelFiles p) \<or> pp_mode pr = AddMode \<and> cb = PanelSaveAndContinue (panelFiles p)"

lemma offers_enabled:
  assumes "form_offers s c e" "e = EFormSubmit \<or> e = ESaveAndContinue"
  shows "\<not> isSaveDisabled (ps_props s) (ps_panel s)" "formMode (ps_props s) \<noteq> ViewMode" "undisturbed s c"
  using assms unfolding form_offers_def clickable_item_form_buttons
  by (auto simp: form_props_of_def panel_form_props_def saveDisabled_def split: if_splits)

lemma form_event_cases:
  assumes w: "warning_inv (ct_form c)" and o: "form_offers s c e"
  obtains (no_call) f where "form_event_step e (form_props_of s) (ct_form c) = ([], f)" "pendingSubmitCallback f = None"
  | (asks) f cb v where "form_event_step e (form_props_of s) (ct_form c) = ([], f)" "pendingSubmitCallback f = Some (cb, v)"
      "offered_callback (ps_props s) (ps_panel s) cb" "e = EFormSubmit \<or> e = ESaveAndContinue" "item_valid v"
  | (runs_offered) f cb v where "form_event_step e (form_props_of s) (ct_form c) = ([(cb, v)], f)" "pendingSubmitCallback f = None"
      "offered_callback (ps_props s) (ps_panel s) cb" "e = EFormSubmit \<or> e = ESaveAndContinue" "item_valid v"
  | (runs_pending) f cb v where "form_event_step e (form_props_of s) (ct_form c) = ([(cb, v)], f)" "pendingSubmitCallback f = None"
      "pendingSubmitCallback (ct_form c) = Some (cb, v)" "e = EWarn EConfirm" "item_valid v"
proof -
  let ?p = "form_props_of s"
  have none: "pendingSubmitCallback (ct_form c) = None" if "\<not> (\<exists>d. e = EWarn d)"
    using o that w by (cases e) (auto simp: form_offers_def undisturbed_def dialogs_closed_def warning_inv_def split: option.splits)
  have props: "fp_onSubmit ?p = PanelSubmit (pp_mode (ps_props s)) (panelFiles (ps_panel s))"
    "fp_onSaveAndContinue ?p = (if pp_mode (ps_props s) = AddMode then Some (PanelSaveAndContinue (panelFiles (ps_panel s))) else None)"
    by (simp_all add: form_props_of_def panel_form_props_def)
  have sub: thesis
    if "form_event_step e ?p (ct_form c) = form_handleSubmit (\<lambda>data t. case cb of Some x \<Rightarrow> executeSaveWithPeriodCheck ?p data x t | None \<Rightarrow> ([], t)) (ct_form c)"
      "\<And>x. cb = Some x \<Longrightarrow> offered_callback (ps_props s) (ps_panel s) x" "e = EFormSubmit \<or> e = ESaveAndContinue" for cb
  proof -
    have n: "pendingSubmitCallback (ct_form c) = None" using none that(3) by auto
    show thesis
    proof (cases cb)
      case None
      let ?f = "(ct_form c)\<lparr>form_errors := itemFormSchema (form_values (ct_form c))\<rparr>"
      have "form_event_step e ?p (ct_form c) = ([], ?f)" using that(1) None by (simp add: form_handleSubmit_def Let_def)
      moreover have "pendingSubmitCallback ?f = None" using n by simp
      ultimately show thesis by (rule no_call)
    next
      case (Some x)
      let ?v = "form_values (ct_form c)"
      let ?f = "(ct_form c)\<lparr>form_errors := itemFormSchema ?v\<rparr>"
      have st: "form_event_step e ?p (ct_form c) = (if item_valid ?v then executeSaveWithPeriodCheck ?p ?v x ?f else ([], ?f))"
        using that(1) Some by (simp add: form_handleSubmit_def Let_def)
      have x: "offered_callback (ps_props s) (ps_panel s) x" using that(2) Some .
      consider "\<not> item_valid ?v" | "item_valid ?v" "isOutsidePeriod ?p (iv_expenseDate ?v)"
        | "item_valid ?v" "\<not> isOutsidePeriod ?p (iv_expenseDate ?v)" by blast
      then show thesis
      proof cases
        case 1
        then have "form_event_step e ?p (ct_form c) = ([], ?f)" using st by simp
        moreover have "pendingSubmitCallback ?f = None" using n by simp
        ultimately show thesis by (rule no_call)
      next
        case 2
        let ?g = "?f\<lparr>pendingSubmitCallback := Some (x, ?v), periodWarningDialogOpen := True\<rparr>"
        have "form_event_step e ?p (ct_form c) = ([], ?g)" using st 2 by (simp add: executeSaveWithPeriodCheck_def)
        moreover have "pendingSubmitCallback ?g = Some (x, ?v)" by simp
        ultimately show thesis using x that(3) 2(1) by (rule asks)
      next
        case 3
        then have "form_event_step e ?p (ct_form c) = ([(x, ?v)], ?f)" using st by (simp add: executeSaveWithPeriodCheck_def)
        moreover have "pendingSubmitCallback ?f = None" using n by simp
        ultimately show thesis using x that(3) 3(1) by (rule runs_offered)
      qed
    qed
  qed
  show thesis
  proof (cases e)
    case EFormSubmit
    show thesis by (rule sub [of "Some (fp_onSubmit ?p)"])
        (simp_all add: EFormSubmit form_event_step_def handleFormSubmit_def props offered_callback_def)
  next
    case ESaveAndContinue
    show thesis by (rule sub [of "fp_onSaveAndContinue ?p"])
        (auto simp: ESaveAndContinue form_event_step_def form_handleSaveAndContinue_def props offered_callback_def
          cong: option.case_cong split: if_splits)
  next
    case (EWarn d)
    show thesis
    proof (cases d)
      case EConfirm
      show thesis
      proof (cases "pendingSubmitCallback (ct_form c)")
        case None
        let ?g = "(ct_form c)\<lparr>periodWarningDialogOpen := False\<rparr>"
        have "form_event_step e ?p (ct_form c) = ([], ?g)" using None EWarn EConfirm
          by (simp add: form_event_step_def handlePeriodWarningConfirm_def Let_def)
        moreover have "pendingSubmitCallback ?g = None" using None by simp
        ultimately show thesis by (rule no_call)
      next
        case (Some y)
        obtain cb v where y: "y = (cb, v)" by (cases y)
        have "item_valid v" using w Some y by (simp add: warning_inv_def)
        let ?g = "(ct_form c)\<lparr>periodWarningDialogOpen := False, pendingSubmitCallback := None\<rparr>"
        have "form_event_step e ?p (ct_form c) = ([(cb, v)], ?g)" using Some y EWarn EConfirm
          by (simp add: form_event_step_def handlePeriodWarningConfirm_def Let_def)
        moreover have "pendingSubmitCallback ?g = None" by simp
        moreover have "pendingSubmitCallback (ct_form c) = Some (cb, v)" "e = EWarn EConfirm"
          using Some y EWarn EConfirm by simp_all
        ultimately show thesis using \<open>item_valid v\<close> by (rule runs_pending)
      qed
    next
      case EClose
      let ?g = "handlePeriodWarningCancel (ct_form c)"
      have "form_event_step e ?p (ct_form c) = ([], ?g)" using EWarn EClose by (simp add: form_event_step_def)
      moreover have "pendingSubmitCallback ?g = None" by (simp add: handlePeriodWarningCancel_def)
      ultimately show thesis by (rule no_call)
    qed (use EWarn o in \<open>simp_all add: form_offers_def\<close>)
  qed (rule no_call [of "ct_form c"], use none in \<open>simp_all add: form_event_step_def\<close>)+
qed

lemma offered_files: "offered_callback pr p cb \<Longrightarrow> callback_files cb = set (panelFiles p)"
  by (auto simp: offered_callback_def)

lemma callback_no_cancel: "\<not> cancels (drop (length (outs p)) (outs (panel_callback_runs pr (cb, data) p)))"
  by (cases cb) (auto simp: cancels_def emit_def handleAddModeSubmit_def Let_def split: option.split)

lemma good_form_event:
  assumes g: "good calm s" and c: "ps_content s = Some c" and o: "form_offers s c e" and st: "content_started c"
    and ca: "calm \<longrightarrow> saves (SForm e) \<longrightarrow> runs (ps_panel s) = []"
  shows "good calm (form_acts e c s)"
proof -
  have ok: "parts_ok calm s" and fit: "fitted s" using g by (auto simp: good_def)
  have cok: "content_ok (ps_panel s) c" by (rule parts_okD(3) [OF ok c])
  have r: "panel_reach calm (ps_panel s)" by (rule parts_okD(1) [OF ok])
  have as: "all_started s" using c st by (simp add: all_started_def)
  show ?thesis
  proof (cases "e = EFormCancel")
    case True
    then show ?thesis using g as close_attempt [OF r]
      by (simp add: form_acts_def good_panel_op moves_close may_start_close)
  next
    case False
    have w: "warning_inv (ct_form c)" using cok form_reach_inv by (auto simp: content_ok_def)
    have new_form: "parts_ok calm (s\<lparr>ps_content := Some (c\<lparr>ct_form := f\<rparr>)\<rparr>) \<and> fitted (s\<lparr>ps_content := Some (c\<lparr>ct_form := f\<rparr>)\<rparr>)"
      if "form_reach f" "\<And>cb v. pendingSubmitCallback f = Some (cb, v) \<Longrightarrow> may_start (ps_panel s) \<and> valid_files (callback_files cb)" for f
      using ok fit cok c that by (auto simp: parts_ok_def fitted_def content_ok_def files_shown_def)
    have fr: "form_reach (snd (form_event_step e (form_props_of s) (ct_form c)))"
      using cok by (auto simp: content_ok_def intro: form_event)
    have held: "valid_files (callback_files cb)" if "offered_callback (ps_props s) (ps_panel s) cb" for cb
      using parts_okD(2) [OF ok] offered_files [OF that] by (auto simp: panel_files_def valid_files_def)
    have enabled: "may_start (ps_panel s)" if "e = EFormSubmit \<or> e = ESaveAndContinue"
      using enabled_may_start offers_enabled(1) [OF o that] by blast
    have run: "good calm (panel_does (panel_callback_runs (ps_props s) (cb, v)) (s\<lparr>ps_content := Some (c\<lparr>ct_form := f\<rparr>)\<rparr>))"
      if "form_reach f" "pendingSubmitCallback f = None" "may_start (ps_panel s)" "valid_files (callback_files cb)"
        "calm \<longrightarrow> runs (ps_panel s) = []" for f cb v
    proof -
      let ?s = "s\<lparr>ps_content := Some (c\<lparr>ct_form := f\<rparr>)\<rparr>"
      have s: "parts_ok calm ?s" "fitted ?s" using new_form [OF that(1)] that(2) by auto
      have "panel_reach calm (panel_callback_runs (ps_props s) (cb, v) (ps_panel ?s))"
        using save [OF r that(3,5)] by simp
      from panel_does_ok [where f = "panel_callback_runs (ps_props s) (cb, v)", OF s this moves_callback that(4)]
      show ?thesis using callback_no_cancel that(2) by (simp add: good_def)
    qed
    from w o show ?thesis
    proof (cases rule: form_event_cases)
      case (no_call f)
      then show ?thesis using new_form [of f] fr False by (simp add: form_acts_def good_def)
    next
      case (asks f cb v)
      then show ?thesis using new_form [of f] fr False held enabled by (simp add: form_acts_def good_def)
    next
      case (runs_offered f cb v)
      have "calm \<longrightarrow> runs (ps_panel s) = []" using ca runs_offered(4) by auto
      with runs_offered show ?thesis using run [of f cb v] fr False held enabled by (simp add: form_acts_def)
    next
      case (runs_pending f cb v)
      have "calm \<longrightarrow> runs (ps_panel s) = []" using ca runs_pending(4) by auto
      moreover have "may_start (ps_panel s)" "valid_files (callback_files cb)"
        using cok runs_pending(3) by (auto simp: content_ok_def)
      ultimately show ?thesis using runs_pending run [of f cb v] fr False by (simp add: form_acts_def)
    qed
  qed
qed

lemma good_mounted: "good calm (mounted_psys pr)"
proof -
  let ?s = "\<lparr>ps_props = pr, ps_panel = mounted_panel, ps_content = None\<rparr>"
  have s: "parts_ok calm ?s" "fitted ?s"
    using panel_mounted [of calm]
    by (simp_all add: parts_ok_def fitted_def, simp_all add: panel_files_def mounted_panel_def valid_files_def)
  have "\<not> cancels (drop (length (outs u)) (outs (open_effect pr u)))" for u
    by (simp add: open_effect_def resetDirtyState_def emit_def Let_def cancels_def)
  then have "good calm (panel_does (open_effect pr) ?s)"
    using s opened_or_closed [OF panel_mounted]
    by (intro good_panel_op) (auto simp: good_def moves_quiet may_start_quiet)
  then show ?thesis using mount_content_ok [OF s(1)] by (simp add: mounted_psys_def Let_def good_def)
qed

lemma quiet_no_cancel:
  "\<not> cancels (drop (length (outs p)) (outs (form_dirty_changes b p)))"
  "\<not> cancels (drop (length (outs p)) (outs (close_panel_toast k p)))"
  "\<not> cancels (drop (length (outs p)) (outs (handleDiscardCancel p)))"
  by (cases k; simp add: form_dirty_changes_def close_panel_toast_def handleDiscardCancel_def cancels_def)+

lemma good_new_form:
  assumes "good calm s" "ps_content s = Some c" "form_reach f" "pendingSubmitCallback f = pendingSubmitCallback (ct_form c)"
  shows "good calm (s\<lparr>ps_content := Some (c\<lparr>ct_form := f\<rparr>)\<rparr>)"
  using assms by (auto simp: good_def parts_ok_def fitted_def content_ok_def files_shown_def)

lemma good_step:
  assumes "psys_step differs calm s t" "good calm s"
  shows "good calm t"
proof -
  from assms(1) obtain e where can: "psys_can e s" and ca: "calm \<longrightarrow> saves e \<longrightarrow> runs (ps_panel s) = []"
    and t: "t = psys_does differs e s"
    by (auto simp: psys_step_def)
  have ok: "parts_ok calm s" using assms(2) by (simp add: good_def)
  note r = parts_okD(1) [OF ok]
  have op: "good calm (panel_does f s)"
    if "panel_moves False {} (ps_panel s) (f (ps_panel s))" "panel_reach calm (f (ps_panel s))"
      "may_start (ps_panel s) \<Longrightarrow> may_start (f (ps_panel s))" "all_started s \<or> \<not> cancels (drop (length (outs (ps_panel s))) (outs (f (ps_panel s))))" for f
    using good_panel_op [OF assms(2)] that by blast
  have st: "all_started s" if "e = SClose \<or> (\<exists>d. e = SDiscard d) \<or> (\<exists>k res. e = SCreated k res) \<or> (\<exists>k res. e = SSent k res)"
    using can that by (auto simp: all_started_def psys_can_def split: option.splits)
  show ?thesis
  proof (cases "ps_content s")
    case None
    then show ?thesis
    proof (cases e)
      case (SRender pr) then show ?thesis using t good_render [OF assms(2)] by (simp add: psys_does_def)
    next
      case (SDiscard d)
      then show ?thesis using t st can None discarded [OF r] kept_open [OF r] assms(2)
        by (cases d) (auto simp: psys_does_def psys_can_def intro!: op moves_close moves_quiet may_start_close may_start_quiet)
    next
      case (SCreated k res)
      then show ?thesis using t st creation [OF r] may_start_settles [OF r]
        by (auto simp: psys_does_def intro!: op moves_create_settles)
    next
      case (SSent k res)
      then show ?thesis using t st upload [OF r] may_start_settles [OF r]
        by (auto simp: psys_does_def intro!: op moves_upload_settles)
    next
      case (SToastClosed k)
      then show ?thesis using t toasts_close [OF r] quiet_no_cancel
        by (auto simp: psys_does_def intro!: op moves_quiet may_start_quiet)
    qed (use can None in \<open>simp_all add: psys_can_def\<close>)
  next
    case (Some c)
    have cok: "content_ok (ps_panel s) c" by (rule parts_okD(3) [OF ok Some])
    show ?thesis
    proof (cases e)
      case (SRender pr) then show ?thesis using t good_render [OF assms(2)] by (simp add: psys_does_def)
    next
      case SExited then show ?thesis using t content_gone_ok [OF ok] by (simp add: psys_does_def good_def)
    next
      case (SForm ev)
      then have "form_offers s c ev" "content_started c" using can Some by (simp_all add: psys_can_def)
      then show ?thesis using t SForm Some good_form_event [OF assms(2) Some] ca by (simp add: psys_does_def)
    next
      case (STyped v)
      have "form_reach (form_change v (ct_form c))" using cok by (auto simp: content_ok_def intro: form_changed)
      then show ?thesis using t STyped Some good_new_form [OF assms(2) Some] by (simp add: psys_does_def form_change_def)
    next
      case SNotified
      obtain b f where n: "notify_dirty differs (ct_form c) = (b, f)" by (cases "notify_dirty differs (ct_form c)")
      have "form_reach (snd (notify_dirty differs (ct_form c)))" using cok by (auto simp: content_ok_def intro: form_notified)
      moreover have "pendingSubmitCallback f = pendingSubmitCallback (ct_form c)"
        using n by (auto simp: notify_dirty_def Let_def split: if_splits)
      ultimately have g: "good calm (s\<lparr>ps_content := Some (c\<lparr>ct_form := f\<rparr>)\<rparr>)"
        using good_new_form [OF assms(2) Some] n by simp
      have "good calm (panel_does (form_dirty_changes d) (s\<lparr>ps_content := Some (c\<lparr>ct_form := f\<rparr>)\<rparr>))" for d
        using good_panel_op [OF g] dirty_changes [OF r] quiet_no_cancel by (simp add: moves_quiet may_start_quiet)
      then show ?thesis using t SNotified Some n g by (simp add: psys_does_def Let_def split: option.split)
    next
      case SClose
      then show ?thesis using t st close_attempt [OF r]
        by (auto simp: psys_does_def intro!: op moves_close may_start_close)
    next
      case (SDiscard d)
      then show ?thesis using t st can Some discarded [OF r] kept_open [OF r] assms(2)
        by (cases d) (auto simp: psys_does_def psys_can_def intro!: op moves_close moves_quiet may_start_close may_start_quiet)
    next
      case (SUploader a)
      then obtain u where "ct_uploader c = Some u" "uploader_can (uploader_of (ps_props s) (ct_variant c)) a u"
        using can Some by (auto simp: psys_can_def split: option.splits)
      then show ?thesis using t SUploader Some good_uploader_event [OF assms(2) Some] by (simp add: psys_does_def)
    next
      case (SArea a)
      then obtain i where "ct_variant c = ContentArea i" "area_can (area_of (ps_props s) i) a (ct_area c)"
        using can Some by (auto simp: psys_can_def split: area_variant.splits)
      then show ?thesis using t SArea Some good_area_event [OF assms(2) Some] by (simp add: psys_does_def)
    next
      case (SCreated k res)
      then show ?thesis using t st creation [OF r] may_start_settles [OF r]
        by (auto simp: psys_does_def intro!: op moves_create_settles)
    next
      case (SSent k res)
      then show ?thesis using t st upload [OF r] may_start_settles [OF r]
        by (auto simp: psys_does_def intro!: op moves_upload_settles)
    next
      case (SToastClosed k)
      then show ?thesis using t toasts_close [OF r] quiet_no_cancel
        by (auto simp: psys_does_def intro!: op moves_quiet may_start_quiet)
    qed
  qed
qed

interpretation py: invariant_system "\<lambda>s. \<exists>pr. s = mounted_psys pr" "psys_step differs calm" "good calm" for differs calm
  by unfold_locales (auto simp: good_mounted intro: good_step)

lemma psys_run_reach:
  "psys_reach differs calm s \<Longrightarrow> psys_run differs calm es s = Some t \<Longrightarrow> psys_reach differs calm t"
proof (induction es arbitrary: s)
  case (Cons e es)
  then have "psys_step differs calm s (psys_does differs e s)" by (auto simp: psys_step_def split: if_splits)
  with Cons show ?case by (auto intro: reach_step split: if_splits)
qed simp

lemma reach_content:
  assumes "psys_reach differs calm s" "ps_content s = Some c"
  shows "content_ok (ps_panel s) c"
    "ct_variant c = panel_area_variant (ps_props s) (ps_panel s)" "files_shown (ps_panel s) c"
    "ct_uploader c \<noteq> None \<longleftrightarrow> ct_variant c \<noteq> NothingShown \<and> canModify (ps_props s)"
  using py.invariant [OF assms(1)] assms(2) parts_okD(3) by (auto simp: good_def fitted_def)

subsection \<open>The parts run their own systems\<close>

definition area_own :: "area_variant \<Rightarrow> area \<Rightarrow> bool" where
  \<comment> \<open>a run of the area alone, its properties given anew with every step: its own steps, when it is the area of an
    item; what the upload control in it calls; errors of its rows; and closing its toast\<close>
  "area_own v = reach (\<lambda>a. a = mounted_area)
     (\<lambda>a b. (\<exists>pr. v = ContentArea (ar_itemId pr) \<and> area_step pr a b) \<or> (\<exists>x. b = area_hears v x a) \<or>
       (\<exists>m. b = showToast SevError m a) \<or> b = closeToast a)"

definition uploader_own :: "area_variant \<Rightarrow> uploader \<Rightarrow> bool" where
  \<comment> \<open>a run of the upload control alone, in an area of this kind, its properties given anew with every step\<close>
  "uploader_own v = reach (\<lambda>u. \<exists>pr. u = mounted_uploader (uploader_of pr v)) (\<lambda>u w. \<exists>pr. uploader_step (uploader_of pr v) u w)"

definition own_ok :: "psys \<Rightarrow> bool" where
  "own_ok s \<longleftrightarrow>
     (\<forall>c. ps_content s = Some c \<longrightarrow> area_own (ct_variant c) (ct_area c) \<and>
        (\<forall>u. ct_uploader c = Some u \<longrightarrow> uploader_own (ct_variant c) u))"

lemma area_own_mounted: "area_own v mounted_area"
  unfolding area_own_def by (rule reach.reach_init) simp

lemma area_own_step: "area_own (ContentArea i) a \<Longrightarrow> area_step pr a b \<Longrightarrow> ar_itemId pr = i \<Longrightarrow> area_own (ContentArea i) b"
  unfolding area_own_def by (erule reach.reach_step) blast

lemma area_own_others:
  assumes "area_own v a"
  shows "area_own v (area_hears v x a)" "area_own v (showToast SevError m a)" "area_own v (closeToast a)"
  using assms unfolding area_own_def by (blast intro: reach.reach_step)+

lemma area_own_hears_all: "area_own v a \<Longrightarrow> area_own v (foldl (\<lambda>a x. area_hears v x a) a xs)"
  by (induction xs arbitrary: a) (simp_all add: area_own_others(1))

lemma area_own_acts:
  assumes "area_own (ContentArea i) a" "area_can (area_of pr i) e a"
  shows "area_own (ContentArea i) (area_acts (area_of pr i) e a)"
proof -
  note step = area_own_step [OF assms(1), where pr = "area_of pr i"]
  have i: "ar_itemId (area_of pr i) = i" by (simp add: area_of_def)
  show ?thesis
    using assms(2) area_own_others(2,3) [OF assms(1)]
    by (cases e) (auto intro!: step [OF _ i] intro: area_step.intros)
qed

lemma uploader_own_mounted: "uploader_own v (mounted_uploader (uploader_of pr v))"
  unfolding uploader_own_def by (rule reach.reach_init) blast

lemma uploader_own_step: "uploader_own v u \<Longrightarrow> uploader_step (uploader_of pr v) u w \<Longrightarrow> uploader_own v w"
  unfolding uploader_own_def by (erule reach.reach_step) blast

lemma own_becomes:
  assumes "area_own (ct_variant c) (ct_area c)" "uploader_own (ct_variant c) u"
  shows "own_ok (uploader_becomes u c s)"
  using assms by (simp add: own_ok_def uploader_becomes_eq area_own_hears_all)

lemma own_area_becomes:
  "area_own (ct_variant c) a \<Longrightarrow> \<forall>u. ct_uploader c = Some u \<longrightarrow> uploader_own (ct_variant c) u \<Longrightarrow> own_ok (area_becomes a c s)"
  by (simp add: own_ok_def area_becomes_def)

lemma own_drop: "own_ok s \<Longrightarrow> own_ok (drop_uploader s)"
  by (auto simp: own_ok_def drop_uploader_def uploader_becomes_eq Let_def area_own_hears_all split: option.split)

lemma own_fit: "own_ok s \<Longrightarrow> own_ok (fit_uploader s)"
  by (auto simp: fit_uploader_def own_drop split: option.split intro!: own_becomes uploader_own_mounted)
    (simp_all add: own_ok_def)

lemma own_refit: "own_ok s \<Longrightarrow> own_ok (refit s)"
proof -
  have "own_ok (place_area v t)" for v t by (auto simp: own_ok_def place_area_def area_own_mounted)
  then show "own_ok s \<Longrightarrow> own_ok (refit s)" by (auto simp: refit_def Let_def own_fit split: option.split)
qed

lemma own_mount: "own_ok (mount_content s)"
  unfolding mount_content_def Let_def by (rule own_fit) (simp add: own_ok_def area_own_mounted)

lemma own_child_hears:
  assumes "own_ok s" "cancels [x] \<longrightarrow> all_started s"
  shows "own_ok (child_hears x s)"
proof (cases "ps_content s")
  case (Some c)
  have o: "area_own (ct_variant c) (ct_area c)" "\<And>u. ct_uploader c = Some u \<Longrightarrow> uploader_own (ct_variant c) u"
    using assms(1) Some by (auto simp: own_ok_def)
  have st: "content_started c" if "x = OCancelUpload \<or> x = OCancelDelete"
    using assms(2) Some that by (auto simp: cancels_def all_started_def)
  show ?thesis
  proof (cases x)
    case OCancelUpload
    have "uploader_own (ct_variant c) (u\<lparr>up_hook := upload_step Cancel (up_hook u)\<rparr>)" if "ct_uploader c = Some u" for u
      using st OCancelUpload that by (intro uploader_own_step [OF o(2) [OF that]] cancelled) (simp add: content_started_def)
    then show ?thesis using assms(1) o Some OCancelUpload
      by (auto simp: own_ok_def child_calls split: area_variant.split option.split)
  next
    case OCancelDelete
    have "area_own (ct_variant c) ((ct_area c)\<lparr>del_hook := delete_step Cancel (del_hook (ct_area c))\<rparr>)"
      if "ct_variant c = ContentArea i" for i
    proof -
      have q: "queued (del_hook (ct_area c)) = []" using st OCancelDelete by (simp add: content_started_def)
      show ?thesis unfolding that
        by (rule area_own_step [OF o(1) [unfolded that] panel_cancels [OF q],
              of "\<lparr>ar_reportId = [], ar_itemId = i, ar_canModify = True\<rparr>"]) simp
    qed
    then show ?thesis using assms(1) o Some OCancelDelete
      by (auto simp: own_ok_def child_calls split: area_variant.split)
  qed (use assms(1) o Some in \<open>auto simp: own_ok_def child_calls\<close>)
qed (use assms(1) in \<open>simp add: child_calls\<close>)

lemma started_child_hears: "all_started s \<Longrightarrow> all_started (child_hears x s)"
  by (cases x) (auto simp: child_calls all_started_def content_started_def hook_idle_steps delete_hook_effects
      split: option.split area_variant.split)

lemma own_children:
  "own_ok s \<Longrightarrow> cancels xs \<longrightarrow> all_started s \<Longrightarrow> own_ok (foldl (\<lambda>t x. child_hears x t) s xs)"
proof (induction xs arbitrary: s)
  case (Cons x xs)
  have "cancels [x] \<longrightarrow> all_started s" "cancels xs \<longrightarrow> all_started (child_hears x s)"
    using Cons.prems(2) started_child_hears by (auto simp: cancels_def)
  then show ?case using Cons own_child_hears by simp
qed simp

lemma own_panel_does:
  assumes "own_ok s" "cancels (drop (length (outs (ps_panel s))) (outs (f (ps_panel s)))) \<longrightarrow> all_started s"
  shows "own_ok (panel_does f s)"
  unfolding panel_does_def Let_def
  by (intro own_refit own_children) (use assms in \<open>simp_all add: own_ok_def all_started_def\<close>)

lemma open_no_cancel: "\<not> cancels (drop (length (outs p)) (outs (open_effect pr p)))"
  by (simp add: open_effect_def resetDirtyState_def emit_def Let_def cancels_def)

lemma own_render: "own_ok s \<Longrightarrow> own_ok (parent_renders pr s)"
proof -
  assume "own_ok s"
  then have "own_ok (s\<lparr>ps_props := pr\<rparr>)" by (simp add: own_ok_def)
  then show ?thesis
    by (auto simp: parent_renders_def Let_def own_mount own_refit open_no_cancel intro!: own_panel_does)
qed

lemma own_mounted: "own_ok (mounted_psys pr)"
  by (auto simp: mounted_psys_def Let_def own_mount open_no_cancel intro!: own_panel_does) (simp add: own_ok_def)

lemma own_callbacks:
  "own_ok s \<Longrightarrow> own_ok (foldl (\<lambda>t x. panel_does (panel_callback_runs (ps_props t) x) t) s xs)"
proof (induction xs arbitrary: s)
  case (Cons x xs)
  have "own_ok (panel_does (panel_callback_runs (ps_props s) x) s)"
    using callback_no_cancel by (cases x) (intro own_panel_does [OF Cons.prems], blast)
  then show ?case using Cons.IH by simp
qed simp

lemma own_same_children:
  "own_ok s \<Longrightarrow> ps_content s = Some c \<Longrightarrow> own_ok (s\<lparr>ps_content := Some (c\<lparr>ct_form := f\<rparr>)\<rparr>)"
  by (simp add: own_ok_def)

lemma own_step:
  assumes "psys_step differs calm s t" "own_ok s"
  shows "own_ok t"
proof -
  from assms(1) obtain e where can: "psys_can e s" and t: "t = psys_does differs e s" by (auto simp: psys_step_def)
  have st: "all_started s"
    if "e = SClose \<or> (\<exists>d. e = SDiscard d) \<or> (\<exists>k res. e = SCreated k res) \<or> (\<exists>k res. e = SSent k res) \<or> e = SForm EFormCancel"
    using can that by (auto simp: all_started_def psys_can_def split: option.splits)
  note op = own_panel_does [OF assms(2)]
  have gone: "own_ok (content_gone s)" by (simp add: own_ok_def content_gone_def)
  show ?thesis
  proof (cases "ps_content s")
    case None
    then show ?thesis
      using t st own_render [OF assms(2)] assms(2) gone quiet_no_cancel
      by (cases e) (auto simp: psys_does_def intro!: op split: dialog_event.split)
  next
    case (Some c)
    have o: "area_own (ct_variant c) (ct_area c)" "\<And>u. ct_uploader c = Some u \<Longrightarrow> uploader_own (ct_variant c) u"
      using assms(2) Some by (auto simp: own_ok_def)
    note keep = own_same_children [OF assms(2) Some]
    show ?thesis
    proof (cases e)
      case (SForm ev)
      show ?thesis
      proof (cases "ev = EFormCancel")
        case True
        then show ?thesis using t st Some SForm by (simp add: psys_does_def form_acts_def op)
      next
        case False
        then show ?thesis using t Some SForm own_callbacks [OF keep]
          by (simp add: psys_does_def form_acts_def split: prod.split)
      qed
    next
      case SNotified
      have "own_ok (panel_does (form_dirty_changes d) (s\<lparr>ps_content := Some (c\<lparr>ct_form := f\<rparr>)\<rparr>))" for d f
        using quiet_no_cancel by (intro own_panel_does [OF keep]) blast
      then show ?thesis using t Some SNotified keep by (simp add: psys_does_def Let_def split: prod.split option.split)
    next
      case (SUploader a)
      then obtain u where u: "ct_uploader c = Some u" "uploader_can (uploader_of (ps_props s) (ct_variant c)) a u"
        using can Some by (auto simp: psys_can_def split: option.splits)
      have "uploader_own (ct_variant c) (uploader_acts (uploader_of (ps_props s) (ct_variant c)) a u)"
        by (rule uploader_own_step [OF o(2) [OF u(1)] acts_step [OF u(2)]])
      then show ?thesis using t Some SUploader u(1) o by (simp add: psys_does_def own_refit own_becomes)
    next
      case (SArea a)
      then obtain i where i: "ct_variant c = ContentArea i" "area_can (area_of (ps_props s) i) a (ct_area c)"
        using can Some by (auto simp: psys_can_def split: area_variant.splits)
      have "area_own (ct_variant c) (area_acts (area_of (ps_props s) i) a (ct_area c))"
        using area_own_acts [OF o(1) [unfolded i(1)] i(2)] i(1) by simp
      then show ?thesis using t Some SArea i(1) o by (simp add: psys_does_def own_refit own_area_becomes)
    qed (use t Some st own_render [OF assms(2)] assms(2) gone keep quiet_no_cancel in
        \<open>auto simp: psys_does_def intro!: op split: dialog_event.split\<close>)
  qed
qed

interpretation oy: invariant_system "\<lambda>s. \<exists>pr. s = mounted_psys pr" "psys_step differs calm" own_ok for differs calm
  by unfold_locales (auto intro: own_mounted own_step)

subsection \<open>Consequences for one event\<close>

lemma hears_twice: "panel_hears_all xs (panel_hears_all ys p) = panel_hears_all (ys @ xs) p"
  by (simp add: panel_hears_all_def)

definition no_files :: "panel_call list \<Rightarrow> bool" where
  "no_files xs \<longleftrightarrow> (\<forall>fs. PPendingFilesChange fs \<in> set xs \<longrightarrow> fs = [])"

lemma no_files_simps [simp]:
  "no_files []" "no_files (xs @ ys) \<longleftrightarrow> no_files xs \<and> no_files ys" "silent_calls xs \<Longrightarrow> no_files xs"
  by (auto simp: no_files_def silent_calls_def)

definition hears_some :: "psys \<Rightarrow> psys \<Rightarrow> bool" where
  "hears_some s t \<longleftrightarrow> (\<exists>xs. ps_panel t = panel_hears_all xs (ps_panel s)) \<and> ps_props t = ps_props s"

definition hears_clean :: "psys \<Rightarrow> psys \<Rightarrow> bool" where
  \<comment> \<open>a commit tells the panel nothing about files, but that there are none\<close>
  "hears_clean s t \<longleftrightarrow>
     (\<exists>xs. no_files xs \<and> ps_panel t = panel_hears_all xs (ps_panel s)) \<and> ps_props t = ps_props s"

lemma hears_some_trans: "hears_some s t \<Longrightarrow> hears_some t u \<Longrightarrow> hears_some s u"
  unfolding hears_some_def using hears_twice by metis

lemma hears_some_becomes: "hears_some s (uploader_becomes u c s)"
  by (auto simp: hears_some_def uploader_becomes_eq)

lemma hears_clean_refl: "hears_clean s s"
  by (auto simp: hears_clean_def intro: exI [of _ "[]"])

lemma hears_clean_trans: "hears_clean s t \<Longrightarrow> hears_clean t u \<Longrightarrow> hears_clean s u"
  unfolding hears_clean_def using hears_twice no_files_simps(2) by metis

lemma hears_clean_mounted:
  assumes "ct_uploader c = None"
  shows "hears_clean s (uploader_becomes (mounted_uploader (uploader_of pr (ct_variant c))) c s)"
proof -
  let ?u = "mounted_uploader (uploader_of pr (ct_variant c))"
  have "no_files (told (ct_variant c) (calls_made ?u))"
    by (cases "adds_files (ct_variant c)") (simp_all add: mounted_uploader_def no_files_def)
  then show ?thesis using assms by (auto simp: hears_clean_def uploader_becomes_eq news_def calls_before_def)
qed

lemma hears_clean_drop: "hears_clean s (drop_uploader s)"
proof (cases "ps_content s")
  case (Some c)
  show ?thesis
    by (rule drop_uploader_cases [OF Some]) (simp add: hears_clean_def, metis no_files_simps(3))
qed (simp add: drop_uploader_def hears_clean_refl)

lemma hears_clean_fit: "hears_clean s (fit_uploader s)"
  using hears_clean_mounted hears_clean_drop hears_clean_refl by (simp add: fit_uploader_def split: option.split)

lemma hears_clean_refit: "hears_clean s (refit s)"
proof (cases "ps_content s")
  case (Some c)
  have "hears_clean s (place_area v (unmount_children s))" for v
    by (rule unmount_children_cases [OF Some])
      (simp add: hears_clean_def place_area_def, metis no_files_simps(3))
  then have "hears_clean s (fit_uploader (place_area v (unmount_children s)))" for v
    using hears_clean_fit hears_clean_trans by blast
  then show ?thesis using Some hears_clean_fit by (simp add: refit_def Let_def)
qed (simp add: refit_def hears_clean_refl)

lemma hears_some_refit: "hears_some s (refit s)"
  using hears_clean_refit by (auto simp: hears_some_def hears_clean_def)

lemma children_keep_panel: "ps_panel (foldl (\<lambda>t x. child_hears x t) s xs) = ps_panel s"
proof -
  have "ps_panel (child_hears x s) = ps_panel s" for x s
    by (auto simp: child_calls split: option.split panel_out.split area_variant.split)
  then show ?thesis by (induction xs arbitrary: s) simp_all
qed

lemma panel_does_panel: "\<exists>xs. no_files xs \<and> ps_panel (panel_does f s) = panel_hears_all xs (f (ps_panel s))"
  using hears_clean_refit [of "foldl (\<lambda>t x. child_hears x t) (s\<lparr>ps_panel := f (ps_panel s)\<rparr>)
      (drop (length (outs (ps_panel s))) (outs (f (ps_panel s))))"]
  by (simp add: panel_does_def Let_def hears_clean_def children_keep_panel)

text \<open>
  A panel that its parent closes forgets the changes and the pending files, so the browser does not ask any
  more before the page is left.
\<close>

lemma clean_panel_hears:
  assumes "no_files xs"
  shows "isFormDirty (panel_hears_all xs p) = isFormDirty p \<and> (panelFiles p = [] \<longrightarrow> panelFiles (panel_hears_all xs p) = [])"
  using assms
proof (induction xs arbitrary: p)
  case (Cons x xs)
  then have "no_files xs" "\<And>fs. x = PPendingFilesChange fs \<Longrightarrow> fs = []" by (auto simp: no_files_def)
  with Cons.IH [of "panel_hears x p"] show ?case by (cases x) auto
qed simp

lemma closing_releases_page:
  assumes "pp_open (ps_props s)" "\<not> pp_open pr"
  shows "\<not> leaving_is_held (parent_renders pr s)"
proof -
  let ?s = "refit (s\<lparr>ps_props := pr\<rparr>)"
  have r: "parent_renders pr s = panel_does (open_effect pr) ?s" using assms by (simp add: parent_renders_def Let_def)
  obtain xs where xs: "no_files xs" "ps_panel (panel_does (open_effect pr) ?s) = panel_hears_all xs (open_effect pr (ps_panel ?s))"
    using panel_does_panel by blast
  have "\<not> isFormDirty (open_effect pr (ps_panel ?s))" "panelFiles (open_effect pr (ps_panel ?s)) = []"
    using assms(2) by (simp_all add: open_effect_def resetDirtyState_def emit_def)
  then show ?thesis using clean_panel_hears [OF xs(1)] by (simp add: r leaving_is_held_def isDirty_def xs(2))
qed

lemma panel_does_log [simp]:
  "outs (ps_panel (panel_does f s)) = outs (f (ps_panel s))" "runs (ps_panel (panel_does f s)) = runs (f (ps_panel s))"
  "creating (ps_panel (panel_does f s)) = creating (f (ps_panel s))"
  using panel_does_panel [of f s] by auto

lemma refit_same_variant:
  assumes "ps_content s = Some c" "ct_variant c = panel_area_variant (ps_props s) (ps_panel s)" "ct_uploader c = Some u"
    "ct_variant c \<noteq> NothingShown" "canModify (ps_props s)"
  shows "refit s = s"
  using assms by (simp add: refit_def fit_uploader_def)

text \<open>
  What the calls to the children do to an item's area: both cancels reach the hooks.
\<close>

lemma cancel_reaches_item:
  assumes "ps_content s = Some c" "ct_variant c = ContentArea i" "ct_uploader c = Some u"
  shows "ps_content (child_hears OCancelDelete (child_hears OCancelUpload s)) =
     Some (c\<lparr>ct_uploader := Some (u\<lparr>up_hook := upload_step Cancel (up_hook u)\<rparr>),
       ct_area := (ct_area c)\<lparr>del_hook := delete_step Cancel (del_hook (ct_area c))\<rparr>\<rparr>)"
    and "ps_props (child_hears OCancelDelete (child_hears OCancelUpload s)) = ps_props s"
  using assms by (simp_all add: child_calls)

lemma cancel_aborts:
  assumes "hook_reach m h" "queued h = []" "(k, p, sig) \<in> set (in_flight h)"
  shows "\<exists>c. sig = Some c \<and> c \<in> set (aborted (hook_cancel h))"
  using hook_reach_inv [OF assms(1)]
  by (cases rule: hook_inv_cases) (use assms(2,3) in \<open>auto simp: hook_cancel_def\<close>)

lemma cancels_reach_children:
  assumes ok: "good calm s" and c: "ps_content s = Some c" "ct_variant c = ContentArea i" "ct_uploader c = Some u"
    and f: "drop (length (outs (ps_panel s))) (outs (f (ps_panel s))) = [OCancelUpload, OCancelDelete] @ rest"
      "set rest \<subseteq> {OFormReset, OClose}"
    and v: "panel_area_variant (ps_props s) (f (ps_panel s)) = ContentArea i"
  shows "\<exists>g. ps_content (panel_does f s) = Some (c\<lparr>ct_form := g,
      ct_uploader := Some (u\<lparr>up_hook := upload_step Cancel (up_hook u)\<rparr>),
      ct_area := (ct_area c)\<lparr>del_hook := delete_step Cancel (del_hook (ct_area c))\<rparr>\<rparr>)"
proof -
  let ?s = "s\<lparr>ps_panel := f (ps_panel s)\<rparr>"
  let ?d = "\<lambda>g. c\<lparr>ct_form := g, ct_uploader := Some (u\<lparr>up_hook := upload_step Cancel (up_hook u)\<rparr>),
      ct_area := (ct_area c)\<lparr>del_hook := delete_step Cancel (del_hook (ct_area c))\<rparr>\<rparr>"
  let ?k = "child_hears OCancelDelete (child_hears OCancelUpload ?s)"
  have k: "ps_content ?k = Some (?d (ct_form c))" "ps_props ?k = ps_props s"
    using cancel_reaches_item [of ?s c i u] c by simp_all
  have r: "\<exists>g. ps_content (foldl (\<lambda>t x. child_hears x t) t xs) = Some (?d g)"
    if "set xs \<subseteq> {OFormReset, OClose}" "\<exists>g. ps_content t = Some (?d g)" for xs and t :: psys
    using that
  proof (induction xs arbitrary: t)
    case (Cons x xs)
    from Cons.prems(2) obtain g where "ps_content t = Some (?d g)" by blast
    moreover have "x = OFormReset \<or> x = OClose" using Cons.prems(1) by simp
    ultimately have "ps_content (child_hears x t) =
        Some (?d (if x = OFormReset then form_reset (form_props_of t) g else g))" by (auto simp: child_calls)
    moreover have "set xs \<subseteq> {OFormReset, OClose}" using Cons.prems(1) by simp
    ultimately show ?case using Cons.IH [of "child_hears x t"] by auto
  qed simp
  let ?t = "foldl (\<lambda>t x. child_hears x t) ?s ([OCancelUpload, OCancelDelete] @ rest)"
  have props: "ps_props (foldl (\<lambda>t x. child_hears x t) w xs) = ps_props w" for w xs
  proof -
    have "ps_props (child_hears x w) = ps_props w" for x w
      by (auto simp: child_calls split: option.split panel_out.split area_variant.split)
    then show ?thesis by (induction xs arbitrary: w) simp_all
  qed
  have "\<exists>g. ps_content ?k = Some (?d g)" using k(1) by blast
  from r [OF f(2) this] obtain g where g: "ps_content ?t = Some (?d g)" by auto
  have p: "ps_panel ?t = f (ps_panel s)" "ps_props ?t = ps_props s"
    unfolding children_keep_panel props by simp_all
  have m: "canModify (ps_props s)" using ok c by (auto simp: good_def fitted_def)
  have "refit ?t = ?t" by (rule refit_same_variant [OF g]) (use c m v p in simp_all)
  then have e: "panel_does f s = ?t" using f(1) by (simp add: panel_does_def Let_def)
  show ?thesis unfolding e by (rule exI, rule g)
qed

subsection \<open>Demonstration runs\<close>

definition demo_adding :: "psys_event list" where
  "demo_adding = [STyped demo_values, SNotified, SUploader (UChoose [demo_file 3])]"

definition demo_run :: "psys_event list \<Rightarrow> panel_props \<Rightarrow> psys" where
  "demo_run es pr = the (psys_run (\<noteq>) True es (mounted_psys pr))"

lemma demo_run_reach:
  assumes "psys_run (\<noteq>) True es (mounted_psys pr) \<noteq> None"
  shows "psys_reach (\<noteq>) True (demo_run es pr)"
  using psys_run_reach [OF reach_init] assms unfolding demo_run_def by (metis option.collapse)

definition demo_edit_props :: panel_props where
  "demo_edit_props = demo_panel_props\<lparr>pp_mode := EditMode, pp_item := Some
     \<lparr>it_id = ''i1'', it_report_id = ''r1'', it_expense_date = ''2026-04-01'', it_amount = 1200,
      it_category = \<lparr>cat_id = ''c'', cat_code = ''c'', cat_name_ja = ''travel'', cat_sort_order = 1\<rparr>,
      it_description = ''taxi'', it_created_at = ''t0'', it_updated_at = ''t1'', it_attachments = []\<rparr>\<rparr>"

definition demo_uploads :: "psys_event list" where
  "demo_uploads = [SUploader (UChoose [demo_file 3]), SUploader UStarted, SArea (AAsk ''a1''), SArea AConfirm, SArea AStarted]"

lemma demo_runs_happen:
  "psys_run (\<noteq>) True demo_adding (mounted_psys demo_panel_props) \<noteq> None"
  "psys_run (\<noteq>) True (demo_adding @ [SForm EFormSubmit, SCreated 0 (Inr demo_item)]) (mounted_psys demo_panel_props) \<noteq> None"
  "psys_run (\<noteq>) True demo_uploads (mounted_psys demo_edit_props) \<noteq> None"
  by code_simp+

lemma demo_run_facts:
  "map_option (\<lambda>c. (map_option pendingFiles (ct_uploader c), form_values (ct_form c)))
     (ps_content (demo_run demo_adding demo_panel_props)) = Some (Some [demo_file 3], demo_values)"
  "pp_mode (ps_props (demo_run demo_adding demo_panel_props)) = AddMode"
  "psys_can (SForm ESaveAndContinue) (demo_run demo_adding demo_panel_props)"
  "\<not> isOutsidePeriod (form_props_of (demo_run demo_adding demo_panel_props)) (iv_expenseDate demo_values)"
  by code_simp+

lemma demo_posting_fact:
  "OPostAttachment (attachments_path ''r1'' ''i1'') (demo_file 3) 0
     \<in> set (outs (ps_panel (demo_run (demo_adding @ [SForm EFormSubmit, SCreated 0 (Inr demo_item)]) demo_panel_props)))"
  by code_simp

lemma demo_upload_facts:
  "map_option (\<lambda>c. (ct_variant c, map_option (\<lambda>u. map fst (in_flight (up_hook u))) (ct_uploader c),
       map fst (in_flight (del_hook (ct_area c))))) (ps_content (demo_run demo_uploads demo_edit_props)) =
     Some (ContentArea ''i1'', Some [0], [0])"
  "psys_can SClose (demo_run demo_uploads demo_edit_props)"
  "\<not> resolvedIsSequentialUploading (ps_props (demo_run demo_uploads demo_edit_props)) (ps_panel (demo_run demo_uploads demo_edit_props))"
  "\<not> isDirty (ps_props (demo_run demo_uploads demo_edit_props)) (ps_panel (demo_run demo_uploads demo_edit_props))"
  by code_simp+

subsection \<open>Properties\<close>

text \<open>
  C9. The panel and what it contains, composed, refine the models of the parts. In every reachable state the
  panel is a reachable state of the panel's own system (with one save at a time when the run is calm), the
  form one of the form's, and, since they were mounted and with properties that may change with every step,
  the area one of the area's own steps, the calls of its upload control, errors of its rows and the closing
  of its toast, and the upload control one of its own steps; their hooks are used one mutation at a time.
  The area and the upload control are those the last render asks for.
\<close>

theorem panel_system_refines_parts:
  assumes "psys_reach differs calm s"
  shows "panel_reach calm (ps_panel s) \<and>
    (\<forall>c. ps_content s = Some c \<longrightarrow>
       form_reach (ct_form c) \<and> area_own (ct_variant c) (ct_area c) \<and> hook_reach useDeleteAttachment (del_hook (ct_area c)) \<and>
       ct_variant c = panel_area_variant (ps_props s) (ps_panel s) \<and>
       (ct_uploader c \<noteq> None \<longleftrightarrow> ct_variant c \<noteq> NothingShown \<and> canModify (ps_props s)) \<and>
       (\<forall>u. ct_uploader c = Some u \<longrightarrow> uploader_own (ct_variant c) u \<and> hook_reach useUploadAttachment (up_hook u)))"
proof -
  have "panel_reach calm (ps_panel s)"
    using py.invariant [OF assms] parts_okD(1) by (auto simp: good_def)
  moreover have "area_own (ct_variant c) (ct_area c)" "\<And>u. ct_uploader c = Some u \<Longrightarrow> uploader_own (ct_variant c) u"
    if "ps_content s = Some c" for c
    using oy.invariant [OF assms] that by (auto simp: own_ok_def)
  ultimately show ?thesis
    using reach_content [OF assms] by (fastforce simp: content_ok_def uploads_ok_def)
qed

theorem panel_system_refines_parts_witness:
  "panel_reach True (ps_panel (demo_run demo_adding demo_panel_props))"
  using panel_system_refines_parts [OF demo_run_reach [OF demo_runs_happen(1)]] by blast

text \<open>
  C11. No unchecked file leaves the browser: in every reachable state of the panel with its form and its
  attachment area, each file that a save has posted or still holds, and each file that the upload
  control has sent, is a JPEG, PNG or PDF of at most 5 MB.
\<close>

theorem only_checked_files_are_posted:
  assumes "psys_reach differs calm s"
  shows "(\<forall>path f k. OPostAttachment path f k \<in> set (outs (ps_panel s)) \<longrightarrow>
        f_type f \<in> set ALLOWED_MIME_TYPES \<and> f_size f \<le> 5242880) \<and>
    (\<forall>f. f \<in> set (panelFiles (ps_panel s)) \<or> (\<exists>r. r \<in> set (runs (ps_panel s)) \<and> f \<in> set (rn_files r)) \<longrightarrow>
        f_type f \<in> set ALLOWED_MIME_TYPES \<and> f_size f \<le> 5242880) \<and>
    (\<forall>c u path i. ps_content s = Some c \<longrightarrow> ct_uploader c = Some u \<longrightarrow> (path, i) \<in> set (requests (up_hook u)) \<longrightarrow>
        (\<exists>f. in_body i = Some (FormBody [(''file'', f)]) \<and> f_type f \<in> set ALLOWED_MIME_TYPES \<and> f_size f \<le> 5242880))"
proof -
  have valid: "f_type f \<in> set ALLOWED_MIME_TYPES \<and> f_size f \<le> 5242880" if "validateFile f = None" for f
    using that by (auto simp: validateFile_def MAX_FILE_SIZE_BYTES_def split: if_splits)
  have "valid_files (panel_files (ps_panel s))" using py.invariant [OF assms] parts_okD(2) by (auto simp: good_def)
  then have held: "f_type f \<in> set ALLOWED_MIME_TYPES \<and> f_size f \<le> 5242880" if "f \<in> panel_files (ps_panel s)" for f
    using that valid by (simp add: valid_files_def)
  have "sends_valid u" if "ps_content s = Some c" "ct_uploader c = Some u" for c u
    using reach_content(1) [OF assms that(1)] that(2) by (simp add: content_ok_def uploads_ok_def)
  then have sent: "\<exists>f. in_body i = Some (FormBody [(''file'', f)]) \<and> validateFile f = None"
    if "ps_content s = Some c" "ct_uploader c = Some u" "(path, i) \<in> set (requests (up_hook u))" for c u path i
    using that unfolding sends_valid_def by (metis snd_conv)
  have "f \<in> panel_files (ps_panel s)" if "OPostAttachment path f k \<in> set (outs (ps_panel s))" for path f k
    using that by (auto simp: panel_files_def)
  moreover have "f \<in> panel_files (ps_panel s)"
    if "f \<in> set (panelFiles (ps_panel s)) \<or> (\<exists>r. r \<in> set (runs (ps_panel s)) \<and> f \<in> set (rn_files r))" for f
    using that by (auto simp: panel_files_def)
  ultimately show ?thesis using held sent valid by meson
qed

theorem only_checked_files_are_posted_witness:
  "let s = demo_run (demo_adding @ [SForm EFormSubmit, SCreated 0 (Inr demo_item)]) demo_panel_props in
   OPostAttachment (attachments_path ''r1'' ''i1'') (demo_file 3) 0 \<in> set (outs (ps_panel s)) \<and>
   f_size (demo_file 3) \<le> 5242880"
  using only_checked_files_are_posted [OF demo_run_reach [OF demo_runs_happen(2)]] demo_posting_fact
  unfolding Let_def by blast

text \<open>
  C13. Saving waits for the attachments: in every reachable state in which the upload control still has an
  upload, or the area a deletion, queued or running, neither save button of the form can be clicked.
\<close>

theorem save_waits_for_attachments:
  assumes "psys_reach differs calm s" and "ps_content s = Some c"
    and "(\<exists>u. ct_uploader c = Some u \<and> busy u) \<or> delete_pending (ct_area c)"
  shows "isSaveDisabled (ps_props s) (ps_panel s) \<and> \<not> psys_can (SForm EFormSubmit) s \<and>
    \<not> psys_can (SForm ESaveAndContinue) s"
proof -
  have "isSaveDisabled (ps_props s) (ps_panel s)"
    using reach_content(1) [OF assms(1,2)] assms(3) by (auto simp: content_ok_def isSaveDisabled_def)
  moreover from this have "\<not> form_offers s c EFormSubmit" "\<not> form_offers s c ESaveAndContinue"
    using offers_enabled(1) by blast+
  ultimately show ?thesis using assms(2) by (simp add: psys_can_def)
qed

theorem save_waits_for_attachments_witness:
  "\<not> psys_can (SForm EFormSubmit) (demo_run demo_uploads demo_edit_props)"
proof -
  let ?s = "demo_run demo_uploads demo_edit_props"
  from demo_upload_facts(1) obtain c where c: "ps_content ?s = Some c"
    "map_option (\<lambda>u. map fst (in_flight (up_hook u))) (ct_uploader c) = Some [0]" by auto
  then obtain u where "ct_uploader c = Some u" "in_flight (up_hook u) \<noteq> []" by auto
  then show ?thesis
    using save_waits_for_attachments [OF demo_run_reach [OF demo_runs_happen(3)] c(1)] by blast
qed

definition saves_shown :: "form_event \<Rightarrow> psys \<Rightarrow> content \<Rightarrow> uploader \<Rightarrow> psys \<Rightarrow> bool" where
  \<comment> \<open>a run was started that creates the item of the form and then sends it the files that are listed\<close>
  "saves_shown e s c u t \<longleftrightarrow>
     (\<exists>r. runs (ps_panel t) = runs (ps_panel s) @ [r] \<and> rn_files r = pendingFiles u \<and> rn_stage r = Creating \<and>
       rn_after r = (if e = EFormSubmit then AfterSave else AfterContinue) \<and> rn_reportId r = pp_reportId (ps_props s) \<and>
       if_expense_date (rn_input r) = iv_expenseDate (form_values (ct_form c)) \<and>
       Amount (of_int (if_amount (rn_input r))) = iv_amount (form_values (ct_form c)) \<and>
       if_category_id (rn_input r) = iv_categoryId (form_values (ct_form c)) \<and>
       if_description (rn_input r) = iv_description (form_values (ct_form c)))"

lemma callback_saves:
  assumes "save_callback e (form_props_of s) = Some cb" "pp_mode (ps_props s) = AddMode"
    "panelFiles (ps_panel s) = pendingFiles u" "item_valid (form_values (ct_form c))"
    "runs (ps_panel t) = runs (panel_callback_runs (ps_props s) (cb, form_values (ct_form c)) (ps_panel s))"
  shows "saves_shown e s c u t"
proof -
  let ?v = "form_values (ct_form c)"
  obtain n where n: "iv_amount ?v = Amount (of_int n)" using assms(4) item_valid_iff by blast
  have cb: "panel_callback_runs (ps_props s) (cb, ?v) =
      handleAddModeSubmit (ps_props s) (pendingFiles u) ?v (if e = EFormSubmit then AfterSave else AfterContinue)"
    using assms(1-3) by (auto simp: save_callback_def form_props_of_def panel_form_props_def fun_eq_iff
        split: form_event.splits)
  show ?thesis
    unfolding saves_shown_def assms(5) cb
    by (auto simp: handleAddModeSubmit_def Let_def n amount_yen_def split: option.split)
qed

text \<open>
  C14. What is shown is what is saved, by either button. When the values of the form of a new item are valid and "save"
  or "save and add another" is clicked, then the run that creates the item carries the values of the
  form, and the files it will send to the item are exactly the pending files that the upload control lists at
  the click, in their order; after it the panel closes or goes on as the button says. For a date inside
  the period the run starts with the click. For a date outside it the click starts nothing, the warning
  can be confirmed, and the confirmation starts that very run.
\<close>

theorem saved_files_are_shown:
  assumes "psys_reach differs calm s" and "ps_content s = Some c" and "ct_uploader c = Some u"
    and "pp_mode (ps_props s) = AddMode" and "e = EFormSubmit \<or> e = ESaveAndContinue" and "psys_can (SForm e) s"
    and "item_valid (form_values (ct_form c))"
  shows "let t = psys_does differs (SForm e) s in
    if isOutsidePeriod (form_props_of s) (iv_expenseDate (form_values (ct_form c)))
    then runs (ps_panel t) = runs (ps_panel s) \<and> psys_can (SForm (EWarn EConfirm)) t \<and>
      saves_shown e s c u (psys_does differs (SForm (EWarn EConfirm)) t)
    else saves_shown e s c u t"
proof -
  let ?v = "form_values (ct_form c)" and ?p = "form_props_of s"
  let ?f = "(ct_form c)\<lparr>form_errors := itemFormSchema ?v\<rparr>"
  have fits: "ct_variant c = panel_area_variant (ps_props s) (ps_panel s)" "files_shown (ps_panel s) c"
    using reach_content [OF assms(1,2)] by blast+
  then have files: "panelFiles (ps_panel s) = pendingFiles u"
    using assms(3,4) by (simp add: files_shown_def adds_files_def panel_area_variant_def attachmentArea_def)
  obtain cb where cb: "save_callback e ?p = Some cb"
    using assms(4,5) by (auto simp: save_callback_def form_props_of_def panel_form_props_def)
  note saved = callback_saves [OF cb assms(4) files assms(7)]
  have step: "form_event_step e ?p (ct_form c) = executeSaveWithPeriodCheck ?p ?v cb ?f"
    using assms(7) by (simp add: save_click [OF cb] Let_def)
  have acts: "psys_does differs (SForm e) s = form_acts e c s" "e \<noteq> EFormCancel"
    using assms(2,5) by (auto simp: psys_does_def)
  show ?thesis
  proof (cases "isOutsidePeriod ?p (iv_expenseDate ?v)")
    case False
    then show ?thesis
      using saved acts step by (simp add: form_acts_def executeSaveWithPeriodCheck_def Let_def)
  next
    case True
    let ?c = "c\<lparr>ct_form := ?f\<lparr>pendingSubmitCallback := Some (cb, ?v), periodWarningDialogOpen := True\<rparr>\<rparr>"
    let ?t = "s\<lparr>ps_content := Some ?c\<rparr>"
    have t: "psys_does differs (SForm e) s = ?t"
      using True acts step by (simp add: form_acts_def executeSaveWithPeriodCheck_def)
    have "content_started c" using assms(2,6) by (simp add: psys_can_def)
    then have can: "psys_can (SForm (EWarn EConfirm)) ?t"
      by (simp add: psys_can_def form_offers_def content_started_def)
    have "runs (ps_panel (psys_does differs (SForm (EWarn EConfirm)) ?t)) =
        runs (panel_callback_runs (ps_props s) (cb, ?v) (ps_panel s))"
      by (simp add: psys_does_def form_acts_def form_event_step_def handlePeriodWarningConfirm_def Let_def)
    then show ?thesis using True t can saved by (simp add: Let_def)
  qed
qed

theorem saved_files_are_shown_witness:
  "\<exists>r. runs (ps_panel (psys_does (\<noteq>) (SForm ESaveAndContinue) (demo_run demo_adding demo_panel_props))) =
      runs (ps_panel (demo_run demo_adding demo_panel_props)) @ [r] \<and> rn_files r = [demo_file 3] \<and> rn_after r = AfterContinue"
proof -
  let ?s = "demo_run demo_adding demo_panel_props"
  from demo_run_facts(1) obtain c u where c: "ps_content ?s = Some c" "ct_uploader c = Some u"
    "pendingFiles u = [demo_file 3]" "form_values (ct_form c) = demo_values" by auto
  have v: "item_valid (form_values (ct_form c))" unfolding c(4) by code_simp
  show ?thesis
    using saved_files_are_shown [OF demo_run_reach [OF demo_runs_happen(1)] c(1,2) demo_run_facts(2) _ demo_run_facts(3) v]
      demo_run_facts(4) c(3,4) by (auto simp: saves_shown_def Let_def)
qed

text \<open>
  C17. Closing stops what runs in the area of an item: when the panel closes on a form without changes, or
  the changes are discarded, every running upload and deletion carries a signal that is aborted then, and
  the parent is told to close.
\<close>

theorem closing_cancels_attachments:
  assumes "psys_reach differs calm s" and "ps_content s = Some c" and "ct_variant c = ContentArea i"
    and "ct_uploader c = Some u" and "psys_can e s"
    and "e = SDiscard EConfirm \<or>
      e = SClose \<and> \<not> resolvedIsSequentialUploading (ps_props s) (ps_panel s) \<and> \<not> isDirty (ps_props s) (ps_panel s)"
  shows "\<exists>d u'. ps_content (psys_does differs e s) = Some d \<and> ct_uploader d = Some u' \<and>
    in_flight (up_hook u') = in_flight (up_hook u) \<and> in_flight (del_hook (ct_area d)) = in_flight (del_hook (ct_area c)) \<and>
    (\<forall>k p sig. (k, p, sig) \<in> set (in_flight (up_hook u')) \<longrightarrow> (\<exists>x. sig = Some x \<and> x \<in> set (aborted (up_hook u')))) \<and>
    (\<forall>k p sig. (k, p, sig) \<in> set (in_flight (del_hook (ct_area d))) \<longrightarrow>
       (\<exists>x. sig = Some x \<and> x \<in> set (aborted (del_hook (ct_area d))))) \<and>
    last (outs (ps_panel (psys_does differs e s))) = OClose"
proof -
  let ?p = "ps_panel s"
  have g: "good calm s" by (rule py.invariant [OF assms(1)])
  define f where "f = (if e = SClose then handleCloseAttempt (ps_props s) else handleDiscard)"
  define rest where "rest = (if e = SClose then [OClose] else [OFormReset, OClose])"
  have does: "psys_does differs e s = panel_does f s" using assms(6) by (auto simp: psys_does_def f_def)
  have o: "outs (f ?p) = outs ?p @ [OCancelUpload, OCancelDelete] @ rest"
    using assms(6)
    by (auto simp: f_def rest_def handleCloseAttempt_def handleDiscard_def abortSequentialUpload_def emit_def Let_def
        split: option.split)
  have v: "panel_area_variant (ps_props s) (f ?p) = ContentArea i"
    using reach_content(2) [OF assms(1,2)] assms(3)
    by (auto simp: panel_area_variant_def attachmentArea_def split: if_splits option.splits)
  have "set rest \<subseteq> {OFormReset, OClose}" by (simp add: rest_def)
  then obtain h where d: "ps_content (panel_does f s) = Some (c\<lparr>ct_form := h,
      ct_uploader := Some (u\<lparr>up_hook := upload_step Cancel (up_hook u)\<rparr>),
      ct_area := (ct_area c)\<lparr>del_hook := delete_step Cancel (del_hook (ct_area c))\<rparr>\<rparr>)"
    using cancels_reach_children [where f = f and rest = rest, OF g assms(2-4)] o v by auto
  have st: "queued (up_hook u) = []" "queued (del_hook (ct_area c)) = []"
    using assms(2,4-6) by (auto simp: psys_can_def content_started_def)
  have r: "hook_reach useUploadAttachment (up_hook u)" "hook_reach useDeleteAttachment (del_hook (ct_area c))"
    using reach_content(1) [OF assms(1,2)] assms(4) by (auto simp: content_ok_def uploads_ok_def)
  have "last (outs (ps_panel (panel_does f s))) = OClose" by (simp add: o, simp add: rest_def)
  then show ?thesis
    unfolding does using d cancel_aborts [OF r(1) st(1)] cancel_aborts [OF r(2) st(2)]
    by (simp add: hook_idle_steps delete_hook_effects) (simp add: upload_step_def delete_step_def)
qed

theorem closing_cancels_attachments_witness:
  "let t = psys_does (\<noteq>) SClose (demo_run demo_uploads demo_edit_props) in
   last (outs (ps_panel t)) = OClose \<and>
   (\<exists>d u x. ps_content t = Some d \<and> ct_uploader d = Some u \<and> x \<in> set (aborted (up_hook u)))"
proof -
  let ?s = "demo_run demo_uploads demo_edit_props"
  from demo_upload_facts(1) obtain c u where c: "ps_content ?s = Some c" "ct_variant c = ContentArea ''i1''"
    "ct_uploader c = Some u" "map fst (in_flight (up_hook u)) = [0]" by auto
  then obtain k p sig where f: "(k, p, sig) \<in> set (in_flight (up_hook u))" by (cases "in_flight (up_hook u)") auto
  from closing_cancels_attachments [OF demo_run_reach [OF demo_runs_happen(3)] c(1-3) demo_upload_facts(2)]
    demo_upload_facts(3,4) obtain d u' where "ps_content (psys_does (\<noteq>) SClose ?s) = Some d" "ct_uploader d = Some u'"
    "in_flight (up_hook u') = in_flight (up_hook u)"
    "\<forall>k p sig. (k, p, sig) \<in> set (in_flight (up_hook u')) \<longrightarrow> (\<exists>x. sig = Some x \<and> x \<in> set (aborted (up_hook u')))"
    "last (outs (ps_panel (psys_does (\<noteq>) SClose ?s))) = OClose" by blast
  with f show ?thesis unfolding Let_def by metis
qed


end
