(* ===== verification/Page_System.thy ===== *)
theory Page_System
  imports Panel_System Report_Detail
begin

text \<open>
  The detail page and its slide panel as one system (frontend/src/pages/reports/ReportDetailPage.tsx with
  ItemSlidePanel.tsx): the page renders the panel with the properties its state gives, hears the calls
  that the panel logs, and mounts a new panel whenever the key \<open>formKey\<close> changes. A panel that is
  unmounted disappears with its children, but a save that it has started goes on, and its callbacks still
  reach the page. The data of the queries stays the same during a run, as in the theory of the page. The
  drawer and the dialogs are modal: the buttons of the page can be used only when nothing lies over them.
\<close>

subsection \<open>State and commits\<close>

record pgsys =
  sp_page :: page
  sp_psys :: psys
  sp_old :: "panel list"

definition mounted_pgsys :: "page_data \<Rightarrow> pgsys" where
  "mounted_pgsys pd =
     \<lparr>sp_page = mounted_page, sp_psys = mounted_psys (page_panel_props pd mounted_page), sp_old = []\<rparr>"

definition page_hears_all :: "page_data \<Rightarrow> panel_out list \<Rightarrow> page \<Rightarrow> page" where
  "page_hears_all pd xs pg = foldl (\<lambda>p x. page_hears pd x p) pg xs"

definition page_commit :: "page_data \<Rightarrow> page \<Rightarrow> pgsys \<Rightarrow> pgsys" where
  "page_commit pd pg s =
     (let pr = page_panel_props pd pg in
      if formKey pg = formKey (sp_page s)
      then s\<lparr>sp_page := pg, sp_psys := parent_renders pr (sp_psys s)\<rparr>
      else s\<lparr>sp_page := pg, sp_psys := mounted_psys pr, sp_old := sp_old s @ [ps_panel (content_gone (sp_psys s))]\<rparr>)"

subsection \<open>Events\<close>

datatype sys_event =
    YReport report_event
  | YActionConfirmed dialog "string option"
  | YActionCancelled dialog
  | YDecisionConfirmed dialog "string option"
  | YDecisionCancelled dialog
  | YDeletionConfirmed dialog
  | YDeletionCancelled dialog
  | YSettled nat "js_error + jsval"
  | YTold "(toast_severity \<times> string) option"
  | YPanel psys_event
  | YOld nat psys_event

fun reopens :: "report_event \<Rightarrow> bool" where
  "reopens (EItemClick i) = True"
| "reopens (EEditItem i) = True"
| "reopens _ = False"

definition report_acts :: "page_data \<Rightarrow> report_event \<Rightarrow> pgsys \<Rightarrow> pgsys" where
  \<comment> \<open>\<open>flushSync\<close> commits the closed panel, with the new key and item, before the panel opens\<close>
  "report_acts pd e s =
     (let pg = sp_page s; pg' = action_event pd e pg in
      if reopens e
      then page_commit pd pg' (page_commit pd (pg'\<lparr>panelState := None, lastMode := lastMode pg\<rparr>) s)
      else page_commit pd pg' s)"

definition panel_acts ::
  "(item_values \<Rightarrow> item_values \<Rightarrow> bool) \<Rightarrow> page_data \<Rightarrow> psys_event \<Rightarrow> pgsys \<Rightarrow> pgsys" where
  "panel_acts differs pd e s =
     (let q = psys_does differs e (sp_psys s);
          new = drop (length (outs (ps_panel (sp_psys s)))) (outs (ps_panel q));
          s1 = s\<lparr>sp_psys := q\<rparr>;
          pg = page_hears_all pd new (sp_page s)
      in if e = SExited then page_commit pd (panel_exited pg) s1
         else if new = [] then s1 else page_commit pd pg s1)"

definition old_settles :: "psys_event \<Rightarrow> panel \<Rightarrow> panel_out list \<times> panel" where
  \<comment> \<open>a request of an unmounted panel settles; the effect on the toast, which does the rest of a partial
    failure, does not run any more\<close>
  "old_settles e p =
     (let p1 = p\<lparr>apiToast := (False, TSuccess, [])\<rparr>;
          q = (case e of SCreated k res \<Rightarrow> create_settles k res p1 | SSent k res \<Rightarrow> upload_settles k res p1 | _ \<Rightarrow> p1)
      in (if fst (snd (apiToast q)) = TWarning then [] else drop (length (outs p)) (outs q), q))"

definition old_acts :: "page_data \<Rightarrow> nat \<Rightarrow> psys_event \<Rightarrow> pgsys \<Rightarrow> pgsys" where
  "old_acts pd i e s =
     (case old_settles e (sp_old s ! i) of
        (new, q) \<Rightarrow> page_commit pd (page_hears_all pd new (sp_page s)) (s\<lparr>sp_old := (sp_old s)[i := q]\<rparr>))"

definition sys_does :: "(item_values \<Rightarrow> item_values \<Rightarrow> bool) \<Rightarrow> page_data \<Rightarrow> sys_event \<Rightarrow> pgsys \<Rightarrow> pgsys" where
  "sys_does differs pd e s =
     (let pg = sp_page s in
      case e of
        YReport ev \<Rightarrow> report_acts pd ev s
      | YActionConfirmed d x \<Rightarrow> page_commit pd (handleDialogConfirm pd pg) s
      | YActionCancelled d \<Rightarrow> page_commit pd (pg\<lparr>dialogAction := None\<rparr>) s
      | YDecisionConfirmed d x \<Rightarrow> page_commit pd (handleWorkflowDialogConfirm pd x pg) s
      | YDecisionCancelled d \<Rightarrow> page_commit pd (handleWorkflowDialogCancel pg) s
      | YDeletionConfirmed d \<Rightarrow> page_commit pd (handleDeleteItemConfirm pd pg) s
      | YDeletionCancelled d \<Rightarrow> page_commit pd (pg\<lparr>deletingItemId := None\<rparr>) s
      | YSettled k res \<Rightarrow> page_commit pd (page_settles k res pg) s
      | YTold t \<Rightarrow> page_commit pd (location_toast t pg) s
      | YPanel ev \<Rightarrow> panel_acts differs pd ev s
      | YOld i ev \<Rightarrow> old_acts pd i ev s)"

subsection \<open>Guards\<close>

definition uncovered :: "pgsys \<Rightarrow> bool" where
  "uncovered s \<longleftrightarrow>
     (let pg = sp_page s in
      panelState pg = None \<and> dialogAction pg = None \<and> workflowDialogAction pg = None \<and> deletingItemId pg = None \<and>
      \<not> isDiscardDialogOpen (ps_panel (sp_psys s)) \<and>
      (case ps_content (sp_psys s) of None \<Rightarrow> True | Some c \<Rightarrow> undisturbed (sp_psys s) c))"

fun settles :: "psys_event \<Rightarrow> bool" where
  "settles (SCreated k res) = True"
| "settles (SSent k res) = True"
| "settles _ = False"

fun renders :: "psys_event \<Rightarrow> bool" where
  "renders (SRender pr) = True"
| "renders _ = False"

definition sys_can :: "locale_format \<Rightarrow> page_data \<Rightarrow> sys_event \<Rightarrow> pgsys \<Rightarrow> bool" where
  "sys_can lc pd e s =
     (let pg = sp_page s in
      case e of
        YReport ev \<Rightarrow> uncovered s \<and>
          (ev \<in> set (clickable (page_action_bar pd pg)) \<or> ev \<in> set (clickable (page_item_list lc pd)))
      | YActionConfirmed d x \<Rightarrow> dl_open (action_dialog pg) \<and> OnConfirm x \<in> set (fst (click_dialog EConfirm (action_dialog pg) d))
      | YActionCancelled d \<Rightarrow> OnCancel \<in> set (fst (click_dialog EClose (action_dialog pg) d))
      | YDecisionConfirmed d x \<Rightarrow> dl_open (workflow_dialog pg) \<and> OnConfirm x \<in> set (fst (click_dialog EConfirm (workflow_dialog pg) d))
      | YDecisionCancelled d \<Rightarrow> OnCancel \<in> set (fst (click_dialog EClose (workflow_dialog pg) d))
      | YDeletionConfirmed d \<Rightarrow> dl_open (delete_item_dialog pg) \<and> OnConfirm None \<in> set (fst (click_dialog EConfirm (delete_item_dialog pg) d))
      | YDeletionCancelled d \<Rightarrow> OnCancel \<in> set (fst (click_dialog EClose (delete_item_dialog pg) d))
      | YSettled k res \<Rightarrow> True
      | YTold t \<Rightarrow> True
      | YPanel ev \<Rightarrow> \<not> renders ev \<and> psys_can ev (sp_psys s)
      | YOld i ev \<Rightarrow> i < length (sp_old s) \<and> settles ev)"

definition sys_step ::
  "locale_format \<Rightarrow> page_data \<Rightarrow> (item_values \<Rightarrow> item_values \<Rightarrow> bool) \<Rightarrow> pgsys \<Rightarrow> pgsys \<Rightarrow> bool" where
  "sys_step lc pd differs s t \<longleftrightarrow> (\<exists>e. sys_can lc pd e s \<and> t = sys_does differs pd e s)"

abbreviation sys_reach :: "locale_format \<Rightarrow> page_data \<Rightarrow> (item_values \<Rightarrow> item_values \<Rightarrow> bool) \<Rightarrow> pgsys \<Rightarrow> bool" where
  "sys_reach lc pd differs \<equiv> reach (\<lambda>s. s = mounted_pgsys pd) (sys_step lc pd differs)"

fun sys_run ::
  "locale_format \<Rightarrow> page_data \<Rightarrow> (item_values \<Rightarrow> item_values \<Rightarrow> bool) \<Rightarrow> sys_event list \<Rightarrow> pgsys \<Rightarrow> pgsys option" where
  \<comment> \<open>a list of events, as long as their guards hold\<close>
  "sys_run lc pd differs [] s = Some s"
| "sys_run lc pd differs (e # es) s =
     (if sys_can lc pd e s then sys_run lc pd differs es (sys_does differs pd e s) else None)"

lemma sys_run_reach:
  "sys_reach lc pd differs s \<Longrightarrow> sys_run lc pd differs es s = Some t \<Longrightarrow> sys_reach lc pd differs t"
proof (induction es arbitrary: s)
  case (Cons e es)
  then have "sys_step lc pd differs s (sys_does differs pd e s)" by (auto simp: sys_step_def split: if_splits)
  with Cons show ?case by (auto intro: reach_step split: if_splits)
qed simp

subsection \<open>The question about the period survives commits\<close>

definition pending_of :: "psys \<Rightarrow> (panel_callback \<times> item_values) option" where
  "pending_of s = (case ps_content s of None \<Rightarrow> None | Some c \<Rightarrow> pendingSubmitCallback (ct_form c))"

lemma pending_becomes [simp]:
  "ps_content s = Some c \<Longrightarrow> pending_of (area_becomes a c s) = pending_of s"
  "ps_content s = Some c \<Longrightarrow> pending_of (uploader_becomes u c s) = pending_of s"
  by (simp_all add: pending_of_def area_becomes_def uploader_becomes_eq)

lemma pending_drop_uploader [simp]: "pending_of (drop_uploader s) = pending_of s"
proof (cases "ps_content s")
  case (Some c)
  show ?thesis by (rule drop_uploader_cases [OF Some]) (simp add: pending_of_def Some)
qed (simp add: drop_uploader_def)

lemma pending_fit_uploader [simp]: "pending_of (fit_uploader s) = pending_of s"
  by (simp add: fit_uploader_def split: option.split)

lemma pending_refit [simp]: "pending_of (refit s) = pending_of s"
proof (cases "ps_content s")
  case (Some c)
  have "pending_of (place_area v (unmount_children s)) = pending_of s" for v
    by (rule unmount_children_cases [OF Some]) (simp add: pending_of_def place_area_def Some)
  then show ?thesis using Some by (simp add: refit_def Let_def)
qed (simp add: refit_def)

lemma pending_child [simp]: "pending_of (child_hears x s) = pending_of s"
  by (auto simp: child_calls pending_of_def split: option.split panel_out.split area_variant.split)

lemma pending_panel_does [simp]: "pending_of (panel_does f s) = pending_of s"
proof -
  have "pending_of (foldl (\<lambda>t x. child_hears x t) t xs) = pending_of t" for t xs
    by (induction xs arbitrary: t) simp_all
  then show ?thesis by (simp add: panel_does_def Let_def) (simp add: pending_of_def)
qed

lemma pending_mount [simp]: "pending_of (mount_content s) = None"
  by (simp add: mount_content_def Let_def) (simp add: pending_of_def mounted_form_def)

lemma pending_renders: "pending_of (parent_renders pr s) = pending_of s \<or> pending_of (parent_renders pr s) = None"
proof -
  have "pending_of (s\<lparr>ps_props := pr\<rparr>) = pending_of s" by (simp add: pending_of_def)
  then show ?thesis by (simp add: parent_renders_def Let_def)
qed

lemma pending_mounted [simp]: "pending_of (mounted_psys pr) = None"
  by (simp add: mounted_psys_def Let_def) (simp add: pending_of_def)

lemma refit_props [simp]: "ps_props (refit s) = ps_props s"
  using hears_some_refit by (auto simp: hears_some_def)

lemma child_props [simp]: "ps_props (foldl (\<lambda>t x. child_hears x t) s xs) = ps_props s"
proof -
  have "ps_props (child_hears x s) = ps_props s" for x s
    by (auto simp: child_calls split: option.split panel_out.split area_variant.split)
  then show ?thesis by (induction xs arbitrary: s) simp_all
qed

lemma panel_does_props [simp]: "ps_props (panel_does f s) = ps_props s"
  by (simp add: panel_does_def Let_def)

lemma mount_props [simp]: "ps_props (mount_content s) = ps_props s"
  using hears_clean_fit by (auto simp: mount_content_def Let_def hears_clean_def)

lemma renders_props [simp]: "ps_props (parent_renders pr s) = pr" "ps_props (mounted_psys pr) = pr"
  by (simp_all add: parent_renders_def mounted_psys_def Let_def)

subsection \<open>What a panel event tells the page\<close>

definition told_page :: "psys \<Rightarrow> psys \<Rightarrow> panel_out list" where
  "told_page s t = drop (length (outs (ps_panel s))) (outs (ps_panel t))"

lemma moves_log: "panel_moves False X p q \<Longrightarrow> list_all no_submit (drop (length (outs p)) (outs q))"
  by (auto simp: panel_moves_def)

lemma told_panel_does:
  "panel_moves False X (ps_panel s) (f (ps_panel s)) \<Longrightarrow> list_all no_submit (told_page s (panel_does f s))"
  using moves_log by (simp add: told_page_def)

lemma told_same: "outs (ps_panel t) = outs (ps_panel s) \<Longrightarrow> told_page s t = []"
  by (simp add: told_page_def)

lemma hears_some_told: "hears_some s t \<Longrightarrow> told_page s t = []"
  by (auto simp: hears_some_def told_page_def)

lemma gone_props [simp]: "ps_props (content_gone s) = ps_props s" "outs (ps_panel (content_gone s)) = outs (ps_panel s)"
  "ps_content (content_gone s) = None"
proof -
  have "ps_props (unmount_children s) = ps_props s \<and> outs (ps_panel (unmount_children s)) = outs (ps_panel s)"
  proof (cases "ps_content s")
    case (Some c)
    show ?thesis by (rule unmount_children_cases [OF Some]) simp
  qed (simp add: unmount_children_def)
  then show "ps_props (content_gone s) = ps_props s" "outs (ps_panel (content_gone s)) = outs (ps_panel s)"
    "ps_content (content_gone s) = None"
    by (simp_all add: content_gone_def)
qed

definition newly_asked :: "psys \<Rightarrow> panel_callback \<Rightarrow> item_values \<Rightarrow> bool" where
  "newly_asked s cb v \<longleftrightarrow>
     offered_callback (ps_props s) (ps_panel s) cb \<and> item_valid v \<and>
     \<not> isSaveDisabled (ps_props s) (ps_panel s) \<and> formMode (ps_props s) \<noteq> ViewMode"

definition harmless :: "psys \<Rightarrow> psys \<Rightarrow> bool" where
  "harmless s t \<longleftrightarrow>
     ps_props t = ps_props s \<and> list_all no_submit (told_page s t) \<and>
     (\<forall>cb v. pending_of t = Some (cb, v) \<longrightarrow> pending_of s = Some (cb, v) \<or> newly_asked s cb v)"

definition submits_item :: "psys \<Rightarrow> psys \<Rightarrow> bool" where
  "submits_item s t \<longleftrightarrow>
     ps_props t = ps_props s \<and> pending_of t = None \<and>
     (\<exists>m fs v. m \<noteq> AddMode \<and> told_page s t = [OItemSubmit v] \<and> item_valid v \<and>
        (pending_of s = Some (PanelSubmit m fs, v) \<or> newly_asked s (PanelSubmit m fs) v))"

lemma harmless_same:
  "ps_props t = ps_props s \<Longrightarrow> list_all no_submit (told_page s t) \<Longrightarrow> pending_of t = pending_of s \<or> pending_of t = None \<Longrightarrow> harmless s t"
  by (auto simp: harmless_def)

lemma harmless_op: "panel_moves False X (ps_panel s) (f (ps_panel s)) \<Longrightarrow> harmless s (panel_does f s)"
  by (rule harmless_same) (auto intro: told_panel_does)

lemma harmless_ops:
  "harmless s (panel_does (handleCloseAttempt pr) s)" "harmless s (panel_does handleDiscard s)"
  "harmless s (panel_does handleDiscardCancel s)" "harmless s (panel_does (create_settles k res) s)"
  "harmless s (panel_does (upload_settles k res) s)" "harmless s (panel_does (close_panel_toast w) s)"
  "harmless s (panel_does (form_dirty_changes b) s)"
  by (rule harmless_op [where X = "{}"]; simp only: moves_close moves_quiet moves_create_settles moves_upload_settles)+

lemma harmless_refl: "harmless s s"
  by (rule harmless_same) (simp_all add: told_page_def)

lemma harmless_hears: "hears_some s t \<Longrightarrow> pending_of t = pending_of s \<Longrightarrow> harmless s t"
  by (rule harmless_same) (auto simp: hears_some_told, simp add: hears_some_def)

lemma harmless_children:
  assumes "ps_content s = Some c"
  shows "harmless s (refit (area_becomes a c s))" "harmless s (refit (uploader_becomes u c s))"
proof -
  have "hears_some s (area_becomes a c s)" by (auto simp: hears_some_def area_becomes_def)
  then have "hears_some s (refit (area_becomes a c s))" using hears_some_refit hears_some_trans by blast
  then show "harmless s (refit (area_becomes a c s))" by (rule harmless_hears) (simp add: assms)
  have "hears_some s (refit (uploader_becomes u c s))" using hears_some_becomes hears_some_refit hears_some_trans by blast
  then show "harmless s (refit (uploader_becomes u c s))" by (rule harmless_hears) (simp add: assms)
qed

lemma form_event_told:
  assumes g: "good False s" and c: "ps_content s = Some c" and o: "form_offers s c e"
  shows "harmless s (form_acts e c s) \<or> submits_item s (form_acts e c s)"
proof (cases "e = EFormCancel")
  case True
  then show ?thesis using harmless_ops(1) by (simp add: form_acts_def)
next
  case False
  have w: "warning_inv (ct_form c)"
    using parts_okD(3) [of False s c] g c form_reach_inv by (auto simp: good_def content_ok_def)
  have enabled: "newly_asked s cb v"
    if "offered_callback (ps_props s) (ps_panel s) cb" "e = EFormSubmit \<or> e = ESaveAndContinue" "item_valid v" for cb v
    using offers_enabled [OF o that(2)] that by (auto simp: newly_asked_def)
  have run: "harmless s (panel_does (panel_callback_runs (ps_props s) (cb, v)) (s\<lparr>ps_content := Some (c\<lparr>ct_form := f\<rparr>)\<rparr>)) \<or>
      submits_item s (panel_does (panel_callback_runs (ps_props s) (cb, v)) (s\<lparr>ps_content := Some (c\<lparr>ct_form := f\<rparr>)\<rparr>))"
    if "pendingSubmitCallback f = None" "item_valid v" "pending_of s = Some (cb, v) \<or> newly_asked s cb v" for f cb v
  proof -
    let ?s = "s\<lparr>ps_content := Some (c\<lparr>ct_form := f\<rparr>)\<rparr>"
    let ?f = "panel_callback_runs (ps_props s) (cb, v)"
    let ?t = "panel_does ?f ?s"
    have t: "ps_props ?t = ps_props s" "pending_of ?t = None" using that(1) by (simp_all, simp add: pending_of_def)
    have told: "told_page s ?t = drop (length (outs (ps_panel s))) (outs (?f (ps_panel s)))"
      by (simp add: told_page_def)
    have add: "list_all no_submit (drop (length (outs p)) (outs (handleAddModeSubmit pr files data cont p)))" for pr files data cont p
      using moves_submit [of False files p pr data cont] moves_log by blast
    show ?thesis
    proof (cases cb)
      case (PanelSubmit m fs)
      show ?thesis
      proof (cases "m = AddMode \<or> \<not> pp_submits (ps_props s)")
        case True
        then have "list_all no_submit (told_page s ?t)" unfolding told using PanelSubmit add by (auto simp: emit_def)
        then show ?thesis using t by (simp add: harmless_same)
      next
        case False
        then have "told_page s ?t = [OItemSubmit v]" unfolding told using PanelSubmit by (simp add: emit_def)
        then show ?thesis using t that False PanelSubmit by (auto simp: submits_item_def)
      qed
    next
      case (PanelSaveAndContinue fs)
      then have "list_all no_submit (told_page s ?t)" unfolding told using add by simp
      then show ?thesis using t by (simp add: harmless_same)
    qed
  qed
  from w o show ?thesis
  proof (cases rule: form_event_cases)
    case (no_call f)
    let ?t = "s\<lparr>ps_content := Some (c\<lparr>ct_form := f\<rparr>)\<rparr>"
    have "harmless s ?t" by (rule harmless_same) (simp_all add: told_page_def pending_of_def no_call)
    then show ?thesis using no_call False by (simp add: form_acts_def)
  next
    case (asks f cb v)
    then show ?thesis using False enabled [of cb v]
      by (simp add: form_acts_def harmless_def told_page_def pending_of_def)
  next
    case (runs_offered f cb v)
    then show ?thesis using run [of f v cb] enabled [of cb v] False by (simp add: form_acts_def)
  next
    case (runs_pending f cb v)
    moreover have "pending_of s = Some (cb, v)" using runs_pending(3) c by (simp add: pending_of_def)
    ultimately show ?thesis using run [of f v cb] False by (simp add: form_acts_def)
  qed
qed

lemma psys_event_told:
  assumes g: "good False s" and can: "psys_can e s" and r: "\<not> renders e"
  shows "harmless s (psys_does differs e s) \<or> submits_item s (psys_does differs e s)"
proof (cases "\<exists>c ev. e = SForm ev \<and> ps_content s = Some c")
  case True
  then obtain c ev where "e = SForm ev" "ps_content s = Some c" by blast
  moreover from this have "form_offers s c ev" using can by (simp add: psys_can_def)
  ultimately show ?thesis using form_event_told [OF g] by (simp add: psys_does_def)
next
  case False
  have dirty: "harmless s (case notify_dirty differs (ct_form c) of
      (b, f) \<Rightarrow> (let s1 = s\<lparr>ps_content := Some (c\<lparr>ct_form := f\<rparr>)\<rparr>
                  in case b of None \<Rightarrow> s1 | Some d \<Rightarrow> panel_does (form_dirty_changes d) s1))" if "ps_content s = Some c" for c
  proof -
    obtain b f where n: "notify_dirty differs (ct_form c) = (b, f)" by (cases "notify_dirty differs (ct_form c)")
    let ?s = "s\<lparr>ps_content := Some (c\<lparr>ct_form := f\<rparr>)\<rparr>"
    have p: "pending_of ?s = pending_of s"
      using n that by (auto simp: pending_of_def notify_dirty_def Let_def split: if_splits)
    have "told_page s (panel_does (form_dirty_changes d) ?s) = []" for d by (simp add: told_page_def form_dirty_changes_def)
    moreover have "told_page s ?s = []" by (simp add: told_page_def)
    ultimately have "harmless s ?s" "harmless s (panel_does (form_dirty_changes d) ?s)" for d
      by (auto intro!: harmless_same simp: p)
    then show ?thesis using n by (simp add: Let_def split: option.split)
  qed
  have typed: "harmless s (s\<lparr>ps_content := Some (c\<lparr>ct_form := form_change v (ct_form c)\<rparr>)\<rparr>)"
    if "ps_content s = Some c" for c v
    by (rule harmless_same) (simp_all add: told_page_def pending_of_def form_change_def that)
  have "harmless s (psys_does differs e s)"
  proof (cases e)
    case SExited
    have "told_page s (content_gone s) = []" by (simp add: told_page_def)
    then show ?thesis unfolding SExited psys_does_def by (auto intro!: harmless_same simp: pending_of_def)
  next
    case (SForm ev)
    then show ?thesis using False harmless_refl by (simp add: psys_does_def split: option.split)
  next
    case (STyped v)
    then show ?thesis using typed harmless_refl by (simp add: psys_does_def split: option.split)
  next
    case SNotified
    then show ?thesis using dirty harmless_refl by (simp add: psys_does_def split: option.split)
  next
    case (SDiscard d)
    then show ?thesis using harmless_ops harmless_refl
      by (cases d) (simp_all add: psys_does_def split: option.split)
  next
    case (SUploader a)
    then show ?thesis using harmless_children harmless_refl by (simp add: psys_does_def split: option.split)
  next
    case (SArea a)
    then show ?thesis using harmless_children harmless_refl by (simp add: psys_does_def split: option.split area_variant.split)
  qed (use r harmless_ops in \<open>simp_all add: psys_does_def\<close>)
  then show ?thesis ..
qed

subsection \<open>The invariant of the system\<close>

definition item_muts :: "page \<Rightarrow> (nat \<times> page_mutation) list" where
  "item_muts pg = filter (\<lambda>x. is_item_save (snd x)) (muts pg)"

lemma pending_item_muts: "is_pending is_item_save pg \<longleftrightarrow> item_muts pg \<noteq> []"
  by (simp add: is_pending_def item_muts_def list_ex_iff filter_empty_conv)

definition update_valid :: "'a item_fields_scheme \<Rightarrow> bool" where
  "update_valid i \<longleftrightarrow>
     if_expense_date i \<noteq> [] \<and> 0 < if_amount i \<and> if_amount i < 2 ^ 53 \<and> if_category_id i \<noteq> [] \<and>
     1 \<le> length (if_description i) \<and> length (if_description i) \<le> 500"

fun item_request_ok :: "page_mutation \<Rightarrow> bool" where
  "item_request_ok (MCreateItem i) = False"
| "item_request_ok (MUpdateItem i) = update_valid i"
| "item_request_ok _ = True"

definition mode_of :: "page \<Rightarrow> panel_mode" where
  "mode_of pg = (case panelState pg of None \<Rightarrow> lastMode pg | Some m \<Rightarrow> m)"

definition items_ok :: "page \<Rightarrow> bool" where
  "items_ok pg \<longleftrightarrow> length (item_muts pg) \<le> 1 \<and> (\<forall>m \<in> requested pg. item_request_ok m) \<and>
     (\<forall>m. panelState pg = Some m \<longrightarrow> lastMode pg = m)"

definition pending_ok :: "bool \<Rightarrow> panel_props \<Rightarrow> psys \<Rightarrow> bool" where
  \<comment> \<open>the flag: the data has not changed since the question was asked\<close>
  "pending_ok b pr q \<longleftrightarrow>
     (\<forall>cb v. pending_of q = Some (cb, v) \<longrightarrow>
        item_valid v \<and> (b \<longrightarrow> formMode pr \<noteq> ViewMode) \<and> \<not> pp_isPending pr \<and>
        (\<forall>m fs. cb = PanelSubmit m fs \<longrightarrow> m = pp_mode pr))"

definition linked :: "bool \<Rightarrow> page_data \<Rightarrow> pgsys \<Rightarrow> bool" where
  "linked b pd s \<longleftrightarrow>
     good False (sp_psys s) \<and> ps_props (sp_psys s) = page_panel_props pd (sp_page s) \<and> items_ok (sp_page s) \<and>
     pending_ok b (page_panel_props pd (sp_page s)) (sp_psys s)"

definition drifts :: "page \<Rightarrow> page \<Rightarrow> bool" where
  \<comment> \<open>the mode stays, and no save of an item starts\<close>
  "drifts pg pg' \<longleftrightarrow> mode_of pg' = mode_of pg \<and> (item_muts pg' \<noteq> [] \<longrightarrow> item_muts pg \<noteq> [])"

lemma page_props [simp]:
  "pp_mode (page_panel_props pd pg) = mode_of pg" "pp_isPending (page_panel_props pd pg) = (item_muts pg \<noteq> [])"
  "pp_submits (page_panel_props pd pg)" "pp_open (page_panel_props pd pg) = (panelState pg \<noteq> None)"
  by (simp_all add: page_panel_props_def mode_of_def pending_item_muts Let_def)

lemma form_mode_of: "formMode (page_panel_props pd pg) = (if may_edit pd \<and> mode_of pg \<noteq> ViewMode then mode_of pg else ViewMode)"
  by (simp add: formMode_def canModify_def may_edit_def) (simp add: page_panel_props_def Let_def mode_of_def)

lemma pending_ok_drifts: "pending_ok b (page_panel_props pd pg) q \<Longrightarrow> drifts pg pg' \<Longrightarrow> pending_ok b (page_panel_props pd pg') q"
  by (auto simp: pending_ok_def drifts_def form_mode_of)

lemma pending_ok_none: "pending_of q = None \<Longrightarrow> pending_ok b pr q"
  by (simp add: pending_ok_def)

lemma linked_commit:
  assumes "good False (sp_psys s)" "items_ok pg"
    "formKey pg = formKey (sp_page s) \<Longrightarrow> pending_ok b (page_panel_props pd pg) (sp_psys s)"
  shows "linked b pd (page_commit pd pg s)"
proof (cases "formKey pg = formKey (sp_page s)")
  case True
  then show ?thesis
    using assms good_render [OF assms(1)] pending_renders [of "page_panel_props pd pg" "sp_psys s"]
    by (auto simp: linked_def page_commit_def Let_def pending_ok_def)
qed (use assms good_mounted in \<open>simp add: linked_def page_commit_def Let_def pending_ok_none\<close>)

lemma commit_page [simp]: "sp_page (page_commit pd pg s) = pg"
  by (simp add: page_commit_def Let_def)

lemma items_ok_same:
  assumes "items_ok pg" "item_muts pg' = item_muts pg \<or> item_muts pg' = []"
    "\<And>m. m \<in> requested pg' \<Longrightarrow> m \<in> requested pg \<or> item_request_ok m"
    "panelState pg' = None \<or> panelState pg' = Some (lastMode pg')"
  shows "items_ok pg'"
  using assms by (auto simp: items_ok_def)

lemma item_muts_fields [simp]:
  "item_muts (pout x pg) = item_muts pg" "item_muts (show_toast sev msg pg) = item_muts pg"
  "item_muts (start m pg) = item_muts pg @ (if is_item_save m then [(next_mut pg, m)] else [])"
  by (simp_all add: item_muts_def)

lemma item_muts_updates [simp]:
  "item_muts (pg\<lparr>dialogAction := a\<rparr>) = item_muts pg" "item_muts (pg\<lparr>workflowDialogAction := b\<rparr>) = item_muts pg"
  "item_muts (pg\<lparr>workflowPendingAction := c\<rparr>) = item_muts pg" "item_muts (pg\<lparr>deletingItemId := d\<rparr>) = item_muts pg"
  "item_muts (pg\<lparr>page_itemApiError := y\<rparr>) = item_muts pg" "item_muts (pg\<lparr>panelState := z\<rparr>) = item_muts pg"
  "item_muts (pg\<lparr>rejectDialogApiError := e\<rparr>) = item_muts pg" "item_muts (pg\<lparr>conflictDetected := v\<rparr>) = item_muts pg"
  "item_muts (pg\<lparr>selectedItem := i\<rparr>) = item_muts pg" "item_muts (pg\<lparr>formKey := k\<rparr>) = item_muts pg"
  "item_muts (pg\<lparr>lastMode := l\<rparr>) = item_muts pg"
  by (simp_all add: item_muts_def)

lemma mode_updates [simp]:
  "lastMode (pout x pg) = lastMode pg" "lastMode (show_toast sev msg pg) = lastMode pg" "lastMode (start m pg) = lastMode pg"
  "panelState (start m pg) = panelState pg" "formKey (start m pg) = formKey pg"
  "formKey (pout x pg) = formKey pg" "formKey (show_toast sev msg pg) = formKey pg"
  by (simp_all add: pout_def show_toast_def start_def)

definition steady :: "page \<Rightarrow> page \<Rightarrow> bool" where
  \<comment> \<open>an operation that leaves the panel alone or closes it, and saves no item\<close>
  "steady pg pg' \<longleftrightarrow>
     formKey pg' = formKey pg \<and> lastMode pg' = lastMode pg \<and> (panelState pg' = panelState pg \<or> panelState pg' = None) \<and>
     (item_muts pg' = item_muts pg \<or> item_muts pg' = []) \<and>
     (\<forall>m. m \<in> requested pg' \<longrightarrow> m \<in> requested pg \<or> item_request_ok m)"

lemma steady_items: "steady pg pg' \<Longrightarrow> items_ok pg \<Longrightarrow> items_ok pg' \<and> drifts pg pg'"
  by (auto simp: steady_def items_ok_def drifts_def mode_of_def split: option.splits)

lemma steady_confirmed:
  "steady pg (handleDialogConfirm pd pg)" "steady pg (handleWorkflowDialogConfirm pd x pg)"
  "steady pg (handleDeleteItemConfirm pd pg)" "steady pg (handleWorkflowDialogCancel pg)" "steady pg (panel_exited pg)"
  "steady pg (location_toast t pg)" "steady pg (pg\<lparr>dialogAction := None\<rparr>)" "steady pg (pg\<lparr>deletingItemId := None\<rparr>)"
  by (auto simp: steady_def handleDialogConfirm_def handleSubmitConfirm_def handleDeleteConfirm_def
      handleWorkflowDialogConfirm_def handleDeleteItemConfirm_def handleWorkflowDialogCancel_def panel_exited_def
      location_toast_def Let_def split: option.splits dialog_action.split workflow_action.split)

lemma steady_error: "steady pg (handleActionError err m pg)"
  by (cases err) (simp_all add: handleActionError_def steady_def)

lemma steady_trans: "steady a b \<Longrightarrow> steady b c \<Longrightarrow> steady a c"
  by (auto simp: steady_def)

lemma steady_callbacks: "steady pg (mutation_failed err m pg)" "steady pg (mutation_succeeded m pg)"
proof -
  have "steady pg (pg\<lparr>dialogAction := None\<rparr>)" by (simp add: steady_def)
  then show "steady pg (mutation_failed err m pg)"
    by (cases m) (auto intro: steady_trans steady_error, simp_all add: steady_def)
  show "steady pg (mutation_succeeded m pg)" by (cases m) (simp_all add: steady_def)
qed

lemma steady_settles:
  assumes "length (item_muts pg) \<le> 1"
  shows "steady pg (page_settles k res pg)"
proof (cases "map_of (muts pg) k")
  case (Some m)
  let ?pg = "pg\<lparr>muts := filter (\<lambda>x. fst x \<noteq> k) (muts pg)\<rparr>"
  have "item_muts ?pg = filter (\<lambda>x. fst x \<noteq> k) (item_muts pg)" by (simp add: item_muts_def conj_commute)
  then have "item_muts ?pg = item_muts pg \<or> item_muts ?pg = []"
    using assms by (cases "item_muts pg"; cases "tl (item_muts pg)") auto
  then have 0: "steady pg ?pg" by (auto simp: steady_def)
  have "steady p (foldl (\<lambda>t q. pout (PInvalidate q) t) p qs)" for p qs
  proof (induction qs arbitrary: p)
    case (Cons q qs)
    have "steady p (pout (PInvalidate q) p)" by (simp add: steady_def)
    with Cons show ?case by (auto intro: steady_trans)
  qed (simp add: steady_def)
  then have "steady ?pg (page_settles k res pg)"
    using Some steady_callbacks steady_trans by (auto simp: page_settles_def Let_def split: sum.split) blast
  then show ?thesis by (rule steady_trans [OF 0])
qed (simp add: page_settles_def steady_def)

subsection \<open>Events keep the invariant\<close>

lemma hears_quiet_call:
  assumes "no_submit x" "items_ok pg"
  shows "items_ok (page_hears pd x pg) \<and> formKey pg \<le> formKey (page_hears pd x pg) \<and>
    (formKey (page_hears pd x pg) = formKey pg \<longrightarrow> drifts pg (page_hears pd x pg))"
proof (cases "x = OSaveAndContinue")
  case True
  then show ?thesis using assms(2) by (auto simp: items_ok_def)
next
  case False
  then have "steady pg (page_hears pd x pg)" using assms(1) by (cases x) (simp_all add: steady_def)
  then show ?thesis using steady_items [OF _ assms(2)] by (simp add: steady_def)
qed

lemma drifts_trans: "drifts a b \<Longrightarrow> drifts b c \<Longrightarrow> drifts a c"
  by (auto simp: drifts_def)

lemma hears_quiet_calls:
  assumes "list_all no_submit xs" "items_ok pg"
  shows "items_ok (page_hears_all pd xs pg) \<and> formKey pg \<le> formKey (page_hears_all pd xs pg) \<and>
    (formKey (page_hears_all pd xs pg) = formKey pg \<longrightarrow> drifts pg (page_hears_all pd xs pg))"
  using assms
proof (induction xs arbitrary: pg)
  case Nil
  then show ?case by (simp add: page_hears_all_def drifts_def)
next
  case (Cons x xs)
  let ?p = "page_hears pd x pg"
  have x: "no_submit x" "list_all no_submit xs" using Cons.prems(1) by simp_all
  note 1 = hears_quiet_call [OF x(1) Cons.prems(2), of pd]
  then have "items_ok ?p" by blast
  note 2 = Cons.IH [OF x(2) this]
  have "page_hears_all pd (x # xs) pg = page_hears_all pd xs ?p" by (simp add: page_hears_all_def)
  then show ?case using 1 2 drifts_trans [of pg ?p "page_hears_all pd xs ?p"] by (auto simp: le_antisym)
qed

lemma hears_reach_page:
  "list_all no_submit xs \<Longrightarrow> page_reach lc pd pg \<Longrightarrow> page_reach lc pd (page_hears_all pd xs pg)"
proof (induction xs arbitrary: pg)
  case (Cons x xs)
  have "page_reach lc pd (page_hears pd x pg)"
    by (rule panel_says [OF Cons.prems(2)]) (use Cons.prems(1) in auto)
  with Cons show ?case by (simp add: page_hears_all_def)
qed (simp add: page_hears_all_def)

lemma linkedD:
  assumes "linked b pd s"
  shows "good False (sp_psys s)" "ps_props (sp_psys s) = page_panel_props pd (sp_page s)" "items_ok (sp_page s)"
    "pending_ok b (page_panel_props pd (sp_page s)) (sp_psys s)"
  using assms by (simp_all add: linked_def)

lemma linked_steady: "linked b pd s \<Longrightarrow> steady (sp_page s) pg \<Longrightarrow> linked b pd (page_commit pd pg s)"
  using steady_items pending_ok_drifts linkedD by (intro linked_commit) blast+

lemma warning_pending: "warning_inv f \<Longrightarrow> \<not> periodWarningDialogOpen f \<Longrightarrow> pendingSubmitCallback f = None"
  by (auto simp: warning_inv_def split: option.splits)

lemma uncovered_pending:
  assumes "good False (sp_psys s)" "uncovered s"
  shows "pending_of (sp_psys s) = None"
  using assms parts_okD(3) [of False "sp_psys s"] form_reach_inv warning_pending
  by (auto simp: good_def uncovered_def Let_def pending_of_def content_ok_def undisturbed_def dialogs_closed_def
      split: option.splits)

lemma items_action: "items_ok pg \<Longrightarrow> items_ok (action_event pd e pg)"
  by (cases e) (auto simp: action_event_def handleAddItem_def handleItemClick_def handleEditItem_def open_item_def Let_def
      intro: items_ok_same simp: items_ok_def requested_def pout_def item_muts_def)

lemma linked_report:
  assumes l: "linked b pd s" and u: "uncovered s"
  shows "linked b pd (report_acts pd e s)"
proof -
  let ?pg = "action_event pd e (sp_page s)"
  let ?mid = "?pg\<lparr>panelState := None, lastMode := lastMode (sp_page s)\<rparr>"
  note D = linkedD [OF l]
  have ok: "items_ok ?pg" by (rule items_action [OF D(3)])
  show ?thesis
  proof (cases "reopens e")
    case False
    have "linked b pd (page_commit pd ?pg s)"
      by (rule linked_commit [OF D(1) ok]) (simp add: pending_ok_none uncovered_pending [OF D(1) u])
    then show ?thesis using False by (simp add: report_acts_def Let_def)
  next
    case True
    have "items_ok ?mid" using ok by (simp add: items_ok_def)
    then have mid: "linked b pd (page_commit pd ?mid s)"
      by (rule linked_commit [OF D(1)]) (simp add: pending_ok_none uncovered_pending [OF D(1) u])
    have "formKey ?mid \<noteq> formKey (sp_page s)"
      using True by (cases e) (simp_all add: action_event_def handleItemClick_def handleEditItem_def open_item_def Let_def)
    then have "pending_of (sp_psys (page_commit pd ?mid s)) = None" by (simp add: page_commit_def Let_def)
    then have "linked b pd (page_commit pd ?pg (page_commit pd ?mid s))"
      by (intro linked_commit [OF linkedD(1) [OF mid] ok]) (simp add: pending_ok_none)
    then show ?thesis using True by (simp add: report_acts_def Let_def)
  qed
qed

lemma told_page_acts:
  "panel_acts differs pd e s =
     (let q = psys_does differs e (sp_psys s); pg = page_hears_all pd (told_page (sp_psys s) q) (sp_page s)
      in if e = SExited then page_commit pd (panel_exited pg) (s\<lparr>sp_psys := q\<rparr>)
         else if told_page (sp_psys s) q = [] then s\<lparr>sp_psys := q\<rparr> else page_commit pd pg (s\<lparr>sp_psys := q\<rparr>))"
  by (simp add: panel_acts_def told_page_def Let_def)

lemma newly_asked_ok:
  "newly_asked q cb v \<Longrightarrow> ps_props q = page_panel_props pd pg \<Longrightarrow>
     item_valid v \<and> formMode (page_panel_props pd pg) \<noteq> ViewMode \<and> item_muts pg = [] \<and>
     (\<forall>m fs. cb = PanelSubmit m fs \<longrightarrow> m = mode_of pg)"
  by (auto simp: newly_asked_def isSaveDisabled_def offered_callback_def)

lemma harmless_pending_ok:
  assumes "harmless q t" "pending_ok b (page_panel_props pd pg) q" "ps_props q = page_panel_props pd pg"
  shows "pending_ok b (page_panel_props pd pg) t"
  using assms newly_asked_ok [OF _ assms(3)] unfolding harmless_def pending_ok_def by (auto 4 3)

lemma good_event:
  assumes "good False q" "psys_can e q"
  shows "good False (psys_does differs e q)"
  by (rule good_step [where differs = differs, OF _ assms(1)]) (use assms(2) in \<open>auto simp: psys_step_def\<close>)

lemma submitted_item:
  assumes l: "linked b pd s" and sub: "submits_item (sp_psys s) t"
  obtains v where "told_page (sp_psys s) t = [OItemSubmit v]" "pending_of t = None" "item_valid v"
    "b \<longrightarrow> formMode (page_panel_props pd (sp_page s)) \<noteq> ViewMode" "item_muts (sp_page s) = []"
    "mode_of (sp_page s) \<noteq> AddMode"
proof -
  note D = linkedD [OF l]
  from sub obtain m fs v where v: "m \<noteq> AddMode" "told_page (sp_psys s) t = [OItemSubmit v]" "item_valid v" "pending_of t = None"
    and a: "pending_of (sp_psys s) = Some (PanelSubmit m fs, v) \<or> newly_asked (sp_psys s) (PanelSubmit m fs) v"
    unfolding submits_item_def by blast
  have "(b \<longrightarrow> formMode (page_panel_props pd (sp_page s)) \<noteq> ViewMode) \<and> item_muts (sp_page s) = [] \<and> m = mode_of (sp_page s)"
    using a newly_asked_ok [OF _ D(2)] D(4) by (auto simp: pending_ok_def)
  with v that show thesis by blast
qed

lemma item_submit_ok:
  assumes "items_ok pg" "item_valid v" "item_muts pg = []" "mode_of pg \<noteq> AddMode"
  shows "items_ok (handleItemSubmit pd v pg)"
proof -
  obtain n where n: "iv_amount v = Amount (of_int n)" "0 < n" "n < 2 ^ 53" "iv_expenseDate v \<noteq> []" "iv_categoryId v \<noteq> []"
    "1 \<le> length (iv_description v)" "length (iv_description v) \<le> 500"
    using assms(2) unfolding item_valid_iff by blast
  have "panelState pg \<noteq> Some AddMode" using assms(4) by (auto simp: mode_of_def)
  then show ?thesis
    using assms(1,3) n
    by (auto simp: handleItemSubmit_def Let_def items_ok_def update_valid_def amount_yen_def split: option.split)
qed

lemma linked_panel:
  assumes l: "linked b pd s" and can: "psys_can e (sp_psys s)" and r: "\<not> renders e"
  shows "linked b pd (panel_acts differs pd e s)"
proof -
  let ?q = "sp_psys s" and ?pg = "sp_page s"
  let ?t = "psys_does differs e ?q"
  let ?new = "told_page ?q ?t"
  let ?s = "s\<lparr>sp_psys := ?t\<rparr>"
  note D = linkedD [OF l]
  have g: "good False (sp_psys ?s)" using good_event [OF D(1) can] by simp
  from psys_event_told [OF D(1) can r] show ?thesis
  proof
    assume h: "harmless ?q ?t"
    have p: "pending_ok b (page_panel_props pd ?pg) ?t" by (rule harmless_pending_ok [OF h D(4,2)])
    have "list_all no_submit ?new" using h by (simp add: harmless_def)
    note c = hears_quiet_calls [OF this D(3), of pd]
    have same: "linked b pd ?s" using g p D h by (simp add: linked_def harmless_def)
    have com: "linked b pd (page_commit pd (page_hears_all pd ?new ?pg) ?s)"
      by (rule linked_commit [OF g]) (use c p pending_ok_drifts in auto)
    have "linked b pd (page_commit pd (panel_exited (page_hears_all pd ?new ?pg)) ?s)" if "e = SExited"
    proof -
      have "?new = []" using that by (simp add: psys_does_def told_page_def)
      then show ?thesis using linked_steady [OF same] steady_confirmed(5) by (simp add: page_hears_all_def)
    qed
    with same com show ?thesis unfolding told_page_acts Let_def by auto
  next
    assume "submits_item ?q ?t"
    then obtain v where v: "?new = [OItemSubmit v]" "pending_of ?t = None" "item_valid v" "item_muts ?pg = []"
      "mode_of ?pg \<noteq> AddMode"
      by (rule submitted_item [OF l])
    have "e \<noteq> SExited" using v(1) by (auto simp: psys_does_def told_page_def)
    moreover have "linked b pd (page_commit pd (handleItemSubmit pd v ?pg) ?s)"
      by (rule linked_commit [OF g item_submit_ok [OF D(3) v(3-5)]]) (simp add: pending_ok_none v(2))
    ultimately show ?thesis unfolding told_page_acts Let_def using v(1) by (simp add: page_hears_all_def)
  qed
qed

lemma old_settles_told: "list_all no_submit (fst (old_settles e p))"
proof -
  let ?p = "p\<lparr>apiToast := (False, TSuccess, [])\<rparr>"
  have "list_all no_submit (drop (length (outs ?p)) (outs (create_settles k res ?p)))"
    "list_all no_submit (drop (length (outs ?p)) (outs (upload_settles k res ?p)))" for k res
    using moves_log [OF moves_create_settles [where X = "{}"]] moves_log [OF moves_upload_settles [where X = "{}"]] by blast+
  then show ?thesis by (cases e) (simp_all add: old_settles_def Let_def)
qed

lemma linked_old:
  assumes "linked b pd s"
  shows "linked b pd (old_acts pd i e s)"
proof -
  obtain new q where o: "old_settles e (sp_old s ! i) = (new, q)" by (cases "old_settles e (sp_old s ! i)")
  then have "list_all no_submit new" using old_settles_told [of e "sp_old s ! i"] by simp
  note c = hears_quiet_calls [OF this linkedD(3) [OF assms], of pd]
  show ?thesis unfolding old_acts_def o
    by (simp, rule linked_commit) (use c linkedD [OF assms] pending_ok_drifts in auto)
qed

lemma linked_mounted: "linked b pd (mounted_pgsys pd)"
  using good_mounted
  by (simp add: linked_def mounted_pgsys_def pending_ok_none)
    (simp add: items_ok_def item_muts_def mounted_page_def requested_def)

lemma linked_step:
  assumes "sys_step lc pd differs s t" "linked b pd s"
  shows "linked b pd t"
proof -
  from assms(1) obtain e where can: "sys_can lc pd e s" and t: "t = sys_does differs pd e s" by (auto simp: sys_step_def)
  note st = linked_steady [OF assms(2)]
  have one: "length (item_muts (sp_page s)) \<le> 1" using linkedD(3) [OF assms(2)] by (simp add: items_ok_def)
  show ?thesis
  proof (cases e)
    case (YReport ev)
    then show ?thesis using can t linked_report [OF assms(2)] by (simp add: sys_can_def sys_does_def Let_def)
  next
    case (YPanel ev)
    then show ?thesis using can t linked_panel [OF assms(2)] by (simp add: sys_can_def sys_does_def Let_def)
  next
    case (YOld i ev)
    then show ?thesis using t linked_old [OF assms(2)] by (simp add: sys_does_def Let_def)
  next
    case (YSettled k res)
    then show ?thesis using t st steady_settles [OF one] by (simp add: sys_does_def Let_def)
  qed (use t st steady_confirmed in \<open>simp_all add: sys_does_def Let_def\<close>)
qed

interpretation ys: invariant_system "\<lambda>s. s = mounted_pgsys pd" "sys_step lc pd differs" "linked b pd" for lc pd differs b
  by unfold_locales (auto simp: linked_mounted intro: linked_step)

subsection \<open>A flag that stays\<close>

abbreviation uploading :: "psys \<Rightarrow> bool" where
  "uploading q \<equiv> internalIsUploading (ps_panel q)"

lemma told_add_mode:
  "adds_files v \<Longrightarrow> internalIsUploading (panel_hears_all (told v xs) p) = internalIsUploading p"
proof (induction xs arbitrary: p)
  case (Cons x xs)
  then show ?case by (cases x) simp_all
qed simp

lemma uploading_becomes:
  "adds_files (ct_variant c) \<Longrightarrow> uploading (uploader_becomes u c s) = uploading s"
  by (simp add: uploader_becomes_eq told_add_mode)

lemma uploading_drop: "uploading (drop_uploader s) = uploading s"
proof (cases "ps_content s")
  case (Some c)
  obtain xs a where d: "silent_calls xs" "drop_uploader s = s\<lparr>ps_panel := panel_hears_all xs (ps_panel s),
       ps_content := Some (c\<lparr>ct_uploader := None, ct_area := a\<rparr>)\<rparr>"
    by (rule drop_uploader_cases [OF Some])
  show ?thesis unfolding d(2) using hears_silent [OF d(1), of "ps_panel s"] by simp
qed (simp add: drop_uploader_def)

lemma uploading_unmount: "uploading (unmount_children s) = uploading s"
proof (cases "ps_content s")
  case (Some c)
  obtain xs c' where d: "silent_calls xs"
    "unmount_children s = s\<lparr>ps_panel := panel_hears_all xs (ps_panel s), ps_content := Some c'\<rparr>"
    by (rule unmount_children_cases [OF Some])
  show ?thesis unfolding d(2) using hears_silent [OF d(1), of "ps_panel s"] by simp
qed (simp add: unmount_children_def)

lemma uploading_fit: "(\<And>c. ps_content s = Some c \<Longrightarrow> adds_files (ct_variant c)) \<Longrightarrow> uploading (fit_uploader s) = uploading s"
  by (auto simp: fit_uploader_def uploading_drop uploading_becomes split: option.split)

definition add_mode :: "psys \<Rightarrow> bool" where
  "add_mode s \<longleftrightarrow> pp_mode (ps_props s) = AddMode"

lemma add_mode_variant: "add_mode s \<Longrightarrow> adds_files (panel_area_variant (ps_props s) p)"
  by (simp add: add_mode_def panel_area_variant_def attachmentArea_def adds_files_def)

lemma uploading_refit: "add_mode s \<Longrightarrow> uploading (refit s) = uploading s"
proof (cases "ps_content s")
  case (Some c)
  assume a: "add_mode s"
  let ?v = "panel_area_variant (ps_props s) (ps_panel s)"
  have "uploading (fit_uploader (place_area ?v (unmount_children s))) = uploading (place_area ?v (unmount_children s))"
    by (rule uploading_fit) (auto simp: place_area_def add_mode_variant [OF a])
  then have "uploading (fit_uploader (place_area ?v (unmount_children s))) = uploading s"
    by (simp add: place_area_def uploading_unmount)
  moreover have "uploading (fit_uploader s) = uploading s" if "ct_variant c = ?v"
    by (rule uploading_fit) (use Some that add_mode_variant [OF a] in auto)
  ultimately show ?thesis using Some by (simp add: refit_def Let_def)
qed (simp add: refit_def)

lemma uploading_panel_does:
  assumes "add_mode s" "panel_moves S X (ps_panel s) (f (ps_panel s))"
  shows "uploading (panel_does f s) = uploading s"
proof -
  let ?t = "foldl (\<lambda>t x. child_hears x t) (s\<lparr>ps_panel := f (ps_panel s)\<rparr>) (drop (length (outs (ps_panel s))) (outs (f (ps_panel s))))"
  have "add_mode ?t" using assms(1) by (simp add: add_mode_def)
  then have "uploading (refit ?t) = uploading ?t" by (rule uploading_refit)
  then show ?thesis using assms(2) by (simp add: panel_does_def Let_def children_keep_panel panel_moves_def)
qed

lemma uploading_renders:
  assumes "pp_mode pr = AddMode"
  shows "uploading (parent_renders pr s) = uploading s"
proof -
  let ?s1 = "s\<lparr>ps_props := pr\<rparr>"
  define s2 where "s2 = (if pp_open pr \<and> ps_content ?s1 = None then mount_content ?s1 else refit ?s1)"
  have a: "add_mode ?s1" using assms by (simp add: add_mode_def)
  have "adds_files (panel_area_variant pr p)" for p using add_mode_variant [OF a, of p] by simp
  then have "uploading (mount_content ?s1) = uploading ?s1"
    unfolding mount_content_def Let_def by (subst uploading_fit) auto
  then have s2: "uploading s2 = uploading s" using uploading_refit [OF a] by (simp add: s2_def)
  moreover have "add_mode s2" using assms by (simp add: s2_def add_mode_def)
  ultimately have "uploading (panel_does (open_effect pr) s2) = uploading s"
    using uploading_panel_does [where f = "open_effect pr", OF _ moves_quiet(2)] by simp
  moreover have "parent_renders pr s = (if pp_open (ps_props s) \<and> \<not> pp_open pr then panel_does (open_effect pr) s2 else s2)"
    by (simp only: parent_renders_def s2_def Let_def)
  ultimately show ?thesis using s2 by simp
qed

lemma uploading_form:
  assumes "add_mode s" "ps_content s = Some c"
  shows "uploading (form_acts e c s) = uploading s"
proof -
  have "uploading (foldl (\<lambda>t x. panel_does (panel_callback_runs (ps_props t) x) t) t xs) = uploading t"
    if "add_mode t" for t xs
    using that
  proof (induction xs arbitrary: t)
    case (Cons x xs)
    obtain cb v where x: "x = (cb, v)" by (cases x)
    let ?t = "panel_does (panel_callback_runs (ps_props t) x) t"
    have "uploading ?t = uploading t" unfolding x
      by (rule uploading_panel_does [where f = "panel_callback_runs (ps_props t) (cb, v)", OF Cons.prems moves_callback])
    moreover have "add_mode ?t" using Cons.prems by (simp add: add_mode_def)
    ultimately show ?case using Cons.IH [of ?t] by simp
  qed simp
  moreover have "add_mode (s\<lparr>ps_content := d\<rparr>)" for d using assms(1) by (simp add: add_mode_def)
  ultimately show ?thesis
    using uploading_panel_does [where f = "handleCloseAttempt (ps_props s)", OF assms(1) moves_close(1)] by (simp add: form_acts_def split: prod.split)
qed

lemma uploading_event:
  assumes g: "good False s" and can: "psys_can e s" and r: "\<not> renders e" and a: "add_mode s"
  shows "uploading (psys_does differs e s) = uploading s"
proof -
  have op: "uploading (panel_does handleDiscard s) = uploading s" "uploading (panel_does handleDiscardCancel s) = uploading s"
    "uploading (panel_does (handleCloseAttempt pr) s) = uploading s" "uploading (panel_does (create_settles k res) s) = uploading s"
    "uploading (panel_does (upload_settles k res) s) = uploading s" "uploading (panel_does (close_panel_toast w) s) = uploading s"
    for pr k res w
    by (rule uploading_panel_does [where S = False and X = "{}", OF a];
        simp only: moves_close moves_quiet moves_create_settles moves_upload_settles)+
  have v: "adds_files (ct_variant c)" if "ps_content s = Some c" for c
    using g that add_mode_variant [OF a, of "ps_panel s"] by (auto simp: good_def fitted_def)
  have dirty: "uploading (panel_does (form_dirty_changes d) (s\<lparr>ps_content := x\<rparr>)) = uploading s" for d x
    using uploading_panel_does [where f = "form_dirty_changes d" and s = "s\<lparr>ps_content := x\<rparr>", OF _ moves_quiet(3)] a
    by (simp add: add_mode_def)
  have up: "uploading (refit (uploader_becomes u c s)) = uploading s" if "ps_content s = Some c" for u c
  proof -
    have "add_mode (uploader_becomes u c s)" using a by (simp add: add_mode_def uploader_becomes_eq)
    then show ?thesis using uploading_refit uploading_becomes [OF v [OF that]] by simp
  qed
  show ?thesis
  proof (cases e)
    case SExited
    then show ?thesis by (simp add: psys_does_def content_gone_def uploading_unmount)
  next
    case (SForm ev)
    then show ?thesis using uploading_form [OF a] by (simp add: psys_does_def split: option.split)
  next
    case SNotified
    then show ?thesis using dirty by (simp add: psys_does_def Let_def split: option.split prod.split)
  next
    case (SDiscard d)
    then show ?thesis using op
      by (cases d) (simp_all add: psys_does_def split: option.split)
  next
    case (SUploader x)
    then show ?thesis using up by (simp add: psys_does_def split: option.split)
  next
    case (SArea x)
    then show ?thesis using v by (auto simp: psys_does_def adds_files_def split: option.split area_variant.split)
  qed (use r op in
      \<open>simp_all add: psys_does_def split: option.split\<close>)
qed

lemma commit_uploading:
  "formKey pg = formKey (sp_page s) \<Longrightarrow> mode_of pg = AddMode \<Longrightarrow>
     uploading (sp_psys (page_commit pd pg s)) = uploading (sp_psys s)"
  by (simp add: page_commit_def Let_def uploading_renders)

lemma page_keeps_add_mode:
  assumes "steady (sp_page s) pg" "items_ok (sp_page s)" "mode_of (sp_page s) = AddMode"
  shows "mode_of pg = AddMode \<and> uploading (sp_psys (page_commit pd pg s)) = uploading (sp_psys s)"
  using steady_items [OF assms(1,2)] assms commit_uploading [of pg s pd] by (simp add: drifts_def steady_def)

lemma add_mode_step:
  assumes st: "sys_step lc pd differs s t" and l: "linked b pd s" and k: "formKey (sp_page t) = formKey (sp_page s)"
    and m: "mode_of (sp_page s) = AddMode"
  shows "mode_of (sp_page t) = AddMode \<and> uploading (sp_psys t) = uploading (sp_psys s)"
proof -
  from st obtain e where can: "sys_can lc pd e s" and t: "t = sys_does differs pd e s" by (auto simp: sys_step_def)
  note D = linkedD [OF l]
  have one: "length (item_muts (sp_page s)) \<le> 1" using D(3) by (simp add: items_ok_def)
  have keep: "mode_of (sp_page (page_commit pd pg s)) = AddMode \<and> uploading (sp_psys (page_commit pd pg s)) = uploading (sp_psys s)"
    if "steady (sp_page s) pg" for pg
    using page_keeps_add_mode [OF that D(3) m] by simp
  have relay: "mode_of (page_hears_all pd new (sp_page s)) = AddMode \<and>
      uploading (sp_psys (page_commit pd (page_hears_all pd new (sp_page s)) u)) = uploading (sp_psys u)"
    if "list_all no_submit new" "sp_page u = sp_page s"
      "formKey (page_hears_all pd new (sp_page s)) = formKey (sp_page s)" for new u
    using hears_quiet_calls [OF that(1) D(3), of pd] that(2,3) m commit_uploading by (simp add: drifts_def)
  show ?thesis
  proof (cases e)
    case (YReport ev)
    let ?pg = "action_event pd ev (sp_page s)"
    have r: "\<not> reopens ev"
    proof
      assume "reopens ev"
      then have "formKey ?pg \<noteq> formKey (sp_page s)"
        by (cases ev) (simp_all add: action_event_def handleItemClick_def handleEditItem_def open_item_def Let_def)
      moreover have "sp_page t = ?pg" using YReport t \<open>reopens ev\<close> by (simp add: sys_does_def report_acts_def Let_def)
      ultimately show False using k by simp
    qed
    then have e: "t = page_commit pd ?pg s" using YReport t by (simp add: sys_does_def report_acts_def Let_def)
    moreover have "panelState ?pg = (if ev = EAddItem then Some AddMode else panelState (sp_page s))"
      "lastMode ?pg = (if ev = EAddItem then AddMode else lastMode (sp_page s))"
      using r by (cases ev; simp add: action_event_def handleAddItem_def)+
    then have "mode_of ?pg = AddMode" using m by (cases "panelState (sp_page s)") (simp_all add: mode_of_def)
    ultimately show ?thesis using commit_uploading [of ?pg s pd] k by simp
  next
    case (YPanel ev)
    let ?q = "psys_does differs ev (sp_psys s)"
    have c: "psys_can ev (sp_psys s)" "\<not> renders ev" using can YPanel by (simp_all add: sys_can_def)
    have "add_mode (sp_psys s)" using D(2) m by (simp add: add_mode_def)
    then have u: "uploading ?q = uploading (sp_psys s)" by (rule uploading_event [OF D(1) c])
    have h: "harmless (sp_psys s) ?q"
      using psys_event_told [OF D(1) c, of differs] submitted_item [OF l] m by blast
    then have new: "list_all no_submit (told_page (sp_psys s) ?q)" by (simp add: harmless_def)
    let ?s = "s\<lparr>sp_psys := ?q\<rparr>" and ?pg = "page_hears_all pd (told_page (sp_psys s) ?q) (sp_page s)"
    have t': "t = (if ev = SExited then page_commit pd (panel_exited ?pg) ?s
        else if told_page (sp_psys s) ?q = [] then ?s else page_commit pd ?pg ?s)"
      using YPanel t by (simp add: sys_does_def told_page_acts Let_def)
    have x: "mode_of (sp_page (page_commit pd (panel_exited (sp_page s)) ?s)) = AddMode \<and>
        uploading (sp_psys (page_commit pd (panel_exited (sp_page s)) ?s)) = uploading ?q"
      using page_keeps_add_mode [of ?s "panel_exited (sp_page s)"] steady_confirmed(5) D(3) m by simp
    have e: "ev = SExited \<Longrightarrow> ?pg = sp_page s" by (simp add: psys_does_def told_page_def page_hears_all_def)
    show ?thesis
    proof (cases "ev = SExited")
      case True
      then have "t = page_commit pd (panel_exited (sp_page s)) ?s" using t' e by simp
      then show ?thesis using x u by simp
    next
      case False
      show ?thesis
      proof (cases "told_page (sp_psys s) ?q = []")
        case True
        then show ?thesis using t' False u m by simp
      next
        case nn: False
        then have tt: "t = page_commit pd ?pg ?s" using t' False by simp
        then have "formKey ?pg = formKey (sp_page s)" using k by simp
        then show ?thesis using relay [OF new, of ?s] u by (simp add: tt)
      qed
    qed
  next
    case (YOld i ev)
    obtain new q where o: "old_settles ev (sp_old s ! i) = (new, q)" by (cases "old_settles ev (sp_old s ! i)")
    then have n: "list_all no_submit new" using old_settles_told [of ev "sp_old s ! i"] by simp
    have "t = page_commit pd (page_hears_all pd new (sp_page s)) (s\<lparr>sp_old := (sp_old s)[i := q]\<rparr>)"
      using YOld t o by (simp add: sys_does_def old_acts_def)
    then show ?thesis using relay [OF n, of "s\<lparr>sp_old := (sp_old s)[i := q]\<rparr>"] k by simp
  next
    case (YSettled j res)
    then show ?thesis using t keep [OF steady_settles [OF one]] by (simp add: sys_does_def Let_def)
  qed (use t keep [OF steady_confirmed(1)] keep [OF steady_confirmed(2)] keep [OF steady_confirmed(3)]
      keep [OF steady_confirmed(4)] keep [OF steady_confirmed(6)] keep [OF steady_confirmed(7)] keep [OF steady_confirmed(8)]
      in \<open>simp_all add: sys_does_def Let_def\<close>)
qed

subsection \<open>The page within the system\<close>

lemma page_reach_step:
  assumes st: "sys_step lc pd differs s t" and l: "linked True pd s" and r: "page_reach lc pd (sp_page s)"
  shows "page_reach lc pd (sp_page t)"
proof -
  from st obtain e where can: "sys_can lc pd e s" and t: "t = sys_does differs pd e s" by (auto simp: sys_step_def)
  note D = linkedD [OF l]
  show ?thesis
  proof (cases e)
    case (YReport ev)
    then have "page_reach lc pd (action_event pd ev (sp_page s))"
      using can by (intro page_action [OF r]) (simp add: sys_can_def Let_def)
    then show ?thesis using t YReport by (simp add: sys_does_def report_acts_def Let_def)
  next
    case (YActionConfirmed d x)
    then show ?thesis using can t action_confirmed [OF r, of x d] by (simp add: sys_can_def sys_does_def Let_def)
  next
    case (YActionCancelled d)
    then show ?thesis using can t action_cancelled [OF r, of d] by (simp add: sys_can_def sys_does_def Let_def)
  next
    case (YDecisionConfirmed d x)
    then show ?thesis using can t decision_confirmed [OF r, of x d] by (simp add: sys_can_def sys_does_def Let_def)
  next
    case (YDecisionCancelled d)
    then show ?thesis using can t decision_cancelled [OF r, of d] by (simp add: sys_can_def sys_does_def Let_def)
  next
    case (YDeletionConfirmed d)
    then show ?thesis using t deletion_confirmed [OF r] by (simp add: sys_does_def Let_def)
  next
    case (YDeletionCancelled d)
    then show ?thesis using t deletion_cancelled [OF r] by (simp add: sys_does_def Let_def)
  next
    case (YSettled k res)
    then show ?thesis using t mutation_settles [OF r] by (simp add: sys_does_def Let_def)
  next
    case (YTold x)
    then show ?thesis using t told [OF r] by (simp add: sys_does_def Let_def)
  next
    case (YPanel ev)
    let ?q = "psys_does differs ev (sp_psys s)"
    have c: "psys_can ev (sp_psys s)" "\<not> renders ev" using can YPanel by (simp_all add: sys_can_def)
    have "page_reach lc pd (page_hears_all pd (told_page (sp_psys s) ?q) (sp_page s))"
      using psys_event_told [OF D(1) c, of differs]
    proof
      assume "submits_item (sp_psys s) ?q"
      then obtain v where v: "told_page (sp_psys s) ?q = [OItemSubmit v]" "True \<longrightarrow> formMode (page_panel_props pd (sp_page s)) \<noteq> ViewMode"
        "item_muts (sp_page s) = []"
        by (rule submitted_item [OF l])
      have "page_reach lc pd (page_hears pd (OItemSubmit v) (sp_page s))"
        by (rule panel_says [OF r]) (use v in auto)
      then show ?thesis using v(1) by (simp add: page_hears_all_def)
    qed (use hears_reach_page r in \<open>simp add: harmless_def\<close>)
    then show ?thesis using t YPanel r panel_gone by (auto simp: sys_does_def told_page_acts Let_def)
  next
    case (YOld i ev)
    obtain new q where o: "old_settles ev (sp_old s ! i) = (new, q)" by (cases "old_settles ev (sp_old s ! i)")
    then have n: "list_all no_submit new" using old_settles_told [of ev "sp_old s ! i"] by simp
    have "t = page_commit pd (page_hears_all pd new (sp_page s)) (s\<lparr>sp_old := (sp_old s)[i := q]\<rparr>)"
      using YOld t o by (simp add: sys_does_def old_acts_def)
    then show ?thesis using hears_reach_page [OF n r] by simp
  qed
qed

lemma sys_reach_page: "sys_reach lc pd differs s \<Longrightarrow> linked True pd s \<and> page_reach lc pd (sp_page s)"
proof (induction rule: reach.induct)
  case (reach_init s)
  then show ?case using linked_mounted page_mounted by (auto simp: mounted_pgsys_def)
next
  case (reach_step s t)
  then show ?case using linked_step page_reach_step by blast
qed

subsection \<open>Demonstration runs\<close>

definition demo_format :: locale_format where
  "demo_format = \<lparr>lc_dateTime = (\<lambda>x. x), lc_date = (\<lambda>x. x), lc_number = show_int\<rparr>"

abbreviation demo_draft :: page_data where
  "demo_draft \<equiv> demo_page_data ''u1'' Member Draft"

definition demo_saved_while_uploading :: "sys_event list" where
  \<comment> \<open>an item is saved, a file is added while the save runs, and the save closes the panel before the upload ends\<close>
  "demo_saved_while_uploading =
     [YReport (EEditItem ''i1''), YPanel (SForm EFormSubmit), YPanel (SUploader (UChoose [demo_file 3])),
      YPanel (SUploader UStarted), YSettled 0 (Inr JNull), YPanel SExited, YReport EAddItem]"

definition demo_system :: "sys_event list \<Rightarrow> pgsys" where
  "demo_system es = the (sys_run demo_format demo_draft (\<noteq>) es (mounted_pgsys demo_draft))"

lemma demo_system_reach:
  assumes "sys_run demo_format demo_draft (\<noteq>) es (mounted_pgsys demo_draft) \<noteq> None"
  shows "sys_reach demo_format demo_draft (\<noteq>) (demo_system es)"
  using sys_run_reach [OF reach_init] assms unfolding demo_system_def by (metis option.collapse)

lemma demo_system_runs:
  "sys_run demo_format demo_draft (\<noteq>) (take 2 demo_saved_while_uploading) (mounted_pgsys demo_draft) \<noteq> None"
  "sys_run demo_format demo_draft (\<noteq>) demo_saved_while_uploading (mounted_pgsys demo_draft) \<noteq> None"
  by code_simp+

lemma demo_blocked_facts:
  "internalIsUploading (ps_panel (sp_psys (demo_system demo_saved_while_uploading)))"
  "panelState (sp_page (demo_system demo_saved_while_uploading)) = Some AddMode"
  "muts (sp_page (demo_system demo_saved_while_uploading)) = [] \<and>
   runs (ps_panel (sp_psys (demo_system demo_saved_while_uploading))) = [] \<and>
   map_option (\<lambda>c. map_option (\<lambda>u. in_flight (up_hook u) = []) (ct_uploader c))
     (ps_content (sp_psys (demo_system demo_saved_while_uploading))) = Some (Some True)"
  by code_simp+

lemma demo_updating_fact:
  "map (\<lambda>m. case m of MUpdateItem i \<Rightarrow> ui_itemId i | _ \<Rightarrow> []) (map snd (muts (sp_page (demo_system (take 2 demo_saved_while_uploading))))) = [''i1'']"
  by code_simp

subsection \<open>Properties\<close>

text \<open>
  C4. The page with its panel refines the page on its own: whatever the composed panel does, the page only
  ever takes steps of its own system, so every request it starts is one the user is permitted; and the
  panel that the user sees is a reachable state of the panel, rendered with the properties of the page's
  current state.
\<close>

theorem page_system_refines_page:
  assumes "sys_reach lc pd differs s"
  shows "page_reach lc pd (sp_page s) \<and> panel_reach False (ps_panel (sp_psys s)) \<and>
    ps_props (sp_psys s) = page_panel_props pd (sp_page s) \<and>
    (\<forall>m. PMutate m \<in> set (page_outs (sp_page s)) \<longrightarrow> permitted pd m)"
proof -
  have l: "linked True pd s" and r: "page_reach lc pd (sp_page s)" using sys_reach_page [OF assms] by blast+
  have "panel_reach False (ps_panel (sp_psys s))"
    using linkedD(1) [OF l] parts_okD(1) by (auto simp: good_def)
  then show ?thesis using r linkedD(2) [OF l] page_reach_inv [OF r] by (auto simp: page_inv_def requested_def)
qed

theorem page_system_refines_page_witness:
  "panel_reach False (ps_panel (sp_psys (demo_system demo_saved_while_uploading)))"
  using page_system_refines_page [OF demo_system_reach [OF demo_system_runs(2)]] by blast

text \<open>
  Saves of items are single and valid: in every reachable state of the page with its panel at most one
  save of an item by the page is in flight, each update it has requested carries a date, a category, a
  positive amount below 2^53 and a description of 1 to 500 characters, and the page itself never requests
  the creation of an item, which is the panel's business.
\<close>

theorem item_saves_are_single_and_valid:
  assumes "sys_reach lc pd differs s"
  shows "length (filter (\<lambda>x. is_item_save (snd x)) (muts (sp_page s))) \<le> 1 \<and>
    (\<forall>i. PMutate (MCreateItem i) \<notin> set (page_outs (sp_page s))) \<and>
    (\<forall>i. PMutate (MUpdateItem i) \<in> set (page_outs (sp_page s)) \<longrightarrow>
       if_expense_date i \<noteq> [] \<and> 0 < if_amount i \<and> if_amount i < 2 ^ 53 \<and> if_category_id i \<noteq> [] \<and>
       1 \<le> length (if_description i) \<and> length (if_description i) \<le> 500)"
proof -
  have "items_ok (sp_page s)" using sys_reach_page [OF assms] linkedD(3) by blast
  then have "length (item_muts (sp_page s)) \<le> 1" and m: "\<And>m. m \<in> requested (sp_page s) \<Longrightarrow> item_request_ok m"
    by (simp_all add: items_ok_def)
  then show ?thesis using m [of "MCreateItem i" for i] m [of "MUpdateItem i" for i]
    by (auto simp: requested_def item_muts_def update_valid_def)
qed

theorem item_saves_are_single_and_valid_witness:
  "\<exists>k i. muts (sp_page (demo_system (take 2 demo_saved_while_uploading))) = [(k, MUpdateItem i)] \<and> ui_itemId i = ''i1''"
proof -
  let ?s = "demo_system (take 2 demo_saved_while_uploading)"
  have "length (filter (\<lambda>x. is_item_save (snd x)) (muts (sp_page ?s))) \<le> 1"
    using item_saves_are_single_and_valid [OF demo_system_reach [OF demo_system_runs(1)]] by blast
  moreover obtain k m where "muts (sp_page ?s) = [(k, m)]" "(case m of MUpdateItem i \<Rightarrow> ui_itemId i | _ \<Rightarrow> []) = ''i1''"
    using demo_updating_fact by (cases "muts (sp_page ?s)") auto
  ultimately show ?thesis by (cases m) auto
qed

text \<open>
  C12. An upload that is cut off by its panel closing blocks the creation of items: once the flag of a
  running upload is left behind in a panel that is, or is opened again, for a new item, no event brings it
  back, and as long as the page does not mount a new panel, neither save button can ever be clicked. Such a
  state is reached by saving an item and adding a file to it while the save runs.
\<close>

theorem upload_left_behind_blocks_saving:
  assumes "sys_reach lc pd differs s" and "internalIsUploading (ps_panel (sp_psys s))"
    and "pp_mode (page_panel_props pd (sp_page s)) = AddMode"
    and "reach (\<lambda>x. x = s) (\<lambda>a b. sys_step lc pd differs a b \<and> formKey (sp_page b) = formKey (sp_page a)) t"
  shows "internalIsUploading (ps_panel (sp_psys t)) \<and> \<not> sys_can lc pd (YPanel (SForm EFormSubmit)) t \<and>
    \<not> sys_can lc pd (YPanel (SForm ESaveAndContinue)) t"
proof -
  have "linked True pd t \<and> mode_of (sp_page t) = AddMode \<and> uploading (sp_psys t)"
    using assms(4)
  proof (induction rule: reach.induct)
    case (reach_init x)
    then show ?case using sys_reach_page [OF assms(1)] assms(2,3) by simp
  next
    case (reach_step a b)
    then show ?case using linked_step add_mode_step by blast
  qed
  then have "internalIsUploading (ps_panel (sp_psys t))" by blast
  moreover from this have "\<not> psys_can (SForm EFormSubmit) (sp_psys t)" "\<not> psys_can (SForm ESaveAndContinue) (sp_psys t)"
    using offers_enabled(1) by (auto simp: psys_can_def isSaveDisabled_def split: option.splits)
  ultimately show ?thesis by (simp add: sys_can_def)
qed

theorem upload_left_behind_blocks_saving_witness:
  "let s = demo_system demo_saved_while_uploading in
   panelState (sp_page s) = Some AddMode \<and> muts (sp_page s) = [] \<and> runs (ps_panel (sp_psys s)) = [] \<and>
   map_option (\<lambda>c. map_option (\<lambda>u. in_flight (up_hook u) = []) (ct_uploader c)) (ps_content (sp_psys s)) = Some (Some True) \<and>
   \<not> sys_can demo_format demo_draft (YPanel (SForm EFormSubmit)) s"
proof -
  let ?s = "demo_system demo_saved_while_uploading"
  have "pp_mode (page_panel_props demo_draft (sp_page ?s)) = AddMode" using demo_blocked_facts(2) by (simp add: mode_of_def)
  moreover have "reach (\<lambda>x. x = ?s) (\<lambda>a b. sys_step demo_format demo_draft (\<noteq>) a b \<and> formKey (sp_page b) = formKey (sp_page a)) ?s"
    by (rule reach_init) simp
  ultimately show ?thesis
    using upload_left_behind_blocks_saving [OF demo_system_reach [OF demo_system_runs(2)] demo_blocked_facts(1)]
      demo_blocked_facts(2,3) unfolding Let_def by blast
qed

end
