(* ===== verification/Page_Live.thy ===== *)
theory Page_Live
  imports Page_System
begin

text \<open>
  The detail page with its panel while the data of its queries changes
  (frontend/src/pages/reports/ReportDetailPage.tsx with hooks/useReports.ts and hooks/useItems.ts). A mutation that
  succeeds invalidates the query of the report; until the report has been fetched again the page goes on
  with the data it has, and a delivery renders page and panel anew, whatever is open. The route has no key,
  so the page also stays mounted, with all its state, when the address changes from one report to another -
  by the link to the report it refers to, or by going back and forward in the history: then data from the
  cache is rendered at once, and while other data is being loaded a skeleton takes the place of what the
  page renders, so that the panel comes back as a new one. What a delivery contains is up to the server.
\<close>

subsection \<open>Deliveries\<close>

record live =
  lv_data :: page_data
  lv_seen :: "page_data list"
  lv_sys :: pgsys

datatype live_event =
    LSys sys_event
  | LData page_data   \<comment> \<open>other data without loading: fetched again, or of a report in the cache\<close>
  | LLoaded page_data \<comment> \<open>the data of another report, after the skeleton\<close>

definition page_returns :: "page_data \<Rightarrow> pgsys \<Rightarrow> pgsys" where
  \<comment> \<open>the skeleton has unmounted the panel; the state of the page is still there\<close>
  "page_returns pd s =
     s\<lparr>sp_psys := mounted_psys (page_panel_props pd (sp_page s)), sp_old := sp_old s @ [ps_panel (content_gone (sp_psys s))]\<rparr>"

definition mounted_live :: "page_data \<Rightarrow> live" where
  "mounted_live pd = \<lparr>lv_data = pd, lv_seen = [pd], lv_sys = mounted_pgsys pd\<rparr>"

definition live_can :: "locale_format \<Rightarrow> live_event \<Rightarrow> live \<Rightarrow> bool" where
  "live_can lc e s =
     (case e of
        LSys ev \<Rightarrow> sys_can lc (lv_data s) ev (lv_sys s)
      | LData pd \<Rightarrow> True
      | LLoaded pd \<Rightarrow> rd_id (pd_report pd) \<noteq> rd_id (pd_report (lv_data s)))"

definition live_does :: "(item_values \<Rightarrow> item_values \<Rightarrow> bool) \<Rightarrow> live_event \<Rightarrow> live \<Rightarrow> live" where
  "live_does differs e s =
     (case e of
        LSys ev \<Rightarrow> s\<lparr>lv_sys := sys_does differs (lv_data s) ev (lv_sys s)\<rparr>
      | LData pd \<Rightarrow>
          s\<lparr>lv_data := pd, lv_seen := lv_seen s @ [pd], lv_sys := page_commit pd (sp_page (lv_sys s)) (lv_sys s)\<rparr>
      | LLoaded pd \<Rightarrow> s\<lparr>lv_data := pd, lv_seen := lv_seen s @ [pd], lv_sys := page_returns pd (lv_sys s)\<rparr>)"

definition live_step :: "locale_format \<Rightarrow> (item_values \<Rightarrow> item_values \<Rightarrow> bool) \<Rightarrow> live \<Rightarrow> live \<Rightarrow> bool" where
  "live_step lc differs s t \<longleftrightarrow> (\<exists>e. live_can lc e s \<and> t = live_does differs e s)"

abbreviation live_reach :: "locale_format \<Rightarrow> (item_values \<Rightarrow> item_values \<Rightarrow> bool) \<Rightarrow> live \<Rightarrow> bool" where
  "live_reach lc differs \<equiv> reach (\<lambda>s. \<exists>pd. s = mounted_live pd) (live_step lc differs)"

fun live_run :: "locale_format \<Rightarrow> (item_values \<Rightarrow> item_values \<Rightarrow> bool) \<Rightarrow> live_event list \<Rightarrow> live \<Rightarrow> live option" where
  "live_run lc differs [] s = Some s"
| "live_run lc differs (e # es) s =
     (if live_can lc e s then live_run lc differs es (live_does differs e s) else None)"

abbreviation live_page :: "live \<Rightarrow> page" where
  "live_page s \<equiv> sp_page (lv_sys s)"

lemma live_run_reach: "live_reach lc differs s \<Longrightarrow> live_run lc differs es s = Some t \<Longrightarrow> live_reach lc differs t"
proof (induction es arbitrary: s)
  case (Cons e es)
  then have "live_step lc differs s (live_does differs e s)" by (auto simp: live_step_def split: if_splits)
  with Cons show ?case by (auto intro: reach_step split: if_splits)
qed simp

subsection \<open>Which versions a request carries\<close>

fun fresh :: "page_data \<Rightarrow> expense_item option \<Rightarrow> page_mutation \<Rightarrow> bool" where
  \<comment> \<open>a request that is made with the data \<open>pd\<close> while the item \<open>sel\<close> is selected\<close>
  "fresh pd sel (MSubmit v) \<longleftrightarrow> v = version_of pd"
| "fresh pd sel (MDelete i) \<longleftrightarrow> i = rd_id (pd_report pd)"
| "fresh pd sel (MApprove v) \<longleftrightarrow> versioned_input.truncate v = version_of pd"
| "fresh pd sel (MReject v) \<longleftrightarrow> versioned_input.truncate v = version_of pd"
| "fresh pd sel (MPay v) \<longleftrightarrow> v = version_of pd"
| "fresh pd sel (MCreateItem i) \<longleftrightarrow> ci_reportId i = rd_id (pd_report pd)"
| "fresh pd sel (MUpdateItem i) \<longleftrightarrow> ui_reportId i = rd_id (pd_report pd) \<and>
     (\<exists>it. (sel = Some it \<or> it \<in> set (rd_items (pd_report pd))) \<and> ui_itemId i = it_id it \<and> ui_updated_at i = it_updated_at it)"
| "fresh pd sel (MDeleteItem x) \<longleftrightarrow> fst x = rd_id (pd_report pd)"

definition page_moves :: "page_data \<Rightarrow> page \<Rightarrow> page \<Rightarrow> bool" where
  "page_moves pd pg pg' \<longleftrightarrow>
     (\<forall>it. selectedItem pg' = Some it \<longrightarrow> selectedItem pg = Some it \<or> it \<in> set (rd_items (pd_report pd))) \<and>
     (\<forall>m \<in> requested pg'. m \<in> requested pg \<or> fresh pd (selectedItem pg) m)"

lemma page_moves_refl: "page_moves pd pg pg"
  by (simp add: page_moves_def)

lemma fresh_wider:
  "fresh pd sel m \<Longrightarrow> (\<And>it. sel = Some it \<Longrightarrow> sel' = Some it \<or> it \<in> set (rd_items (pd_report pd))) \<Longrightarrow> fresh pd sel' m"
  by (cases m) auto

lemma page_moves_trans: "page_moves pd a b \<Longrightarrow> page_moves pd b c \<Longrightarrow> page_moves pd a c"
  unfolding page_moves_def using fresh_wider by meson

lemma settled_moves: "settled_from pg pg' \<Longrightarrow> page_moves pd pg pg'"
  by (auto simp: settled_from_def page_moves_def)

lemma fields_moves:
  "selectedItem pg' \<in> {selectedItem pg, None} \<Longrightarrow> requested pg' = requested pg \<Longrightarrow> page_moves pd pg pg'"
  by (auto simp: page_moves_def)

lemma submit_moves: "page_moves pd pg (handleItemSubmit pd v pg)"
  by (auto simp: page_moves_def handleItemSubmit_def Let_def split: option.split)

lemma hears_moves: "page_moves pd pg (page_hears pd x pg)"
  by (cases x) (simp_all add: submit_moves fields_moves)

lemma hears_all_moves: "page_moves pd pg (page_hears_all pd xs pg)"
proof (induction xs arbitrary: pg)
  case (Cons x xs)
  have "page_hears_all pd (x # xs) pg = page_hears_all pd xs (page_hears pd x pg)" by (simp add: page_hears_all_def)
  then show ?case using page_moves_trans [OF hears_moves Cons] by simp
qed (simp add: page_hears_all_def page_moves_refl)

lemma action_moves: "page_moves pd pg (action_event pd e pg)"
  by (cases e) (auto simp: page_moves_def action_event_def handleAddItem_def handleItemClick_def handleEditItem_def
      open_item_def Let_def find_Some_iff)

lemma confirmed_moves:
  "page_moves pd pg (handleDialogConfirm pd pg)" "page_moves pd pg (handleWorkflowDialogConfirm pd x pg)"
  "page_moves pd pg (handleDeleteItemConfirm pd pg)" "page_moves pd pg (handleWorkflowDialogCancel pg)"
  "page_moves pd pg (panel_exited pg)" "page_moves pd pg (location_toast t pg)"
  "page_moves pd pg (pg\<lparr>dialogAction := None\<rparr>)" "page_moves pd pg (pg\<lparr>deletingItemId := None\<rparr>)"
  by (auto simp: page_moves_def handleDialogConfirm_def handleSubmitConfirm_def handleDeleteConfirm_def
      handleWorkflowDialogConfirm_def handleDeleteItemConfirm_def handleWorkflowDialogCancel_def panel_exited_def
      location_toast_def Let_def version_of_def versioned_input.defs split: option.splits dialog_action.split workflow_action.split)

lemma sys_moves: "page_moves pd (sp_page s) (sp_page (sys_does differs pd e s))"
proof (cases e)
  case (YReport ev)
  then show ?thesis by (simp add: sys_does_def report_acts_def Let_def action_moves)
next
  case (YSettled k res)
  then show ?thesis using settled_moves [OF settled_page_settles] by (simp add: sys_does_def Let_def)
next
  case (YPanel ev)
  then show ?thesis
    using hears_all_moves [of pd "sp_page s"] page_moves_trans [OF hears_all_moves confirmed_moves(5), of pd "sp_page s"] page_moves_refl
    by (simp add: sys_does_def told_page_acts Let_def)
next
  case (YOld i ev)
  then show ?thesis using hears_all_moves by (simp add: sys_does_def old_acts_def Let_def split: prod.split)
qed (simp_all add: sys_does_def Let_def confirmed_moves)

fun version_seen :: "page_data list \<Rightarrow> page_mutation \<Rightarrow> bool" where
  \<comment> \<open>what identifies the version is from one of the deliveries\<close>
  "version_seen ds (MSubmit v) \<longleftrightarrow> (\<exists>d \<in> set ds. v = version_of d)"
| "version_seen ds (MDelete i) \<longleftrightarrow> (\<exists>d \<in> set ds. i = rd_id (pd_report d))"
| "version_seen ds (MApprove v) \<longleftrightarrow> (\<exists>d \<in> set ds. versioned_input.truncate v = version_of d)"
| "version_seen ds (MReject v) \<longleftrightarrow> (\<exists>d \<in> set ds. versioned_input.truncate v = version_of d)"
| "version_seen ds (MPay v) \<longleftrightarrow> (\<exists>d \<in> set ds. v = version_of d)"
| "version_seen ds (MCreateItem i) \<longleftrightarrow> (\<exists>d \<in> set ds. ci_reportId i = rd_id (pd_report d))"
| "version_seen ds (MUpdateItem i) \<longleftrightarrow>
     (\<exists>d \<in> set ds. ui_reportId i = rd_id (pd_report d)) \<and>
     (\<exists>d \<in> set ds. \<exists>it \<in> set (rd_items (pd_report d)). ui_itemId i = it_id it \<and> ui_updated_at i = it_updated_at it)"
| "version_seen ds (MDeleteItem x) \<longleftrightarrow> (\<exists>d \<in> set ds. fst x = rd_id (pd_report d))"

fun delivers :: "live_event \<Rightarrow> bool" where
  "delivers (LData pd) = True"
| "delivers (LLoaded pd) = True"
| "delivers (LSys ev) = False"

lemma version_seen_mono: "version_seen ds m \<Longrightarrow> set ds \<subseteq> set es \<Longrightarrow> version_seen es m"
  by (cases m) auto

definition selection_seen :: "live \<Rightarrow> bool" where
  "selection_seen s \<longleftrightarrow>
     (\<forall>it. selectedItem (live_page s) = Some it \<longrightarrow> (\<exists>d \<in> set (lv_seen s). it \<in> set (rd_items (pd_report d))))"

definition live_inv :: "live \<Rightarrow> bool" where
  "live_inv s \<longleftrightarrow>
     linked False (lv_data s) (lv_sys s) \<and> lv_data s \<in> set (lv_seen s) \<and> selection_seen s \<and>
     (\<forall>m \<in> requested (live_page s). version_seen (lv_seen s) m)"

lemma fresh_seen:
  assumes "lv_data s \<in> set (lv_seen s)" "selection_seen s" "fresh (lv_data s) (selectedItem (live_page s)) m"
  shows "version_seen (lv_seen s) m"
proof (cases m)
  case (MUpdateItem i)
  have "\<exists>d \<in> set (lv_seen s). it \<in> set (rd_items (pd_report d))"
    if "selectedItem (live_page s) = Some it \<or> it \<in> set (rd_items (pd_report (lv_data s)))" for it
    using that assms(1,2) by (auto simp: selection_seen_def)
  then show ?thesis using assms(1,3) unfolding MUpdateItem fresh.simps version_seen.simps by blast
qed (use assms in auto)

lemma delivery_linked: "linked False pd s \<Longrightarrow> linked False pd' (page_commit pd' (sp_page s) s)"
  by (rule linked_commit) (use linkedD in \<open>auto simp: pending_ok_def\<close>)

lemma returns_linked: "linked False pd s \<Longrightarrow> linked False pd' (page_returns pd' s)"
  using good_mounted by (simp add: linked_def page_returns_def pending_ok_none)

lemma live_inv_sys:
  assumes "live_inv s" "sys_can lc (lv_data s) ev (lv_sys s)"
  shows "live_inv (live_does differs (LSys ev) s)"
proof -
  let ?t = "live_does differs (LSys ev) s"
  have I: "linked False (lv_data s) (lv_sys s)" "lv_data s \<in> set (lv_seen s)" "selection_seen s"
    "\<And>m. m \<in> requested (live_page s) \<Longrightarrow> version_seen (lv_seen s) m"
    using assms(1) by (simp_all add: live_inv_def)
  have t: "lv_data ?t = lv_data s" "lv_seen ?t = lv_seen s" by (simp_all add: live_does_def)
  have "sys_step lc (lv_data s) differs (lv_sys s) (lv_sys ?t)"
    using assms(2) by (auto simp: sys_step_def live_does_def)
  then have "linked False (lv_data ?t) (lv_sys ?t)" using linked_step I(1) t by metis
  moreover have mv: "page_moves (lv_data s) (live_page s) (live_page ?t)" by (simp add: live_does_def sys_moves)
  have "selection_seen ?t" using mv I(2,3) t by (auto simp: page_moves_def selection_seen_def)
  moreover have "version_seen (lv_seen ?t) m" if "m \<in> requested (live_page ?t)" for m
    using mv that I(4) fresh_seen [OF I(2,3)] t by (auto simp: page_moves_def)
  ultimately show ?thesis using I(2) t by (simp add: live_inv_def)
qed

lemma live_inv_data:
  assumes "live_inv s" "delivers e"
  shows "live_inv (live_does differs e s)"
proof -
  let ?t = "live_does differs e s"
  obtain pd where t: "lv_data ?t = pd" "lv_seen ?t = lv_seen s @ [pd]" "live_page ?t = live_page s"
    "lv_sys ?t = page_commit pd (live_page s) (lv_sys s) \<or> lv_sys ?t = page_returns pd (lv_sys s)"
    using assms(2) by (cases e) (simp_all add: live_does_def page_returns_def)
  have "linked False pd (lv_sys ?t)"
    using t(4) delivery_linked [of "lv_data s" "lv_sys s" pd] returns_linked [of "lv_data s" "lv_sys s" pd] assms(1)
    by (auto simp: live_inv_def)
  moreover have "version_seen (lv_seen ?t) m" if "m \<in> requested (live_page ?t)" for m
  proof -
    have "m \<in> requested (live_page s)" using that by (simp only: t(3))
    then have "version_seen (lv_seen s) m" using assms(1) by (simp add: live_inv_def)
    then show ?thesis by (rule version_seen_mono) (auto simp: t(2))
  qed
  moreover have "selection_seen ?t" using assms(1) unfolding live_inv_def selection_seen_def t(2,3) by auto
  ultimately show ?thesis using t(1,2) by (simp add: live_inv_def)
qed

lemma live_inv_mounted: "live_inv (mounted_live pd)"
  by (simp add: live_inv_def mounted_live_def linked_mounted selection_seen_def)
    (simp add: mounted_pgsys_def mounted_page_def requested_def)

interpretation ls: invariant_system "\<lambda>s. \<exists>pd. s = mounted_live pd" "live_step lc differs" live_inv for lc differs
proof
  fix s t
  assume "live_inv s" "live_step lc differs s t"
  then obtain e where "live_inv s" "live_can lc e s" "t = live_does differs e s" by (auto simp: live_step_def)
  then show "live_inv t" by (cases e) (simp_all add: live_can_def live_inv_sys live_inv_data)
qed (auto simp: live_inv_mounted)

lemma run_moves:
  assumes "live_run lc differs es s = Some t" "list_all (\<lambda>e. \<not> delivers e) es"
  shows "lv_data t = lv_data s \<and> page_moves (lv_data s) (live_page s) (live_page t)"
  using assms
proof (induction es arbitrary: s)
  case (Cons e es)
  let ?u = "live_does differs e s"
  have "\<not> delivers e" using Cons.prems(2) by simp
  then have u: "lv_data ?u = lv_data s" "page_moves (lv_data s) (live_page s) (live_page ?u)"
    by (cases e; simp add: live_does_def sys_moves)+
  have "live_run lc differs es ?u = Some t" using Cons.prems(1) by (auto split: if_splits)
  then have "lv_data t = lv_data ?u \<and> page_moves (lv_data ?u) (live_page ?u) (live_page t)"
    using Cons.IH Cons.prems(2) by simp
  then show ?case using u page_moves_trans [OF u(2)] by simp
qed (simp add: page_moves_refl)

subsection \<open>A demonstration run\<close>

definition demo_changed_then_submitted :: "live_event list" where
  \<comment> \<open>an item is saved, and the report submitted before the report has been fetched again\<close>
  "demo_changed_then_submitted = map LSys
     [YReport (EEditItem ''i1''), YPanel (SForm EFormSubmit), YSettled 0 (Inr JNull), YPanel SExited,
      YReport ESubmitReport, YActionConfirmed \<lparr>inputValue = [], touched = False, previous = None\<rparr> None]"

definition demo_live :: live where
  "demo_live = the (live_run demo_format (\<noteq>) demo_changed_then_submitted (mounted_live demo_draft))"

lemma demo_live_run:
  "live_run demo_format (\<noteq>) demo_changed_then_submitted (mounted_live demo_draft) = Some demo_live"
proof -
  have "live_run demo_format (\<noteq>) demo_changed_then_submitted (mounted_live demo_draft) \<noteq> None" by code_simp
  then show ?thesis unfolding demo_live_def by (metis option.collapse)
qed

definition demo_update :: update_item_input where
  "demo_update =
     \<lparr>if_expense_date = ''2026-04-02'', if_amount = 1200, if_category_id = ''c'', if_description = ''d'',
      ui_updated_at = ''x'', ui_reportId = ''r1'', ui_itemId = ''i1''\<rparr>"

lemma demo_live_outs:
  "page_outs (live_page demo_live) =
     [PMutate (MUpdateItem demo_update), PInvalidate (detail_key ''r1''),
      PMutate (MSubmit \<lparr>vi_id = ''r1'', vi_updated_at = ''v1''\<rparr>)]"
  by code_simp

subsection \<open>Properties\<close>

text \<open>
  C5. Requests carry the versions that were on the screen. Whatever data arrives while the user works, every
  request of the page that is versioned carries a version of a report that was delivered, and an update of an item the
  version of that item in a delivery (creations and deletions have no version in the API), also when the page has gone from one report to another meanwhile.
  Until the next delivery, whatever settles in between, all new
  requests carry the version of the data now shown, or of the item now open: so a report that is submitted
  after the user's own change of an item, but before it has been fetched again, is submitted with the
  version from before the change.
\<close>

theorem requests_carry_shown_versions:
  assumes "live_reach lc differs s"
  shows "(\<forall>m. PMutate m \<in> set (page_outs (live_page s)) \<longrightarrow> version_seen (lv_seen s) m) \<and>
    (\<forall>es t m. live_run lc differs es s = Some t \<longrightarrow> list_all (\<lambda>e. \<not> delivers e) es \<longrightarrow>
       PMutate m \<in> set (page_outs (live_page t)) \<longrightarrow> PMutate m \<notin> set (page_outs (live_page s)) \<longrightarrow>
       fresh (lv_data s) (selectedItem (live_page s)) m)"
  using ls.invariant [OF assms] run_moves
  by (fastforce simp: live_inv_def page_moves_def requested_def)

theorem requests_carry_shown_versions_witness:
  "page_outs (live_page demo_live) =
     [PMutate (MUpdateItem demo_update), PInvalidate (detail_key ''r1''), PMutate (MSubmit (version_of demo_draft))]"
proof -
  let ?v = "\<lparr>vi_id = ''r1'', vi_updated_at = ''v1''\<rparr>"
  have r: "live_reach demo_format (\<noteq>) (mounted_live demo_draft)" by (rule reach_init) blast
  have nd: "list_all (\<lambda>e. \<not> delivers e) demo_changed_then_submitted" by (simp add: demo_changed_then_submitted_def)
  have new: "PMutate (MSubmit ?v) \<in> set (page_outs (live_page demo_live))"
    "PMutate (MSubmit ?v) \<notin> set (page_outs (live_page (mounted_live demo_draft)))"
    by (simp_all add: demo_live_outs) (simp add: mounted_live_def mounted_pgsys_def mounted_page_def)
  have "fresh (lv_data (mounted_live demo_draft)) (selectedItem (live_page (mounted_live demo_draft))) (MSubmit ?v)"
    using requests_carry_shown_versions [OF r] demo_live_run nd new by blast
  then have "?v = version_of demo_draft" by (simp add: mounted_live_def)
  then show ?thesis using demo_live_outs by (simp only:)
qed

text \<open>
  C15. Saves of items stay single and valid while data arrives, of the same report or of another one: in every reachable state at most one save of an
  item by the page is in flight, each update it has requested carries a date, a category, a positive amount
  below 2^53 and a description of 1 to 500 characters, and the page itself never requests the creation of
  an item, which is the panel's business.
\<close>

theorem item_saves_stay_single_and_valid:
  assumes "live_reach lc differs s"
  shows "length (filter (\<lambda>x. is_item_save (snd x)) (muts (live_page s))) \<le> 1 \<and>
    (\<forall>i. PMutate (MCreateItem i) \<notin> set (page_outs (live_page s))) \<and>
    (\<forall>i. PMutate (MUpdateItem i) \<in> set (page_outs (live_page s)) \<longrightarrow>
       if_expense_date i \<noteq> [] \<and> 0 < if_amount i \<and> if_amount i < 2 ^ 53 \<and> if_category_id i \<noteq> [] \<and>
       1 \<le> length (if_description i) \<and> length (if_description i) \<le> 500)"
proof -
  have "items_ok (live_page s)" using ls.invariant [OF assms] linkedD(3) by (auto simp: live_inv_def)
  then have "length (item_muts (live_page s)) \<le> 1" and m: "\<And>m. m \<in> requested (live_page s) \<Longrightarrow> item_request_ok m"
    by (simp_all add: items_ok_def)
  then show ?thesis using m [of "MCreateItem i" for i] m [of "MUpdateItem i" for i]
    by (auto simp: requested_def item_muts_def update_valid_def)
qed

theorem item_saves_stay_single_and_valid_witness:
  "PMutate (MUpdateItem demo_update) \<in> set (page_outs (live_page demo_live)) \<and> 0 < if_amount demo_update"
proof -
  have "live_reach demo_format (\<noteq>) (mounted_live demo_draft)" by (rule reach_init) blast
  then have "live_reach demo_format (\<noteq>) demo_live" using demo_live_run live_run_reach by blast
  moreover have "PMutate (MUpdateItem demo_update) \<in> set (page_outs (live_page demo_live))" by (simp add: demo_live_outs)
  ultimately show ?thesis using item_saves_stay_single_and_valid by blast
qed

text \<open>
  The state of the page outlives the report. When the page goes to another report, from the cache or after loading,
  an open question about deleting the report stays open, the banner about a conflict, the toast and the
  item that was selected stay as they are; and who confirms the question then deletes the report that
  is shown now, not the one the question was asked for.
\<close>

theorem questions_move_to_shown_report:
  assumes "delivers e" and "dialogAction (live_page s) = Some DDelete"
    and "live_can lc (LSys (YActionConfirmed d x)) (live_does differs e s)"
  shows "conflictDetected (live_page (live_does differs e s)) = conflictDetected (live_page s) \<and>
    page_toast (live_page (live_does differs e s)) = page_toast (live_page s) \<and>
    selectedItem (live_page (live_does differs e s)) = selectedItem (live_page s) \<and>
    page_outs (live_page (live_does differs (LSys (YActionConfirmed d x)) (live_does differs e s))) =
      page_outs (live_page s) @ [PMutate (MDelete (rd_id (pd_report (lv_data (live_does differs e s)))))]"
proof -
  have "live_page (live_does differs e s) = live_page s"
    using assms(1) by (cases e) (simp_all add: live_does_def page_returns_def)
  then show ?thesis using assms(2)
    by (simp add: live_does_def [of _ "LSys (YActionConfirmed d x)"] sys_does_def Let_def handleDialogConfirm_def
        handleDeleteConfirm_def start_def pout_def)
qed

definition demo_other :: page_data where
  \<comment> \<open>the rejected report that the draft was made from\<close>
  "demo_other = (let pd = demo_page_data ''u1'' Member Rejected in pd\<lparr>pd_report := (pd_report pd)\<lparr>rd_id := ''r0''\<rparr>\<rparr>)"

lemma demo_asked_then_back:
  "map_option (\<lambda>s. page_outs (live_page s)) (live_run demo_format (\<noteq>)
     [LSys (YReport EDelete), LData demo_other,
      LSys (YActionConfirmed \<lparr>inputValue = [], touched = False, previous = None\<rparr> None)] (mounted_live demo_draft)) =
   Some [PMutate (MDelete ''r0'')]"
  by code_simp

text \<open>Opening the item has replaced the first panel, and the skeleton the second; the third shows the other report.\<close>

lemma demo_loaded_panel:
  "map_option (\<lambda>s. (ps_props (sp_psys (lv_sys s)) = page_panel_props demo_other (live_page s), length (sp_old (lv_sys s))))
     (live_run demo_format (\<noteq>) [LSys (YReport (EEditItem ''i1'')), LLoaded demo_other] (mounted_live demo_draft)) =
   Some (True, 2)"
  by code_simp

theorem questions_move_to_shown_report_witness:
  "page_outs (live_page (live_does (\<noteq>) (LSys (YActionConfirmed \<lparr>inputValue = [], touched = False, previous = None\<rparr> None))
     (live_does (\<noteq>) (LData demo_other) (live_does (\<noteq>) (LSys (YReport EDelete)) (mounted_live demo_draft))))) =
   [PMutate (MDelete ''r0'')]"
proof -
  let ?s = "live_does (\<noteq>) (LSys (YReport EDelete)) (mounted_live demo_draft)"
  let ?d = "\<lparr>inputValue = [], touched = False, previous = None\<rparr>"
  have "dialogAction (live_page ?s) = Some DDelete" "page_outs (live_page ?s) = []"
    "live_can demo_format (LSys (YActionConfirmed ?d None)) (live_does (\<noteq>) (LData demo_other) ?s)"
    "rd_id (pd_report (lv_data (live_does (\<noteq>) (LData demo_other) ?s))) = ''r0''"
    by code_simp+
  then show ?thesis using questions_move_to_shown_report [of "LData demo_other" ?s demo_format ?d None "(\<noteq>)"] by simp
qed

end
