(* ===== verification/Nav_Messages.thy ===== *)
theory Nav_Messages
  imports App_Shell Report_Form Report_Detail List_Pages "HOL-Library.Multiset"
begin

text \<open>
  Messages that travel with a navigation. A page that leaves puts a message into the state of the history
  entry it navigates to (\<open>navigate(path, { state: { toast } })\<close>); an effect of the page that is mounted there puts it
  into the state of the page's toast and removes it from the entry with \<open>window.history.replaceState\<close>
  (frontend/src/pages/reports/ReportDetailPage.tsx, pages/reports/ReportListPage.tsx,
  pages/dashboard/DashboardPage.tsx). Here is the tab of the browser that connects them: its history, the
  tokens, and the routes with their guards, which decide what is mounted. What the user sees of the message is up to
  the rendering of the page, which may return early.
\<close>

subsection \<open>The tab\<close>

type_synonym message = "toast_severity \<times> string"

record tab_entry =
  en_path :: string
  en_search :: string
  en_toast :: "message option"

record tab =
  tb_auth :: auth_store
  tb_before :: "tab_entry list"
  tb_here :: tab_entry
  tb_after :: "tab_entry list"
  tb_sent :: "message list"
  tb_received :: "message list"

definition page_message :: "page_name \<Rightarrow> message option \<Rightarrow> message option" where
  \<comment> \<open>the message that the effects of a mounted page take from the state of its location into its toast; whether the
    toast is rendered is the matter of \<open>rendered_toasts\<close>\<close>
  "page_message p t =
     (let x = (case p of
          PDashboard \<Rightarrow> dashboard_toast t (False, TInfo, [])
        | PReportList \<Rightarrow> rl_navToast (mounted_report_list [] t)
        | PReportDetail \<Rightarrow> page_toast (location_toast t mounted_page)
        | _ \<Rightarrow> (False, TInfo, []))
      in if fst x then Some (snd x) else None)"

definition arrive :: "tab \<Rightarrow> tab" where
  \<comment> \<open>the router shows the current entry; a page that takes the message removes it from the entry, and a
    redirect of a guard replaces the entry\<close>
  "arrive s =
     (let e = tb_here s in
      case app_view (tb_auth s) (en_path e) (en_search e) of
        Some (ShowInLayout p m) \<Rightarrow>
          (case page_message p (en_toast e) of
             None \<Rightarrow> s
           | Some x \<Rightarrow> s\<lparr>tb_received := tb_received s @ [x], tb_here := e\<lparr>en_toast := None\<rparr>\<rparr>)
      | Some (NavigateTo t from) \<Rightarrow> s\<lparr>tb_here := \<lparr>en_path = t, en_search = [], en_toast = None\<rparr>\<rparr>
      | _ \<Rightarrow> s)"

definition opened_tab :: "auth_store \<Rightarrow> string \<Rightarrow> string \<Rightarrow> tab" where
  "opened_tab a p q =
     arrive \<lparr>tb_auth = a, tb_before = [], tb_here = \<lparr>en_path = p, en_search = q, en_toast = None\<rparr>, tb_after = [],
       tb_sent = [], tb_received = []\<rparr>"

definition follow :: "navigation \<Rightarrow> tab \<Rightarrow> tab" where
  "follow n s =
     arrive (s\<lparr>
       tb_before := (if nav_replace n then tb_before s else tb_here s # tb_before s),
       tb_here := \<lparr>en_path = before CHR ''?'' (nav_to n), en_search = after CHR ''?'' (nav_to n), en_toast = nav_toast n\<rparr>,
       tb_after := (if nav_replace n then tb_after s else []),
       tb_sent := tb_sent s @ (case nav_toast n of None \<Rightarrow> [] | Some x \<Rightarrow> [x])\<rparr>)"

datatype tab_event =
    TFollow navigation
  | TBack
  | TForward
  | TReload
  | TTokens auth_store

fun tab_step :: "tab_event \<Rightarrow> tab \<Rightarrow> tab" where
  "tab_step (TFollow n) s = follow n s"
| "tab_step TBack s =
     (case tb_before s of
        [] \<Rightarrow> s
      | e # es \<Rightarrow> arrive (s\<lparr>tb_before := es, tb_here := e, tb_after := tb_here s # tb_after s\<rparr>))"
| "tab_step TForward s =
     (case tb_after s of
        [] \<Rightarrow> s
      | e # es \<Rightarrow> arrive (s\<lparr>tb_after := es, tb_here := e, tb_before := tb_here s # tb_before s\<rparr>))"
| "tab_step TReload s = arrive (s\<lparr>tb_auth := reload_auth (tb_auth s)\<rparr>)"
| "tab_step (TTokens a) s = s\<lparr>tb_auth := a\<rparr>"

subsection \<open>What is rendered of a message\<close>

datatype reader_render =
  \<comment> \<open>a rendering of one of the pages that take messages: the results of its queries\<close>
    OnDashboard bool bool "js_error option" "dashboard option" "auth_user option"
  | OnList "report_summary list_result"
  | OnDetail bool "js_error option" "page_data option" "panel_event jsx" dialog dialog dialog

fun reader_page :: "reader_render \<Rightarrow> page_name" where
  "reader_page (OnDashboard _ _ _ _ _) = PDashboard"
| "reader_page (OnList _) = PReportList"
| "reader_page (OnDetail _ _ _ _ _ _ _) = PReportDetail"

fun has_content :: "reader_render \<Rightarrow> bool" where
  \<comment> \<open>the page does not return early: it is not loading, has no error and has its data\<close>
  "has_content (OnDashboard loading userLoading err d u) \<longleftrightarrow>
     \<not> loading \<and> \<not> userLoading \<and> err = None \<and> d \<noteq> None \<and> u \<noteq> None"
| "has_content (OnList lr) \<longleftrightarrow> True"
| "has_content (OnDetail loading err r _ _ _ _) \<longleftrightarrow> \<not> loading \<and> err = None \<and> r \<noteq> None"

fun rendered_toasts :: "locale_format \<Rightarrow> reader_render \<Rightarrow> message option \<Rightarrow> string list" where
  \<comment> \<open>the open toasts on the page that was mounted with this message in the state of its location\<close>
  "rendered_toasts lc (OnDashboard loading userLoading err d u) t =
     open_toasts (dashboardPage lc loading userLoading err d u (dashboard_toast t (False, TInfo, [])))"
| "rendered_toasts lc (OnList lr) t = open_toasts (reportListPage lc lr (mounted_report_list [] t))"
| "rendered_toasts lc (OnDetail loading err r panel d1 d2 d3) t =
     open_toasts (page_view loading err r
       (\<lambda>pd. render_page lc pd (location_toast t mounted_page) panel d1 d2 d3) EPageToastClose)"

lemma content_shows: "has_content x \<Longrightarrow> snd m \<in> set (rendered_toasts lc x (Some m))"
proof (cases x)
  case (OnList lr)
  then show ?thesis
    by (cases m) (simp add: reportListPage_def mounted_report_list_def Let_def)
qed (cases m; auto simp: dashboardPage_def dashboard_toast_def page_view_def render_page_def location_toast_def
    show_toast_def)+

lemma early_return_hides: "\<not> has_content x \<Longrightarrow> rendered_toasts lc x t = rendered_toasts lc x None"
  by (cases x) (auto simp: dashboardPage_def page_view_def split: option.split)

subsection \<open>No message is received more often than it was sent\<close>

definition stored :: "tab_entry \<Rightarrow> message multiset" where
  "stored e = (case en_toast e of None \<Rightarrow> {#} | Some x \<Rightarrow> {#x#})"

definition at_large :: "tab \<Rightarrow> message multiset" where
  \<comment> \<open>the messages that are still in the history, and those received\<close>
  "at_large s =
     stored (tb_here s) + sum_list (map stored (tb_before s)) + sum_list (map stored (tb_after s)) + mset (tb_received s)"

definition only_sent :: "tab \<Rightarrow> bool" where
  "only_sent s \<longleftrightarrow> at_large s \<subseteq># mset (tb_sent s)"

lemma page_message_eq:
  "page_message p t = (if p \<in> {PDashboard, PReportList, PReportDetail} then t else None)"
  by (cases p; cases t)
    (auto simp: page_message_def dashboard_toast_def mounted_report_list_def location_toast_def show_toast_def
      mounted_page_def)

lemma arrive_keeps [simp]:
  "tb_sent (arrive s) = tb_sent s" "tb_before (arrive s) = tb_before s" "tb_after (arrive s) = tb_after s"
  "tb_auth (arrive s) = tb_auth s"
  by (auto simp: arrive_def Let_def split: option.split shell_view.split)

lemma arrive_at_large: "at_large (arrive s) \<subseteq># at_large s"
proof -
  have "stored (tb_here (arrive s)) + mset (tb_received (arrive s)) \<subseteq># stored (tb_here s) + mset (tb_received s)"
    by (auto simp: arrive_def Let_def stored_def page_message_eq split: option.split shell_view.split)
  then show ?thesis by (simp add: at_large_def ac_simps subset_mset.add_mono)
qed

lemma only_sent_arrive: "only_sent s \<Longrightarrow> only_sent (arrive s)"
  using arrive_at_large [of s] subset_mset.order_trans by (auto simp: only_sent_def)

lemma only_sent_step: "only_sent s \<Longrightarrow> only_sent (tab_step e s)"
proof (cases e)
  case (TFollow n)
  assume o: "only_sent s"
  let ?t = "s\<lparr>tb_before := (if nav_replace n then tb_before s else tb_here s # tb_before s),
       tb_here := \<lparr>en_path = before CHR ''?'' (nav_to n), en_search = after CHR ''?'' (nav_to n), en_toast = nav_toast n\<rparr>,
       tb_after := (if nav_replace n then tb_after s else []),
       tb_sent := tb_sent s @ (case nav_toast n of None \<Rightarrow> [] | Some x \<Rightarrow> [x])\<rparr>"
  let ?new = "case nav_toast n of None \<Rightarrow> {#} | Some x \<Rightarrow> {#x#}"
  have "at_large ?t \<subseteq># at_large s + ?new"
    by (auto simp: at_large_def stored_def ac_simps split: option.split)
  also have "\<dots> \<subseteq># mset (tb_sent s) + ?new" using o by (simp add: only_sent_def)
  also have "mset (tb_sent s) + ?new = mset (tb_sent ?t)" by (simp split: option.split)
  finally have "only_sent ?t" by (simp add: only_sent_def)
  then show ?thesis unfolding TFollow tab_step.simps follow_def by (rule only_sent_arrive)
next
  case TBack
  assume o: "only_sent s"
  show ?thesis
  proof (cases "tb_before s")
    case (Cons a as)
    have "only_sent (s\<lparr>tb_before := as, tb_here := a, tb_after := tb_here s # tb_after s\<rparr>)"
      using o Cons by (simp add: only_sent_def at_large_def ac_simps)
    then show ?thesis using TBack Cons by (simp add: only_sent_arrive)
  qed (use o TBack in simp)
next
  case TForward
  assume o: "only_sent s"
  show ?thesis
  proof (cases "tb_after s")
    case (Cons a as)
    have "only_sent (s\<lparr>tb_after := as, tb_here := a, tb_before := tb_here s # tb_before s\<rparr>)"
      using o Cons by (simp add: only_sent_def at_large_def ac_simps)
    then show ?thesis using TForward Cons by (simp add: only_sent_arrive)
  qed (use o TForward in simp)
next
  case TReload
  assume "only_sent s"
  then have "only_sent (s\<lparr>tb_auth := reload_auth (tb_auth s)\<rparr>)" by (simp add: only_sent_def at_large_def)
  then show ?thesis by (simp add: TReload only_sent_arrive)
qed (simp_all add: only_sent_def at_large_def)

subsection \<open>Who sends messages\<close>

inductive navigates :: "navigation \<Rightarrow> bool" where
  \<comment> \<open>the navigations that a step of a page adds to what it has caused\<close>
  own_list: "rl_navs (report_list_step ev s) = rl_navs s @ ns \<Longrightarrow> n \<in> set ns \<Longrightarrow> navigates n"
| all_list: "al_navs (all_list_step ea a) = al_navs a @ ns \<Longrightarrow> n \<in> set ns \<Longrightarrow> navigates n"
| processed: "pl_navs (processed_step ep p) = pl_navs p @ ns \<Longrightarrow> n \<in> set ns \<Longrightarrow> navigates n"
| approvals: "wl_navs (workflow_step approval_kind ew w) = wl_navs w @ ns \<Longrightarrow> n \<in> set ns \<Longrightarrow> navigates n"
| payments: "wl_navs (workflow_step payment_kind ew w) = wl_navs w @ ns \<Longrightarrow> n \<in> set ns \<Longrightarrow> navigates n"
| tenant: "tp_navs (tenant_step et t) = tp_navs t @ ns \<Longrightarrow> n \<in> set ns \<Longrightarrow> navigates n"
| creation: "cp_outs (create_step ec c) = cp_outs c @ os \<Longrightarrow> FoNav n \<in> set os \<Longrightarrow>
    (\<forall>i. ec = CSettles (Inr i) \<longrightarrow> plain_id i) \<Longrightarrow> navigates n"
| edit: "ep_outs (edit_step ee d) = ep_outs d @ os \<Longrightarrow> FoNav n \<in> set os \<Longrightarrow> plain_id (ep_id d) \<Longrightarrow> navigates n"
| detail: "page_outs (page_settles k res g) = page_outs g @ qs \<Longrightarrow> PNavigate x m \<in> set qs \<Longrightarrow>
    navigates \<lparr>nav_to = x, nav_toast = m, nav_replace = False\<rparr>"
| action: "page_outs (action_event pd er g) = page_outs g @ qs \<Longrightarrow> PNavigate x m \<in> set qs \<Longrightarrow>
    navigates \<lparr>nav_to = x, nav_toast = m, nav_replace = False\<rparr>"

definition goes_to_reader :: "navigation \<Rightarrow> bool" where
  "goes_to_reader n \<longleftrightarrow>
     (nav_toast n \<noteq> None \<longrightarrow>
      nav_to n = ''/dashboard'' \<or> nav_to n = ''/reports'' \<or> (\<exists>i. nav_to n = ''/reports/'' @ i \<and> plain_id i))"

lemma goes_simps [simp]: "goes_to_reader forbidden_redirect" "goes_to_reader (plain_nav p)"
  by (simp_all add: goes_to_reader_def)

lemma redirect_goes: "n \<in> set (role_redirect allowed u) \<Longrightarrow> goes_to_reader n"
  by (auto simp: role_redirect_def goes_to_reader_def split: option.splits if_splits)

lemma create_goes:
  assumes "cp_outs (create_step e c) = cp_outs c @ os" "FoNav n \<in> set os" "\<forall>i. e = CSettles (Inr i) \<longrightarrow> plain_id i"
  shows "goes_to_reader n"
proof (cases e)
  case CSubmit
  then show ?thesis using assms(1,2)
    by (auto simp: create_handleSubmit_def Let_def split: prod.splits option.splits)
next
  case (CSettles res)
  then show ?thesis using assms
    by (auto simp: Report_Form.create_settles_def Let_def goes_to_reader_def split: option.splits sum.splits)
next
  case CCancel
  then show ?thesis using assms(1,2) by (auto simp: goes_to_reader_def)
qed (use assms(1,2) in \<open>auto simp: Let_def\<close>)

lemma edit_goes:
  assumes "ep_outs (edit_step e d) = ep_outs d @ os" "FoNav n \<in> set os" "plain_id (ep_id d)"
  shows "goes_to_reader n"
proof (cases e)
  case EdSubmit
  then show ?thesis using assms(1,2)
    by (auto simp: edit_handleSubmit_def Let_def split: prod.splits option.splits)
next
  case (EdData u r l err)
  have "ep_outs (bodyToast m s) = ep_outs s" for m s by (simp add: bodyToast_def split: option.split)
  then show ?thesis using EdData assms(1,2)
    by (auto simp: edit_data_def Let_def error_effect_def draft_effect_def goes_to_reader_def split: option.splits if_splits)
next
  case (EdSettles res)
  then show ?thesis using assms
    by (auto simp: edit_settles_def Let_def goes_to_reader_def split: option.splits)
next
  case EdCancel
  then show ?thesis using assms(1,2) by (auto simp: goes_to_reader_def)
qed (use assms(1,2) in auto)

lemma workflow_goes:
  assumes "wl_navs (workflow_step k e w) = wl_navs w @ ns" "n \<in> set ns"
  shows "goes_to_reader n"
proof -
  have q: "wl_navs (set_input v s) = wl_navs s" "wl_navs (set_debounced v sp s) = wl_navs s" for v sp s
    by (simp_all add: set_input_def set_debounced_def url_effect_def)
  show ?thesis
  proof (cases e)
    case (WUser u)
    then show ?thesis using assms redirect_goes by (auto simp: role_effect_def)
  next
    case (WRow i)
    then show ?thesis using assms by (auto simp: goes_to_reader_def)
  next
    case (WError err)
    then show ?thesis using assms
      by (auto simp: error_effects_def Let_def goes_to_reader_def split: if_splits)
  qed (use assms in \<open>auto simp: q timer_fires_def handleFilterReset_def Let_def split: option.splits\<close>)
qed

lemma settles_goes:
  assumes "page_outs (page_settles k res g) = page_outs g @ qs" "PNavigate x (Some m) \<in> set qs"
  shows "x = ''/reports''"
proof -
  have o: "page_outs (pout y s) = page_outs s @ [y]" for y s by (simp add: pout_def)
  have inv: "page_outs (foldl (\<lambda>t q. pout (PInvalidate q) t) s is) = page_outs s @ map PInvalidate is" for s "is"
    by (induction "is" arbitrary: s) (simp_all add: o)
  have act: "page_outs (handleActionError err f s) = page_outs s" for err f s
    by (simp add: handleActionError_def Let_def show_toast_def split: js_error.split)
  show ?thesis
  proof (cases "map_of (muts g) k")
    case (Some mt)
    then show ?thesis using assms
      by (cases res; cases mt) (auto simp: page_settles_def Let_def inv act o show_toast_def)
  qed (use assms in \<open>auto simp: page_settles_def\<close>)
qed

lemma navigates_goes: "navigates n \<Longrightarrow> goes_to_reader n"
proof (induction rule: navigates.induct)
  case (own_list ev s ns n)
  then show ?case by (cases ev) (auto split: option.splits)
next
  case (all_list ea a ns n)
  then show ?case
    by (cases ea) (auto simp: Let_def dest: redirect_goes split: option.splits js_error.splits if_splits)
next
  case (processed ep p ns n)
  then show ?case
    by (cases ep) (auto simp: Let_def dest: redirect_goes split: if_splits)
next
  case (tenant et t ns n)
  then show ?case
    by (cases et) (auto simp: Let_def dest: redirect_goes split: option.splits js_error.splits if_splits)
next
  case (detail k res g qs x m)
  then show ?case using settles_goes by (cases m) (auto simp: goes_to_reader_def)
next
  case (action pd er g qs x m)
  then show ?case
    by (cases er) (auto simp: action_event_def pout_def goes_to_reader_def handleAddItem_def handleItemClick_def
      handleEditItem_def open_item_def)
qed (use create_goes edit_goes workflow_goes in blast)+
subsection \<open>Properties\<close>

lemma count_received: "mset xs \<subseteq># mset ys \<Longrightarrow> count_list xs m \<le> count_list ys m"
  using mset_subset_eq_count [of "mset xs" "mset ys" m] by (simp add: count_mset count_list_eq_length_filter)

lemma only_sent_run: "only_sent s \<Longrightarrow> only_sent (fold tab_step es s)"
  using only_sent_step by (induction es arbitrary: s) simp_all

lemma only_sent_opened: "only_sent (opened_tab a p q)"
  unfolding opened_tab_def by (rule only_sent_arrive) (simp add: only_sent_def at_large_def stored_def)

lemma only_sent_count:
  assumes "only_sent s"
  shows "count_list (tb_received s) m \<le> count_list (tb_sent s) m"
proof (rule count_received)
  have "mset (tb_received s) \<subseteq># at_large s" by (simp add: at_large_def)
  then show "mset (tb_received s) \<subseteq># mset (tb_sent s)"
    using assms subset_mset.order_trans by (auto simp: only_sent_def)
qed

lemma reader_path:
  assumes "goes_to_reader n" "nav_toast n \<noteq> None"
  shows "before CHR ''?'' (nav_to n) = nav_to n \<and>
    (\<exists>p \<in> {PDashboard, PReportList, PReportDetail}. page_of (nav_to n) = Some p)"
proof -
  consider "nav_to n = ''/dashboard''" | "nav_to n = ''/reports''" | i where "nav_to n = ''/reports/'' @ i" "plain_id i"
    using assms by (auto simp: goes_to_reader_def)
  then show ?thesis
  proof cases
    case 1
    have "page_of ''/dashboard'' = Some PDashboard" by code_simp
    then show ?thesis using 1 by (simp add: before_def)
  next
    case 2
    have "page_of ''/reports'' = Some PReportList" by code_simp
    then show ?thesis using 2 by (simp add: before_def)
  next
    case 3
    have "CHR ''?'' \<notin> set (''/reports/'' @ i)" using 3(2) by (simp add: plain_id_def)
    then have "before CHR ''?'' (''/reports/'' @ i) = ''/reports/'' @ i" by (rule before_after)
    then show ?thesis using 3 reports_path by auto
  qed
qed

text \<open>
  C35. A message that a page sends with a navigation arrives exactly once. When the user has a token, every
  navigation of the pages that carries a message leads to the dashboard, the own reports or a report, and this
  page takes the message into its toast at once and out of the history entry. Whatever its queries bring, the
  page then renders the message, in an open toast, in just those renderings in which it shows its content; while it
  shows the skeleton, only an error, or nothing, the message makes no difference to the open toasts. (The list of own
  reports always shows its content.) A reload does not bring the message again; and whatever happens in
  the tab afterwards - following links, going back and forward, reloading, logging in and out - no message
  has arrived more often than it was sent.
\<close>

theorem sent_messages_arrive_once:
  assumes "navigates n" and "nav_toast n = Some m"
    and "s = fold tab_step es (opened_tab a p q)" and "useAuth (tb_auth s)"
  shows "(\<exists>pg mt. app_view (tb_auth s) (nav_to n) [] = Some (ShowInLayout pg mt) \<and>
       pg \<in> {PDashboard, PReportList, PReportDetail} \<and>
       (\<forall>lc x. reader_page x = pg \<longrightarrow>
          (if has_content x then snd m \<in> set (rendered_toasts lc x (Some m))
           else rendered_toasts lc x (Some m) = rendered_toasts lc x None))) \<and>
    tb_received (tab_step (TFollow n) s) = tb_received s @ [m] \<and> en_toast (tb_here (tab_step (TFollow n) s)) = None \<and>
    tb_received (tab_step TReload (tab_step (TFollow n) s)) = tb_received s @ [m] \<and>
    (\<forall>es' x. count_list (tb_received (fold tab_step es' (tab_step (TFollow n) s))) x
      \<le> count_list (tb_sent (fold tab_step es' (tab_step (TFollow n) s))) x)"
proof -
  let ?t = "tab_step (TFollow n) s"
  obtain pg where pg: "before CHR ''?'' (nav_to n) = nav_to n" "page_of (nav_to n) = Some pg"
    "pg \<in> {PDashboard, PReportList, PReportDetail}"
    using reader_path [OF navigates_goes [OF assms(1)]] assms(2) by auto
  then have "pg \<notin> {PLogin, PSignup, PPasswordResetRequest, PPasswordReset, PHome}" by auto
  then obtain mt where v: "app_view (tb_auth s) (nav_to n) (after CHR ''?'' (nav_to n)) = Some (ShowInLayout pg mt)"
    using page_of_view [OF assms(4) pg(2)] by blast
  then have v0: "app_view (tb_auth s) (nav_to n) [] = Some (ShowInLayout pg mt)"
    using assms(4) by (auto simp: app_view_def privateRoute_def split: option.splits if_splits)
  then have t: "tb_received ?t = tb_received s @ [m]" "en_toast (tb_here ?t) = None"
    using v pg(1,3) assms(2) by (simp_all add: follow_def arrive_def page_message_eq)
  have "tb_received (arrive u) = tb_received u" if "en_toast (tb_here u) = None" for u
    using that by (simp add: arrive_def Let_def page_message_eq split: option.split shell_view.split)
  then have r: "tb_received (tab_step TReload ?t) = tb_received s @ [m]" using t by simp
  have "only_sent s" unfolding assms(3) by (rule only_sent_run [OF only_sent_opened])
  then have "only_sent (fold tab_step es' ?t)" for es' by (intro only_sent_run only_sent_step)
  then have never: "count_list (tb_received (fold tab_step es' ?t)) x \<le> count_list (tb_sent (fold tab_step es' ?t)) x" for es' x
    by (rule only_sent_count)
  have "if has_content x then snd m \<in> set (rendered_toasts lc x (Some m))
      else rendered_toasts lc x (Some m) = rendered_toasts lc x None" for lc x
    using content_shows early_return_hides [of x lc "Some m"] by simp
  then show ?thesis using v0 pg(3) t r never by blast
qed

definition demo_signed_in :: auth_store where
  "demo_signed_in = setTokens (JStr ''a'') (JStr ''r'') (load_auth
     \<lparr>st_items = Map.empty, st_get_ok = True, st_set_ok = True, st_remove_ok = True\<rparr>)"

theorem sent_messages_arrive_once_witness:
  "let t = tab_step (TFollow forbidden_redirect) (opened_tab demo_signed_in ''/settings/tenant'' []) in
   tb_received t = [(TError, ''You are not allowed to open this page'')] \<and>
   tb_received (tab_step TReload t) = [(TError, ''You are not allowed to open this page'')]"
proof -
  let ?u = "\<lparr>au_id = ''u'', au_name = ''n'', au_email = ''e'', au_role = Member, au_tenant_id = ''t'', au_tenant_name = ''c''\<rparr>"
  let ?s = "opened_tab demo_signed_in ''/settings/tenant'' []"
  have "navigates forbidden_redirect"
    by (rule navigates.tenant [of "TnUser (Some ?u)" "mounted_tenant None None" "[forbidden_redirect]"])
      (simp_all add: role_redirect_def)
  moreover have "useAuth (tb_auth ?s)" by code_simp
  moreover have "tb_received ?s = []" by code_simp
  ultimately show ?thesis
    using sent_messages_arrive_once [of forbidden_redirect _ ?s "[]" demo_signed_in "''/settings/tenant''" "[]"]
    unfolding Let_def by simp
qed

end
