(* ===== verification/Query_Retry.thy ===== *)
theory Query_Retry
  imports Query_Hooks
begin

text \<open>
  What the defaults of the query client (frontend/src/main.tsx) make of a query: one that
  fails is tried once more, after a pause, whatever the error was - also when the error was the end of
  the session. Queries are not fetched again when the window gets the focus. The context for messages
  (frontend/src/contexts/SnackbarContext.ts, frontend/src/hooks/useSnackbar.ts), which no component of
  the application provides, is here too.
\<close>

subsection \<open>The focus of the window\<close>

definition on_window_focus :: "query \<Rightarrow> bool \<Rightarrow> bool" where
  \<comment> \<open>whether a mounted query is fetched again; \<open>stale\<close> tells that its data is older than its \<open>staleTime\<close>\<close>
  "on_window_focus q stale \<longleftrightarrow> qd_refetchOnWindowFocus queryClient_defaults \<and> qu_enabled q \<and> stale"

subsection \<open>The message context\<close>

definition useSnackbar :: "'c option \<Rightarrow> js_error + 'c" where
  \<comment> \<open>the value of the nearest provider, if there is one\<close>
  "useSnackbar ctx =
     (case ctx of
        None \<Rightarrow> Inl (OtherError ''Error'' ''useSnackbar must be used within a SnackbarProvider'')
      | Some c \<Rightarrow> Inr c)"

subsection \<open>Two tries\<close>

lemma fetch_query_eq:
  "fetch_query fetch q w =
     (case query_fetch fetch q w of
        (Inl e, w') \<Rightarrow> query_fetch fetch q w'
      | (Inr v, w') \<Rightarrow> (Inr v, w'))"
  by (simp add: fetch_query_def queryClient_defaults_def split: prod.split sum.split)

lemma query_call:
  assumes "query_fetch fetch q w = (res, w')"
  obtains r where "apiClient fetch (qu_url q) (api_get_init None) w = (r, w')" "\<And>e. r = Inl e \<Longrightarrow> res = Inl e"
  using assms by (auto simp: query_fetch_def split: prod.splits sum.splits)

lemma call_location:
  assumes "apiClient fetch path i w = (res, w')"
  shows "href w' = href w \<or>
    href w' = href w @ [''/login''] \<and> auth w' = clearTokens (auth w) \<and> res = Inl unauthorized_error"
  using assms
proof (cases rule: apiClient_cases)
  case (direct out w1)
  then show ?thesis using send_split [OF direct(1)] by simp
next
  case (refresh_failed out w1)
  then show ?thesis using send_split [OF refresh_failed(1)] doRefresh_False [OF refresh_failed(3)] by simp
next
  case (retried out w1 w2 out2)
  then show ?thesis using send_split [OF retried(1)] send_split [OF retried(4)] doRefresh_True [OF retried(3)] by auto
qed

text \<open>Without tokens a call is one request that carries none, and a 401 ends the session at once.\<close>

lemma call_without_tokens:
  assumes "apiClient fetch path (api_get_init None) w = (res, w')"
    and "\<not> js_truthy (getAccessToken (auth w))" "\<not> js_truthy (getRefreshToken (auth w))"
  shows "\<exists>rq. sent w' = sent w @ [rq] \<and> rq_path rq = path \<and> map_of (rq_headers rq) ''Authorization'' = None"
proof -
  let ?rq = "first_request path (api_get_init None) (auth w)"
  have "map_of (rq_headers ?rq) ''Authorization'' = None"
    using assms(2) by (simp add: first_request_def mk_request_def bearer_none base_headers_def api_get_init_def)
  moreover have "sent w' = sent w @ [?rq]"
    using assms(1)
  proof (cases rule: apiClient_cases)
    case (direct out w1)
    then show ?thesis using send_split [OF direct(1)] by simp
  next
    case (refresh_failed out w1)
    then show ?thesis using send_split [OF refresh_failed(1)] assms(3)
      by (auto simp: doRefresh_def Let_def give_up_def)
  next
    case (retried out w1 w2 out2)
    then show ?thesis using send_split [OF retried(1)] doRefresh_True [OF retried(3)] assms(3) by auto
  qed
  moreover have "rq_path ?rq = path" by (simp add: first_request_def)
  ultimately show ?thesis by blast
qed

lemma cleared_tokens:
  "\<not> js_truthy (getAccessToken (clearTokens a))" "\<not> js_truthy (getRefreshToken (clearTokens a))"
  by (simp_all add: store_defs)

definition one_call :: "string \<Rightarrow> request list \<Rightarrow> bool" where
  \<comment> \<open>what one call may send: its request, possibly a refresh, and then possibly the request again\<close>
  "one_call p rs \<longleftrightarrow> map rq_path rs \<in> {[p], [p, ''/api/auth/refresh''], [p, ''/api/auth/refresh'', p]}"

lemma call_is_one_call: "apiClient fetch path i w = (res, w') \<Longrightarrow> \<exists>rs. sent w' = sent w @ rs \<and> one_call path rs"
  unfolding one_call_def by (rule call_requests)

subsection \<open>Properties\<close>

text \<open>
  C19. A query asks at most twice. The first try sends its request, then possibly a refresh and the request
  again. There is a second try exactly when the query function throws - the call itself or, for the
  categories, reading the data out of an answer that has none - and its outcome is that of the query; it sends
  at most the same. If the first try ended the session, the second one is a single request
  without a token, and at most one more redirect to the login.
\<close>

theorem failed_query_is_tried_twice:
  assumes "fetch_query fetch q w = (res, w')" and "query_fetch fetch q w = (res1, w1)"
  shows "\<exists>xs ys. sent w1 = sent w @ xs \<and> sent w' = sent w1 @ ys \<and> one_call (qu_url q) xs \<and>
    (case res1 of
       Inl e \<Rightarrow> one_call (qu_url q) ys \<and> query_fetch fetch q w1 = (res, w')
     | Inr v \<Rightarrow> ys = [] \<and> res = Inr v \<and> w' = w1) \<and>
    (href w1 \<noteq> href w \<longrightarrow>
       (\<exists>rq. ys = [rq] \<and> rq_path rq = qu_url q \<and> map_of (rq_headers rq) ''Authorization'' = None) \<and>
       (href w' = href w1 \<or> href w' = href w1 @ [''/login'']))"
proof -
  obtain r1 where c1: "apiClient fetch (qu_url q) (api_get_init None) w = (r1, w1)" "\<And>e. r1 = Inl e \<Longrightarrow> res1 = Inl e"
    using query_call [OF assms(2)] by blast
  obtain xs where xs: "sent w1 = sent w @ xs" "one_call (qu_url q) xs"
    using call_is_one_call [OF c1(1)] by blast
  show ?thesis
  proof (cases res1)
    case (Inr v)
    have "w' = w1" "res = Inr v" using assms Inr by (simp_all add: fetch_query_eq)
    moreover have "href w1 = href w" using call_location [OF c1(1)] c1(2) Inr by blast
    ultimately show ?thesis using xs Inr by simp
  next
    case (Inl e)
    then have again: "query_fetch fetch q w1 = (res, w')" using assms by (simp add: fetch_query_eq)
    then obtain res2 where c: "apiClient fetch (qu_url q) (api_get_init None) w1 = (res2, w')"
      using query_call by blast
    obtain ys where ys: "sent w' = sent w1 @ ys" "one_call (qu_url q) ys"
      using call_is_one_call [OF c] by blast
    have "\<exists>rq. ys = [rq] \<and> rq_path rq = qu_url q \<and> map_of (rq_headers rq) ''Authorization'' = None"
      if "href w1 \<noteq> href w"
    proof -
      have "auth w1 = clearTokens (auth w)" using that call_location [OF c1(1)] by blast
      then show ?thesis using call_without_tokens [OF c] cleared_tokens [of "auth w"] ys(1) by simp
    qed
    then show ?thesis using xs ys Inl again call_location [OF c] by auto
  qed
qed

definition demo_no_body :: "fetch_outcome list client" where
  \<comment> \<open>the categories come without a body first, then as a list\<close>
  "demo_no_body = logged_in [answer 204 Undefined, answer 200 (JObj [(''data'', JArr [])])]"

theorem failed_query_is_tried_twice_witness:
  "let w1 = snd (query_fetch playback useCategories demo_no_body);
       z = fetch_query playback useCategories demo_no_body
   in fst z = Inr (JArr []) \<and> (\<exists>ys. sent (snd z) = sent w1 @ ys \<and> one_call ''/api/categories'' ys)"
proof -
  have u: "qu_url useCategories = ''/api/categories''" by (simp add: useCategories_def plain_query_def)
  obtain res1 w1 where c: "query_fetch playback useCategories demo_no_body = (res1, w1)" by fastforce
  obtain res w' where f: "fetch_query playback useCategories demo_no_body = (res, w')" by fastforce
  have "\<exists>e. res1 = Inl e" "res = Inr (JArr [])"
    using c f by (auto simp: fetch_query_eq query_fetch_def useCategories_def plain_query_def demo_no_body_def call_eval)
  then show ?thesis
    using failed_query_is_tried_twice [OF f c, unfolded u] unfolding Let_def c f by auto
qed

end
