(* ===== verification/Spec2Isabelle.thy ===== *)
theory Spec2Isabelle
  imports Refresh_Flight Url_Params Query_Hooks Abort_Hooks File_Format Attachment_Uploader
    Attachment_Area Ui_Parts Confirm_Dialog Item_Form Item_Slide_Panel Report_Actions Report_Detail
    Query_Keys List_Url List_Tables List_Pages Workflow_List Report_Form Dashboard App_Shell Auth_Pages Json_Types
    Page_Live Nav_Messages Query_Retry
begin

text \<open>
  The browser client of an expense application (frontend/src): users sign up and log in, write expense
  reports with items and attached files and submit them; approvers decide, accountants record
  payments, administrators see everything of their tenant. This development models the client -
  everything from the token store up to the pages - and proves what makes its parts correct. The
  server (cmd, internal, db) is seen through \<open>fetch\<close>, which is a parameter everywhere.

  \<^bold>\<open>Theories and sources.\<close>

  \<^item> Prelude: JavaScript values (\<open>jsval\<close>), what can be thrown (\<open>js_error\<close>), decimal printing, rendered trees
    (\<open>jsx\<close>: elements with attributes, of which some are events; \<open>clickable\<close>, \<open>offered\<close> and \<open>texts_of\<close> read
    them) and lemmas on them.
  \<^item> Error_Messages (lib/error-messages.ts, lib/constants.ts), Api_Types and Json_Types (api/types.ts,
    api/adminTypes.ts), File_Format (lib/format.ts), Url_Params (\<open>URLSearchParams\<close>).
  \<^item> Auth_Store (stores/auth.ts, hooks/useAuth.ts): the token store as the interface \<open>token_store\<close> and, with a
    reload of the page, \<open>reloadable_store\<close>, both interpreted on the model of the module.
  \<^item> Api_Client (api/client.ts): one call on its own, from the request over a 401 and the refresh to the error it
    throws. Refresh_Flight: the same code cut at its awaits, any number of calls interleaved, with the
    promise of the refresh they share as a value with an identity; an \<open>inductive\<close> step relation with
    reachability.
  \<^item> Query_Hooks, Query_Keys (hooks/use*.ts, main.tsx): keys, URLs and options of the queries; the defaults of the
    query client, by which a query function that throws is called once more; request, result and
    invalidated keys of the mutations; login, signup, logout. Abort_Hooks: the mutations that can be cancelled.
  \<^item> Ui_Parts, Confirm_Dialog (components/ui): the shared widgets, and the dialog with its closing display.
  \<^item> Attachment_Uploader, Attachment_Area, Item_Form, Item_Slide_Panel (pages/reports, components/report): files and
    the panel that edits an item. The asynchronous save of the panel, which creates the item and then
    sends its files one by one, is a step relation between awaits.
  \<^item> Report_Actions, Report_Detail (pages/reports/ReportDetailPage.tsx and its parts): the page of a report, with its
    dialogs, mutations and the panel. Report_Form: the pages that create and edit a report.
  \<^item> Panel_Moves, Panel_System: the panel together with its form, its attachment area and the upload control as one
    system - calls from child to parent and through refs, mounting, keys, modal dialogs. Page_System: the
    page of a report with that panel, with the panels it has replaced whose requests still run. Page_Live: the
    same while data arrives at any time, of the same report or, as the page stays mounted, of another one.
  \<^item> List_Url, List_Tables, List_Pages, Workflow_List: the lists, whose parameters live in the URL.
  \<^item> Dashboard (pages/dashboard, components/dashboard, pages/admin/TenantPage.tsx and its parts), App_Shell (App.tsx,
    components/auth, components/layout), Auth_Pages (pages/login, signup, password-reset, auth).
  \<^item> Query_Retry (main.tsx, contexts, hooks/useSnackbar.ts): what the defaults of the query client make of a
    failing query. Nav_Messages: the tab with its history, which connects the pages that send a message with a
    navigation and those that take it into their toast, and what their rendering makes of it.

  A component with state is a record of its \<open>useState\<close> and \<open>useRef\<close> cells; a handler, effect or callback is a
  definition from state to state, with what it causes outside - requests, navigations, callbacks to
  its parent - appended to a list in the state or returned; the render is a definition from the state
  to a tree. The user can do what the rendered tree offers: events of disabled buttons are not offered.
  What the code throws is a value of a sum type.

  \<^bold>\<open>Lemmas.\<close> For each component: an invariant and that every operation keeps it (\<open>single_flight\<close>, \<open>tokens_once\<close>,
  \<open>page_inv\<close>, \<open>mirrors\<close>, \<open>calm\<close> and others), the behaviour of the operations on each branch, errors included,
  and what reachable states guarantee. Across components: a lone call of Refresh_Flight refines \<open>apiClient\<close>;
  the system of page and panel refines the page on its own, and that of the panel its parts, so that what
  is proved of a part holds in the whole; equal cache keys mean equal requests; the navigation agrees with the guards of the pages; the links of
  the dashboard lead to pages open to the user, its cards to the list they count; an accepted login leads back to the
  origin but in one order of events, in which the layout of the login overrides it (\<open>login_race_step\<close>); and, below, resubmission and the end of a session.

  \<^bold>\<open>Interfaces.\<close> Locales state what one part relies on of another (the token store, the refs of a running mutation,
  the object URLs and so on); each is interpreted on the definitions of the component that provides it.

  \<^bold>\<open>Bounds.\<close> No fuel is used: all recursion is structural or has a measure, and what may go on for ever - calls,
  renders - is a step relation. That every call ends is proved with a measure on the steps that are left.
  Numbers read from a URL are exact integers, which is what the code computes up to 2 to the 53rd; file
  sizes are rounded exactly. A query sends at most six requests: two tries of at most three. Strings are lists of characters of one byte; Japanese texts are given as ASCII
  glosses, distinct texts as distinct glosses.

  \<^bold>\<open>Parameters\<close>, for code outside the repository: the network (\<open>fetch\<close>), the matching of cache keys (\<open>matches\<close>, assumed to
  match prefixes where that is used), the comparison of form values (\<open>differs\<close>), which strings are e-mail
  addresses (\<open>is_email\<close>), and the formatting of the locale (\<open>locale_format\<close>). The form and schema libraries and the
  router are modelled by what they document: when fields are validated, that the first failing check
  of a field is its message, that the most specific route is taken.

  \<^bold>\<open>Not modelled.\<close> Styles (theme.ts), icons, focus and scrolling; comments, imports and the destructuring of
  properties, which have no counterpart in a definition; of the query library, when it collects unused data and
  that it pauses before a retry; percent-decoding of path parameters; api/reports.ts, which is empty; the
  server, tests and the configuration of tools. The data that a delivery of Page_Live brings is arbitrary: the
  server is not constrained.

  \<^bold>\<open>State.\<close> Every component of the client that has behaviour of its own is modelled; what would extend the development
  is the server, whose rules - who may decide, which versions conflict - the client relies on and which
  is written in another language.
\<close>

subsection \<open>From a rejected report to the next one\<close>

definition id_char :: "char \<Rightarrow> bool" where
  \<comment> \<open>the characters of the server's identifiers\<close>
  "id_char c \<longleftrightarrow> is_digit c \<or> 97 \<le> (of_char c :: nat) \<and> (of_char c :: nat) \<le> 122 \<or> c = CHR ''-''"

lemma form_encode_id: "list_all id_char i \<Longrightarrow> form_encode i = i"
proof (induction i)
  case (Cons c i)
  have "form_char c = [c]"
    using Cons.prems by (auto simp: id_char_def form_char_def Let_def is_digit_def)
  with Cons show ?case by (simp add: form_encode_def)
qed (simp add: form_encode_def)

text \<open>
  C26. A rejected report is taken up in the new one. The button to resubmit leads to the page for a new report, and this
  page fetches exactly the rejected report - under the key of its detail page -, fills its form with its
  values and, when they are submitted, sends them with a reference to it.
\<close>

theorem resubmission_refers_to_report:
  assumes "list_all id_char (rd_id (pd_report pd))" "rd_id (pd_report pd) \<noteq> []"
    and "report_valid (values_of (pd_report pd))"
  shows "\<exists>t. action_event pd EResubmit s = pout (PNavigate t None) s \<and> page_of (before CHR ''?'' t) = Some PReportCreate \<and>
    (let c = mounted_create (parse_search (after CHR ''?'' t));
         q = useReport (cp_refId c);
         c1 = create_step (CRefData (pd_report pd)) c;
         c2 = create_step CSubmit c1
     in qu_enabled q \<and> qu_key q = detail_key (rd_id (pd_report pd)) \<and>
        qu_url q = ''/api/reports/'' @ rd_id (pd_report pd) \<and>
        rf_values (cp_form c1) = values_of (pd_report pd) \<and>
        (\<exists>i. cp_pending c2 = Some i \<and> cp_outs c2 = [FoCreate i] \<and>
          mu_init useCreateReport i sig = api_post_init (PlainPayload (JObj
            [(''title'', JStr (rd_title (pd_report pd))), (''period_start'', JStr (rd_period_start (pd_report pd))),
             (''period_end'', JStr (rd_period_end (pd_report pd))),
             (''reference_report_id'', JStr (rd_id (pd_report pd)))])) sig))"
proof -
  let ?i = "rd_id (pd_report pd)"
  have "search_string [(''ref'', ?i)] = ''ref='' @ ?i"
  proof -
    have "form_encode ''ref'' = ''ref''" by code_simp
    then show ?thesis using form_encode_id [OF assms(1)] by simp
  qed
  then have p: "parse_search (''ref='' @ ?i) = [(''ref'', ?i)]" by (metis parse_search_string)
  have t: "before CHR ''?'' (''/reports/new?ref='' @ ?i) = ''/reports/new''"
    "after CHR ''?'' (''/reports/new?ref='' @ ?i) = ''ref='' @ ?i"
    by (simp_all add: before_def after_def)
  have "page_of ''/reports/new'' = Some PReportCreate" by code_simp
  then show ?thesis using assms(2,3) p t
    by (intro exI [of _ "''/reports/new?ref='' @ ?i"])
      (simp add: action_event_def mounted_create_def useReport_def plain_query_def detail_key_def truthy_opt_def
        defaults_effect_def fresh_form_def report_handleSubmit_def create_handleSubmit_def useCreateReport_def
        values_of_def validate_def Let_def)
qed

theorem resubmission_refers_to_report_witness:
  "\<exists>t. action_event (demo_page_data ''u1'' Member Rejected) EResubmit mounted_page = pout (PNavigate t None) mounted_page \<and>
     cp_outs (create_step CSubmit (create_step (CRefData (demo_report Rejected))
       (mounted_create (parse_search (after CHR ''?'' t))))) \<noteq> []"
proof -
  have r: "pd_report (demo_page_data ''u1'' Member Rejected) = demo_report Rejected"
    by (simp add: demo_page_data_def)
  have "list_all id_char (rd_id (demo_report Rejected))" "rd_id (demo_report Rejected) \<noteq> []"
    "report_valid (values_of (demo_report Rejected))"
    by code_simp+
  note resubmission_refers_to_report [of "demo_page_data ''u1'' Member Rejected", unfolded r, OF this, of mounted_page undefined]
  then show ?thesis unfolding Let_def by (elim exE conjE) (intro exI conjI, assumption, simp)
qed

subsection \<open>The end of a session\<close>

text \<open>
  C36. A session that ends leads back to work only over the dashboard. When a refresh fails the browser loads the login;
  the token store that the new page reads from the storage has no token, so the login is shown, and
  an accepted login continues at the dashboard: the page that was open is not remembered. If the
  storage does not let the tokens be removed, the old one is read again and the login is passed over
  to the dashboard.
\<close>

theorem ended_session_restarts_at_dashboard:
  assumes "doRefresh fetch w = (False, w')"
  shows "href w' = href w @ [''/login''] \<and>
    (storage_works (auth w) \<longrightarrow>
       app_view (reload_auth (auth w')) ''/login'' [] = Some (ShowAuthPage PLogin) \<and>
       fst (login_settled None (Inr data) (reload_auth (auth w'), s)) = Some ''/dashboard'') \<and>
    (\<not> st_remove_ok (storage (auth w)) \<and> st_get_ok (storage (auth w)) \<and>
       st_items (storage (auth w)) KEY_ACCESS_TOKEN \<noteq> None \<longrightarrow>
       app_view (reload_auth (auth w')) ''/login'' [] = Some (NavigateTo ''/dashboard'' None))"
proof -
  have w: "auth w' = clearTokens (auth w)" "href w' = href w @ [''/login'']"
    using doRefresh_False [OF assms] by simp_all
  have m: "match_routes app_routes ''/login'' = Some (public_route [Static ''login''] PLogin, [])" by code_simp
  have v: "app_view a ''/login'' [] = Some (authLayout a PLogin)" for a by (simp add: app_view_def m)
  have "storage_works (auth w) \<Longrightarrow> \<not> useAuth (reload_auth (auth w'))"
    by (simp add: w(1) useAuth_def rs.reload_access_clear)
  moreover have "useAuth (reload_auth (auth w'))"
    if "\<not> st_remove_ok (storage (auth w))" "st_get_ok (storage (auth w))"
      "st_items (storage (auth w)) KEY_ACCESS_TOKEN \<noteq> None"
    using that by (auto simp: w(1) useAuth_def store_defs split: option.split)
  ultimately show ?thesis
    by (simp add: w(2) v authLayout_def login_settled_def)
qed

theorem ended_session_restarts_at_dashboard_witness:
  "\<exists>w'. doRefresh playback (logged_in [Failed type_error]) = (False, w') \<and>
     app_view (reload_auth (auth w')) ''/login'' [] = Some (ShowAuthPage PLogin)"
proof -
  obtain w' where r: "doRefresh playback (logged_in [Failed type_error]) = (False, w')"
    by (simp add: call_eval)
  have "storage_works (auth (logged_in [Failed type_error]))"
    by (simp add: logged_in_def store_defs)
  then show ?thesis using r ended_session_restarts_at_dashboard [OF r] by blast
qed

end
